(* ===== verification/Prelude.thy ===== *)
theory Prelude
  imports Main "HOL-Library.Word" "HOL-Library.Multiset"
begin

text \<open>
  What the component theories share: the outcome of a Go call that may panic, 64-bit
  integers, and the parts of Go's standard library the code calls (\<open>strings\<close>,
  \<open>strconv\<close> and the \<open>%x\<close> verb of \<open>fmt\<close>), with the generic lemmas on lists
  and numerals that the components' proofs rest on.
  Strings are byte strings (\<open>char list\<close>), as in Go.
\<close>

unbundle bit_operations_syntax

section \<open>Collections of hints\<close>

named_theorems go_defs "definitions of small Go helpers, for unfolding"
named_theorems i64_simps "wrap-around of int64 values that stay in range"

section \<open>Outcomes\<close>

text \<open>
  A Go call returns or panics. Errors are ordinary results (\<open>error + 'a\<close>, the left
  side being the error), and a loop that may not end is an \<open>option\<close>.
\<close>

datatype go_panic =
    NilDereference
  | IndexOutOfRange
  | NilMapWrite
  | ProcessExit string
  | NonPositiveInterval
  | UserPanic string

datatype 'a exec = Return 'a | Panic go_panic

fun exec_bind :: "'a exec \<Rightarrow> ('a \<Rightarrow> 'b exec) \<Rightarrow> 'b exec" where
  "exec_bind (Return a) k = k a"
| "exec_bind (Panic p) k = Panic p"

lemma exec_bind_Return_iff [simp]:
  "exec_bind m k = Return b \<longleftrightarrow> (\<exists>a. m = Return a \<and> k a = Return b)"
  by (cases m) auto

lemma exec_bind_Panic_iff [simp]:
  "exec_bind m k = Panic p \<longleftrightarrow> m = Panic p \<or> (\<exists>a. m = Return a \<and> k a = Panic p)"
  by (cases m) auto

text \<open>
  Errors as values, where the code only makes and returns them: an error of a library, a new
  one or a wrapped one. (The objects behind them are the subject of \<open>Errors\<close>.)
\<close>

datatype 'e go_error = Lib 'e | NewError string | WrapError "'e go_error" string

section \<open>Machine integers\<close>

type_synonym u64 = "64 word"
type_synonym byte = "8 word"

text \<open>
  An \<open>int64\<close> is an \<open>int\<close>, and every arithmetic operation on it is followed by
  \<open>i64\<close>, the two's complement wrap-around.
\<close>

definition i64 :: "int \<Rightarrow> int" where
  "i64 x = (x + 2 ^ 63) mod 2 ^ 64 - 2 ^ 63"

definition in_i64 :: "int \<Rightarrow> bool" where
  "in_i64 x \<longleftrightarrow> - (2 ^ 63) \<le> x \<and> x < 2 ^ 63"

lemma i64_id [simp, i64_simps]: "in_i64 x \<Longrightarrow> i64 x = x"
  by (simp add: i64_def in_i64_def)

lemma i64_range [simp]: "in_i64 (i64 x)"
proof -
  have "0 \<le> (x + 2 ^ 63) mod 2 ^ 64" "(x + 2 ^ 63) mod 2 ^ 64 < 2 ^ 64"
    by simp_all
  then show ?thesis unfolding i64_def in_i64_def by auto
qed

lemma in_i64_between: "in_i64 a \<Longrightarrow> in_i64 c \<Longrightarrow> a \<le> b \<Longrightarrow> b \<le> c \<Longrightarrow> in_i64 b"
  by (simp add: in_i64_def)

section \<open>Lists\<close>

lemma sum_list_update_int:
  fixes xs :: "int list"
  shows "i < length xs \<Longrightarrow> sum_list (xs[i := v]) = sum_list xs - xs ! i + v"
  by (induction xs arbitrary: i) (auto split: nat.splits)

lemma sum_list_map_update:
  fixes f :: "'a \<Rightarrow> int"
  shows "i < length xs \<Longrightarrow>
    sum_list (map f (xs[i := v])) = sum_list (map f xs) - f (xs ! i) + f v"
  by (simp add: map_update sum_list_update_int)

lemma set_update_Ball: "\<forall>x \<in> set xs. P x \<Longrightarrow> P y \<Longrightarrow> \<forall>x \<in> set (xs[i := y]). P x"
  using set_update_subset_insert [of xs i y] by blast

lemma list_all_update: "list_all P xs \<Longrightarrow> P y \<Longrightarrow> list_all P (xs[i := y])"
  unfolding list_all_iff by (rule set_update_Ball)

lemma find_SomeD: "find P xs = Some x \<Longrightarrow> x \<in> set xs \<and> P x"
  by (induction xs) (auto split: if_splits)

lemma find_append: "find P (xs @ ys) = (case find P xs of None \<Rightarrow> find P ys | Some x \<Rightarrow> Some x)"
  by (induction xs) auto

section \<open>Strings\<close>

definition HasPrefix :: "string \<Rightarrow> string \<Rightarrow> bool" where
  [go_defs]: "HasPrefix s p \<longleftrightarrow> take (length p) s = p"

definition HasSuffix :: "string \<Rightarrow> string \<Rightarrow> bool" where
  [go_defs]: "HasSuffix s p \<longleftrightarrow> HasPrefix (rev s) (rev p)"

text \<open>\<open>strings.ToLower\<close> on the ASCII letters; other bytes are kept.\<close>

definition lower_char :: "char \<Rightarrow> char" where
  "lower_char c =
     (let n = of_char c :: nat in if 65 \<le> n \<and> n \<le> 90 then char_of (n + 32) else c)"

definition ToLower :: "string \<Rightarrow> string" where
  "ToLower s = map lower_char s"

text \<open>\<open>strings.Join\<close>.\<close>

fun Join :: "string \<Rightarrow> string list \<Rightarrow> string" where
  "Join sep [] = []"
| "Join sep [s] = s"
| "Join sep (s # t # ts) = s @ sep @ Join sep (t # ts)"

lemma Join_Cons: "ts \<noteq> [] \<Longrightarrow> Join sep (s # ts) = s @ sep @ Join sep ts"
  by (cases ts) auto

text \<open>\<open>strings.LastIndex\<close> of a one-character separator; \<open>None\<close> stands for \<open>-1\<close>.\<close>

fun LastIndex :: "string \<Rightarrow> char \<Rightarrow> nat option" where
  "LastIndex [] x = None"
| "LastIndex (c # cs) x =
     (case LastIndex cs x of
        Some i \<Rightarrow> Some (Suc i)
      | None \<Rightarrow> if c = x then Some 0 else None)"

lemma HasPrefix_iff: "HasPrefix s p \<longleftrightarrow> (\<exists>t. s = p @ t)"
  unfolding HasPrefix_def by (metis append_eq_conv_conj append_take_drop_id)

lemma lower_char_lower_char [simp]: "lower_char (lower_char c) = lower_char c"
proof (cases "65 \<le> (of_char c :: nat) \<and> (of_char c :: nat) \<le> 90")
  case True
  then have "(of_char (char_of (of_char c + 32 :: nat)) :: nat) = of_char c + 32"
    by (simp add: of_char_of take_bit_eq_mod)
  with True show ?thesis by (simp add: lower_char_def Let_def)
next
  case False
  then show ?thesis by (auto simp: lower_char_def Let_def)
qed

lemma ToLower_idem [simp]: "ToLower (ToLower s) = ToLower s"
  by (simp add: ToLower_def)

lemma LastIndex_None: "LastIndex s x = None \<longleftrightarrow> x \<notin> set s"
  by (induction s) (auto split: option.splits)

lemma LastIndex_append_sep:
  assumes "x \<notin> set t"
  shows "LastIndex (s @ x # t) x = Some (length s)"
proof -
  from assms have "LastIndex t x = None" by (simp add: LastIndex_None)
  then show ?thesis by (induction s) auto
qed

text \<open>\<open>strings.Split\<close> at a one-character separator: always at least one part.\<close>

fun Split :: "char \<Rightarrow> string \<Rightarrow> string list" where
  "Split sep [] = [[]]"
| "Split sep (c # cs) =
     (if c = sep then [] # Split sep cs else (c # hd (Split sep cs)) # tl (Split sep cs))"

lemma Split_ne [simp]: "Split sep s \<noteq> []"
  by (cases s) auto

lemma Join_Split: "Join [sep] (Split sep s) = s"
proof (induction s)
  case (Cons c cs)
  obtain p ps where "Split sep cs = p # ps" by (meson Split_ne neq_Nil_conv)
  with Cons show ?case by (cases ps) auto
qed simp

lemma Split_no_sep: "p \<in> set (Split sep s) \<Longrightarrow> sep \<notin> set p"
proof (induction s arbitrary: p)
  case (Cons c cs)
  obtain q qs where "Split sep cs = q # qs" by (meson Split_ne neq_Nil_conv)
  with Cons show ?case by (auto split: if_splits)
qed simp

text \<open>
  The package \<open>path\<close>: \<open>Clean\<close> takes the parts between slashes one by one; a double dot
  removes the last one, stays at the front of a relative path and is dropped at the root.
\<close>

definition IsAbs :: "string \<Rightarrow> bool" where
  "IsAbs p \<longleftrightarrow> HasPrefix p ''/''"

fun clean_parts :: "bool \<Rightarrow> string list \<Rightarrow> string list \<Rightarrow> string list" where
  "clean_parts rooted [] acc = rev acc"
| "clean_parts rooted (p # ps) acc =
     (if p = [] \<or> p = ''.'' then clean_parts rooted ps acc
      else if p = ''..'' then
        (if acc \<noteq> [] \<and> hd acc \<noteq> ''..'' then clean_parts rooted ps (tl acc)
         else if rooted then clean_parts rooted ps acc
         else clean_parts rooted ps (p # acc))
      else clean_parts rooted ps (p # acc))"

definition Clean :: "string \<Rightarrow> string" where
  "Clean p =
     (let parts = Join ''/'' (clean_parts (IsAbs p) (Split (CHR ''/'') p) [])
      in if IsAbs p then CHR ''/'' # parts else if parts = [] then ''.'' else parts)"

definition path_Dir :: "string \<Rightarrow> string" where
  "path_Dir p = Clean (case LastIndex p (CHR ''/'') of None \<Rightarrow> [] | Some i \<Rightarrow> take (Suc i) p)"

definition path_Join :: "string \<Rightarrow> string \<Rightarrow> string" where
  "path_Join d f = (if d = [] then (if f = [] then [] else Clean f)
     else if f = [] then Clean d else Clean (d @ ''/'' @ f))"

lemma Clean_ne [simp]: "Clean p \<noteq> []"
  by (simp add: Clean_def Let_def)

lemma clean_parts_subset: "set (clean_parts rooted ps acc) \<subseteq> {p \<in> set ps. p \<noteq> []} \<union> set acc"
proof (induction ps arbitrary: acc)
  case (Cons p ps)
  have "set (tl acc) \<subseteq> set acc" by (cases acc) auto
  note acc = this
  consider "clean_parts rooted (p # ps) acc = clean_parts rooted ps acc"
    | "clean_parts rooted (p # ps) acc = clean_parts rooted ps (tl acc)"
    | "p \<noteq> []" "clean_parts rooted (p # ps) acc = clean_parts rooted ps (p # acc)"
    by (simp only: clean_parts.simps) metis
  then show ?case
  proof cases
    case 1
    then show ?thesis using Cons [of acc] by auto
  next
    case 2
    then show ?thesis using Cons [of "tl acc"] acc by auto
  next
    case 3
    then show ?thesis using Cons [of "p # acc"] by auto
  qed
qed simp

lemma IsAbs_Clean [simp]: "IsAbs (Clean p) \<longleftrightarrow> IsAbs p"
proof (cases "IsAbs p")
  case False
  let ?ps = "clean_parts False (Split (CHR ''/'') p) []"
  have parts: "q \<noteq> [] \<and> CHR ''/'' \<notin> set q" if "q \<in> set ?ps" for q
    using that clean_parts_subset [of False "Split (CHR ''/'') p" "[]"] Split_no_sep by fastforce
  have "\<not> IsAbs (Join ''/'' ?ps)"
  proof (cases ?ps)
    case (Cons q qs)
    with parts [of q] obtain c cs where "q = c # cs" "c \<noteq> CHR ''/''" by (cases q) auto
    with Cons show ?thesis by (cases qs) (simp_all add: IsAbs_def HasPrefix_def)
  qed (simp add: IsAbs_def HasPrefix_def)
  moreover have "\<not> IsAbs ''.''" by (simp add: IsAbs_def HasPrefix_def)
  ultimately show ?thesis using False by (simp add: Clean_def Let_def)
qed (simp add: Clean_def Let_def, simp add: IsAbs_def HasPrefix_def)

text \<open>\<open>filepath.Ext\<close>: from the last dot of the last path element on.\<close>

definition Ext :: "string \<Rightarrow> string" where
  "Ext path = (let plain = (\<lambda>c. c \<noteq> CHR ''.'' \<and> c \<noteq> CHR ''/'') in
     case dropWhile plain (rev path) of
       c # _ \<Rightarrow> if c = CHR ''.'' then CHR ''.'' # rev (takeWhile plain (rev path)) else []
     | [] \<Rightarrow> [])"

lemma Ext_append:
  assumes "CHR ''.'' \<notin> set e" "CHR ''/'' \<notin> set e"
  shows "Ext (s @ CHR ''.'' # e) = CHR ''.'' # e"
proof -
  define plain :: "char \<Rightarrow> bool" where "plain = (\<lambda>c. c \<noteq> CHR ''.'' \<and> c \<noteq> CHR ''/'')"
  have "\<And>c. c \<in> set (rev e) \<Longrightarrow> plain c" "\<not> plain (CHR ''.'')" using assms by (auto simp: plain_def)
  then have "dropWhile plain (rev (s @ CHR ''.'' # e)) = CHR ''.'' # rev s"
    "takeWhile plain (rev (s @ CHR ''.'' # e)) = rev e"
    using dropWhile_append2 [of "rev e" plain "CHR ''.'' # rev s"]
      takeWhile_append2 [of "rev e" plain "CHR ''.'' # rev s"] by simp_all
  then show ?thesis unfolding Ext_def plain_def [symmetric] Let_def by simp
qed

section \<open>Numerals: \<open>strconv\<close> and \<open>fmt\<close>\<close>

datatype num_error = ErrSyntax | ErrRange

definition max_u64 :: nat where
  "max_u64 = 2 ^ 64 - 1"

definition char_digit :: "char \<Rightarrow> nat option" where
  "char_digit c =
     (let n = of_char c :: nat in
      if 48 \<le> n \<and> n \<le> 57 then Some (n - 48)
      else if 97 \<le> n \<and> n \<le> 122 then Some (n - 97 + 10)
      else if 65 \<le> n \<and> n \<le> 90 then Some (n - 65 + 10)
      else None)"

definition digit_char :: "nat \<Rightarrow> char" where
  "digit_char d = (if d < 10 then char_of (48 + d) else char_of (87 + d))"

text \<open>
  The digit loop of \<open>strconv.ParseUint\<close> for 64 bits, left to right: a byte that is
  no digit of the base ends it with \<open>(0, ErrSyntax)\<close>, a value that leaves the range
  with \<open>(MaxUint64, ErrRange)\<close>, whatever follows.
\<close>

fun ParseUint_loop :: "nat \<Rightarrow> string \<Rightarrow> nat \<Rightarrow> nat \<times> num_error option" where
  "ParseUint_loop base [] n = (n, None)"
| "ParseUint_loop base (c # cs) n =
     (case char_digit c of
        None \<Rightarrow> (0, Some ErrSyntax)
      | Some d \<Rightarrow>
          if base \<le> d then (0, Some ErrSyntax)
          else if max_u64 div base + 1 \<le> n then (max_u64, Some ErrRange)
          else
            let m = (n * base) mod 2 ^ 64;
                n1 = (m + d) mod 2 ^ 64
            in if n1 < m \<or> max_u64 < n1 then (max_u64, Some ErrRange)
               else ParseUint_loop base cs n1)"

definition ParseUint :: "nat \<Rightarrow> string \<Rightarrow> nat \<times> num_error option" where
  "ParseUint base s = (if s = [] then (0, Some ErrSyntax) else ParseUint_loop base s 0)"

text \<open>\<open>strconv.ParseInt (s, 10, 64)\<close>; \<open>strconv.Atoi\<close> is the same function on 64 bits.\<close>

definition ParseInt :: "string \<Rightarrow> int \<times> num_error option" where
  "ParseInt s =
     (if s = [] then (0, Some ErrSyntax)
      else
        let neg = (hd s = CHR ''-'');
            body = (if hd s = CHR ''+'' \<or> neg then tl s else s)
        in case ParseUint 10 body of
             (_, Some ErrSyntax) \<Rightarrow> (0, Some ErrSyntax)
           | (un, _) \<Rightarrow>
               if \<not> neg \<and> 2 ^ 63 \<le> un then (2 ^ 63 - 1, Some ErrRange)
               else if neg \<and> 2 ^ 63 < un then (- (2 ^ 63), Some ErrRange)
               else (if neg then - int un else int un, None))"

text \<open>The digits of a number, most significant first, and their value.\<close>

fun radix_digits :: "nat \<Rightarrow> nat \<Rightarrow> nat list" where
  "radix_digits base n =
     (if base < 2 \<or> n < base then [n] else radix_digits base (n div base) @ [n mod base])"

declare radix_digits.simps [simp del]

definition radix_value :: "nat \<Rightarrow> nat list \<Rightarrow> nat" where
  "radix_value base ds = foldl (\<lambda>n d. n * base + d) 0 ds"

definition FormatUint :: "nat \<Rightarrow> nat \<Rightarrow> string" where
  "FormatUint base n = map digit_char (radix_digits base n)"

definition FormatInt :: "int \<Rightarrow> string" where
  "FormatInt x = (if x < 0 then CHR ''-'' # FormatUint 10 (nat (- x)) else FormatUint 10 (nat x))"

definition pad_left :: "nat \<Rightarrow> char \<Rightarrow> string \<Rightarrow> string" where
  "pad_left w c s = replicate (w - length s) c @ s"

lemma radix_value_Nil [simp]: "radix_value base [] = 0"
  by (simp add: radix_value_def)

lemma radix_value_snoc [simp]:
  "radix_value base (ds @ [d]) = radix_value base ds * base + d"
  by (simp add: radix_value_def)

lemma radix_digits_value: "radix_value base (radix_digits base n) = n"
proof (induction base n rule: radix_digits.induct)
  case (1 base n)
  show ?case
  proof (cases "base < 2 \<or> n < base")
    case True
    then show ?thesis
      by (subst radix_digits.simps) (simp add: radix_value_def)
  next
    case False
    with 1 show ?thesis by (subst radix_digits.simps) simp
  qed
qed

lemma radix_digits_bound:
  assumes "2 \<le> base"
  shows "\<forall>d \<in> set (radix_digits base n). d < base"
  using assms
proof (induction base n rule: radix_digits.induct)
  case (1 base n)
  then show ?case by (subst radix_digits.simps) auto
qed

lemma radix_digits_Cons: "radix_digits base n \<noteq> []"
  by (subst radix_digits.simps) simp

lemma radix_digits_length:
  "2 \<le> base \<Longrightarrow> n < base ^ k \<Longrightarrow> 0 < k \<Longrightarrow> length (radix_digits base n) \<le> k"
proof (induction base n arbitrary: k rule: radix_digits.induct)
  case (1 base n)
  show ?case
  proof (cases "n < base")
    case True
    with 1 show ?thesis by (subst radix_digits.simps) simp
  next
    case False
    obtain j where k: "k = Suc j" using "1.prems" by (cases k) auto
    with False "1.prems" have j: "0 < j" by (cases j) auto
    from "1.prems" k have "n div base < base ^ j"
      by (simp add: less_mult_imp_div_less mult.commute)
    with "1.IH" "1.prems" False j have "length (radix_digits base (n div base)) \<le> j" by simp
    with False "1.prems" k show ?thesis by (subst radix_digits.simps) simp
  qed
qed

lemma of_char_char_of_small: "n < 256 \<Longrightarrow> (of_char (char_of n :: char) :: nat) = n"
  by (simp add: of_char_of take_bit_eq_mod)

lemma char_digit_digit_char [simp]: "d < 36 \<Longrightarrow> char_digit (digit_char d) = Some d"
  by (auto simp: char_digit_def digit_char_def of_char_char_of_small Let_def)

lemma radix_value_append:
  "radix_value base (ds @ es) = radix_value base ds * base ^ length es + radix_value base es"
  by (induction es rule: rev_induct) (auto simp: append_assoc[symmetric] algebra_simps simp del: append_assoc)

text \<open>One step of the digit loop on a digit that keeps the value in range.\<close>

lemma ParseUint_loop_step:
  assumes "2 \<le> base" "char_digit c = Some d" "d < base" "n * base + d \<le> max_u64"
  shows "ParseUint_loop base (c # cs) n = ParseUint_loop base cs (n * base + d)"
proof -
  from assms(4) have "n * base \<le> max_u64" by simp
  then have "n \<le> max_u64 div base" using assms(1)
    by (simp add: less_eq_div_iff_mult_less_eq)
  moreover from assms(4) have "n * base < 2 ^ 64" "n * base + d < 2 ^ 64"
    by (simp_all add: max_u64_def)
  ultimately show ?thesis using assms by (simp add: Let_def)
qed

text \<open>The same step on a digit that takes the value out of range.\<close>

lemma ParseUint_loop_overflow_step:
  assumes "2 \<le> base" "base \<le> 36" "char_digit c = Some d" "d < base"
    "max_u64 < n * base + d"
  shows "ParseUint_loop base (c # cs) n = (max_u64, Some ErrRange)"
proof (cases "max_u64 div base + 1 \<le> n")
  case True
  with assms show ?thesis by simp
next
  case False
  then have "n \<le> max_u64 div base" by simp
  then have "n * base \<le> max_u64" using assms(1)
    by (simp add: less_eq_div_iff_mult_less_eq)
  then have m: "(n * base) mod 2 ^ 64 = n * base" by (simp add: max_u64_def)
  have "n * base + d < 2 ^ 64 + 36" using \<open>n * base \<le> max_u64\<close> assms by (simp add: max_u64_def)
  moreover have "2 ^ 64 \<le> n * base + d" using assms(5) by (simp add: max_u64_def)
  ultimately have "(n * base + d) mod 2 ^ 64 = n * base + d - 2 ^ 64"
    by (simp add: le_mod_geq)
  moreover have "d < 2 ^ 64" using assms by simp
  ultimately have "(n * base + d) mod 2 ^ 64 < n * base"
    using \<open>n * base \<le> max_u64\<close> \<open>2 ^ 64 \<le> n * base + d\<close> by linarith
  with False assms m show ?thesis by (simp add: Let_def)
qed

lemma radix_value_Cons:
  "radix_value base (d # ds) = d * base ^ length ds + radix_value base ds"
  using radix_value_append [of base "[d]" ds] by (simp add: radix_value_def)

text \<open>A run of digits contributes its value, or saturates.\<close>

lemma ParseUint_loop_digits:
  assumes "2 \<le> base" "base \<le> 36" "map char_digit s = map Some ds" "\<forall>d \<in> set ds. d < base"
    and "n \<le> max_u64"
  shows "ParseUint_loop base (s @ r) n =
    (if n * base ^ length ds + radix_value base ds \<le> max_u64
     then ParseUint_loop base r (n * base ^ length ds + radix_value base ds)
     else (max_u64, Some ErrRange))"
  using assms(3-5)
proof (induction ds arbitrary: s n)
  case Nil
  then show ?case by simp
next
  case (Cons d ds)
  then obtain c cs where s: "s = c # cs" "char_digit c = Some d" "map char_digit cs = map Some ds"
    by (cases s) auto
  have d: "d < base" using Cons.prems by simp
  have split: "n * base ^ length (d # ds) + radix_value base (d # ds)
      = (n * base + d) * base ^ length ds + radix_value base ds"
    by (simp add: radix_value_Cons algebra_simps)
  show ?case
  proof (cases "n * base + d \<le> max_u64")
    case True
    then have "ParseUint_loop base (s @ r) n = ParseUint_loop base (cs @ r) (n * base + d)"
      using ParseUint_loop_step [OF assms(1) s(2) d] s(1) by simp
    then show ?thesis using Cons.IH [OF s(3) _ True] Cons.prems(2) split by simp
  next
    case False
    have "n * base + d \<le> (n * base + d) * base ^ length ds" using assms(1) by simp
    with False have "\<not> (n * base + d) * base ^ length ds + radix_value base ds \<le> max_u64"
      by linarith
    then show ?thesis
      using ParseUint_loop_overflow_step [OF assms(1,2) s(2) d] False s(1) split by simp
  qed
qed

text \<open>A byte that is no digit makes every parse fail, wherever it stands.\<close>

lemma ParseUint_loop_bad:
  assumes "c \<in> set s" "case char_digit c of None \<Rightarrow> True | Some d \<Rightarrow> base \<le> d"
  shows "snd (ParseUint_loop base s n) \<noteq> None"
  using assms by (induction s arbitrary: n) (auto simp: Let_def split: option.splits)

lemma radix_value_zeros [simp]:
  "radix_value base (replicate k 0 @ ds) = radix_value base ds"
proof -
  have "radix_value base (replicate k 0) = 0"
    by (induction k) (auto simp: radix_value_def)
  then show ?thesis by (simp add: radix_value_append)
qed

definition is_digit :: "nat \<Rightarrow> char \<Rightarrow> bool" where
  "is_digit base c \<longleftrightarrow> (case char_digit c of None \<Rightarrow> False | Some d \<Rightarrow> d < base)"

definition digits_of :: "string \<Rightarrow> nat list" where
  "digits_of s = map (\<lambda>c. case char_digit c of None \<Rightarrow> 0 | Some d \<Rightarrow> d) s"

lemma length_digits_of [simp]: "length (digits_of s) = length s"
  by (simp add: digits_of_def)

lemma digits_of_digits:
  assumes "list_all (is_digit base) s"
  shows "map char_digit s = map Some (digits_of s)" "\<forall>d \<in> set (digits_of s). d < base"
  using assms
  by (induction s) (auto simp: is_digit_def digits_of_def split: option.splits)

lemma ParseUint_eq:
  assumes "2 \<le> base" "base \<le> 36" "list_all (is_digit base) s" "s \<noteq> []"
  shows "ParseUint base s =
    (if radix_value base (digits_of s) \<le> max_u64 then (radix_value base (digits_of s), None)
     else (max_u64, Some ErrRange))"
  using ParseUint_loop_digits [OF assms(1,2) digits_of_digits [OF assms(3)], of 0 "[]"] assms(4)
  by (simp add: ParseUint_def max_u64_def)

text \<open>The result of a parse in closed form: what counts is the longest prefix of digits.\<close>

lemma ParseUint_spec:
  assumes "2 \<le> base" "base \<le> 36"
  shows "ParseUint base s =
    (let t = takeWhile (is_digit base) s; v = radix_value base (digits_of t)
     in if max_u64 < v then (max_u64, Some ErrRange)
        else if s = [] \<or> t \<noteq> s then (0, Some ErrSyntax)
        else (v, None))"
proof -
  define t where "t = takeWhile (is_digit base) s"
  obtain r where r: "s = t @ r" by (metis t_def takeWhile_dropWhile_id)
  have t: "list_all (is_digit base) t"
    unfolding t_def list_all_iff by (auto dest: set_takeWhileD)
  have loop: "ParseUint_loop base s 0 = (if radix_value base (digits_of t) \<le> max_u64
      then ParseUint_loop base r (radix_value base (digits_of t)) else (max_u64, Some ErrRange))"
    unfolding r using ParseUint_loop_digits [OF assms digits_of_digits [OF t], of 0 r]
    by (simp add: max_u64_def)
  have "ParseUint_loop base r n = (0, Some ErrSyntax)" if ne: "r \<noteq> []" for n
  proof -
    from ne obtain c cs where c: "r = c # cs" by (cases r) auto
    have "\<not> is_digit base c"
    proof
      assume "is_digit base c"
      moreover have "\<And>x. x \<in> set t \<Longrightarrow> is_digit base x" using t by (simp add: list_all_iff)
      ultimately have "takeWhile (is_digit base) s = t @ c # takeWhile (is_digit base) cs"
        unfolding r c by (simp add: takeWhile_append2)
      then show False by (simp add: t_def [symmetric])
    qed
    with c show ?thesis by (auto simp: is_digit_def split: option.splits)
  qed
  note bad = this
  have neq: "t \<noteq> s \<longleftrightarrow> r \<noteq> []" using r by simp
  have fin: "ParseUint_loop base [] n = (n, None)" for n by simp
  show ?thesis
  proof (cases "s = []")
    case True
    with t_def show ?thesis by (simp add: ParseUint_def digits_of_def radix_value_def)
  next
    case False
    then show ?thesis unfolding Let_def t_def [symmetric] neq
      by (cases "r = []") (simp_all add: ParseUint_def loop fin bad not_le)
  qed
qed

lemma ParseUint_ok_iff:
  assumes "2 \<le> base" "base \<le> 36"
  shows "snd (ParseUint base s) = None \<longleftrightarrow>
    s \<noteq> [] \<and> list_all (is_digit base) s \<and> radix_value base (digits_of s) \<le> max_u64"
proof (cases "s \<noteq> [] \<and> list_all (is_digit base) s")
  case True
  then show ?thesis using ParseUint_eq [OF assms] by simp
next
  case False
  then consider "s = []" | c where "c \<in> set s" "\<not> is_digit base c" "s \<noteq> []"
    by (auto simp: list_all_iff)
  then show ?thesis
  proof cases
    case 2
    then have "snd (ParseUint_loop base s 0) \<noteq> None"
      by (intro ParseUint_loop_bad [of c]) (auto simp: is_digit_def split: option.splits)
    with 2 False show ?thesis by (simp add: ParseUint_def)
  qed (simp add: ParseUint_def)
qed

lemma digits_of_digit_chars [simp]:
  assumes "\<forall>d \<in> set ds. d < 36"
  shows "digits_of (map digit_char ds) = ds"
  using assms by (induction ds) (auto simp: digits_of_def)

lemma is_digit_digit_chars:
  assumes "base \<le> 36" "\<forall>d \<in> set ds. d < base"
  shows "list_all (is_digit base) (map digit_char ds)"
  using assms by (induction ds) (auto simp: is_digit_def)

text \<open>What is printed in a base parses back, zero padding or not.\<close>

lemma ParseUint_FormatUint_padded:
  assumes "2 \<le> base" "base \<le> 36" "n \<le> max_u64"
  shows "ParseUint base (replicate k (CHR ''0'') @ FormatUint base n) = (n, None)"
proof -
  let ?ds = "replicate k 0 @ radix_digits base n"
  have zero: "CHR ''0'' = digit_char 0"
    by code_simp
  have b: "\<forall>d \<in> set ?ds. d < base" using radix_digits_bound [OF assms(1), of n] assms(1) by auto
  then have b36: "\<forall>d \<in> set ?ds. d < 36" using assms(2) by fastforce
  have s: "replicate k (CHR ''0'') @ FormatUint base n = map digit_char ?ds"
    by (simp add: FormatUint_def zero)
  show ?thesis
    unfolding s using assms b
    by (subst ParseUint_eq) (auto simp: is_digit_digit_chars b36 radix_digits_value radix_digits_Cons
        simp del: map_append)
qed

lemma ParseUint_FormatUint:
  "2 \<le> base \<Longrightarrow> base \<le> 36 \<Longrightarrow> n \<le> max_u64 \<Longrightarrow> ParseUint base (FormatUint base n) = (n, None)"
  using ParseUint_FormatUint_padded [of base n 0] by simp

lemma FormatUint_no_sign:
  assumes "2 \<le> base" "base \<le> 36"
  shows "CHR ''-'' \<notin> set (FormatUint base n)" "CHR ''+'' \<notin> set (FormatUint base n)"
proof -
  have "char_digit c \<noteq> None" if "c \<in> set (FormatUint base n)" for c
    using that radix_digits_bound [OF assms(1), of n] assms(2)
    by (fastforce simp: FormatUint_def)
  moreover have "char_digit (CHR ''-'') = None" "char_digit (CHR ''+'') = None"
    by (simp_all add: char_digit_def)
  ultimately show "CHR ''-'' \<notin> set (FormatUint base n)" "CHR ''+'' \<notin> set (FormatUint base n)"
    by metis+
qed

lemma FormatUint_ne [simp]: "FormatUint base n \<noteq> []"
  by (simp add: FormatUint_def radix_digits_Cons)

text \<open>\<open>FormatInt\<close> and \<open>ParseInt\<close> are inverse on \<open>int64\<close>.\<close>

lemma ParseInt_FormatInt:
  assumes "in_i64 x"
  shows "ParseInt (FormatInt x) = (x, None)"
proof (cases "x < 0")
  case True
  then have n: "nat (- x) \<le> 2 ^ 63" using assms by (simp add: in_i64_def)
  then have "ParseUint 10 (FormatUint 10 (nat (- x))) = (nat (- x), None)"
    by (intro ParseUint_FormatUint) (simp_all add: max_u64_def)
  then show ?thesis using True n by (simp add: ParseInt_def FormatInt_def)
next
  case False
  then have n: "nat x < 2 ^ 63" using assms by (simp add: in_i64_def nat_less_iff)
  then have p: "ParseUint 10 (FormatUint 10 (nat x)) = (nat x, None)"
    by (intro ParseUint_FormatUint) (simp_all add: max_u64_def)
  have "hd (FormatUint 10 (nat x)) \<in> set (FormatUint 10 (nat x))" by (rule hd_in_set) simp
  moreover have "CHR ''-'' \<notin> set (FormatUint 10 (nat x))" "CHR ''+'' \<notin> set (FormatUint 10 (nat x))"
    by (rule FormatUint_no_sign; simp)+
  ultimately have "hd (FormatUint 10 (nat x)) \<noteq> CHR ''-''"
    "hd (FormatUint 10 (nat x)) \<noteq> CHR ''+''" by metis+
  then show ?thesis using False n p by (simp add: ParseInt_def FormatInt_def)
qed

text \<open>Two digit lists of one length and one value are the same.\<close>

lemma radix_value_inj:
  assumes "length ds = length es" "\<forall>d \<in> set ds. d < base" "\<forall>e \<in> set es. e < base"
    and "radix_value base ds = radix_value base es"
  shows "ds = es"
  using assms
proof (induction ds arbitrary: es rule: rev_induct)
  case Nil
  then show ?case by simp
next
  case (snoc d ds)
  then obtain e es' where es: "es = es' @ [e]"
    by (metis append_butlast_last_id length_0_conv snoc_eq_iff_butlast)
  with snoc.prems have "d < base" "e < base" and
    "radix_value base ds * base + d = radix_value base es' * base + e" by auto
  moreover from this have "d = e"
    by (metis mod_less mod_mult_self3)
  ultimately have "radix_value base ds = radix_value base es'" by auto
  with snoc.IH [of es'] snoc.prems es \<open>d = e\<close> show ?case by auto
qed

text \<open>The digits of a number at fixed positions.\<close>

lemma radix_value_positional:
  "radix_value b (map (\<lambda>i. V div b ^ i mod b) (rev [0..<k])) = V mod b ^ k"
proof (induction k)
  case 0
  then show ?case by simp
next
  case (Suc k)
  have "V mod b ^ Suc k = b ^ k * (V div b ^ k mod b) + V mod b ^ k"
    by (simp add: mod_mult2_eq [of V "b ^ k" b, symmetric] mult.commute)
  with Suc show ?case by (simp add: radix_value_Cons mult.commute)
qed

section \<open>Bit fields\<close>

text \<open>A field shifted above the low \<open>k\<close> bits and a value below them do not overlap.\<close>

lemma push_bit_or_low:
  fixes S :: nat
  assumes "S < 2 ^ k"
  shows "push_bit k N OR S = N * 2 ^ k + S"
proof -
  have "push_bit k N + S = push_bit k N OR S"
  proof (rule disjunctive_add)
    fix n
    have "take_bit k S = S" using assms by (simp add: take_bit_nat_eq_self)
    then show "\<not> bit (push_bit k N) n \<or> \<not> bit S n"
      by (metis bit_push_bit_iff bit_take_bit_iff linorder_not_le)
  qed
  then show ?thesis by (simp add: push_bit_nat_def)
qed

lemma unat_push_bit_or_low:
  fixes a s :: u64
  assumes "unat a * 2 ^ k < 2 ^ 64" "unat s < 2 ^ k"
  shows "unat (push_bit k a OR s) = unat a * 2 ^ k + unat s"
proof -
  have "unat (push_bit k a) = unat a * 2 ^ k"
    using assms(1) by (simp add: unsigned_push_bit_eq take_bit_nat_eq_self push_bit_nat_def)
  then have "unat (push_bit k a OR s) = push_bit k (unat a) OR unat s"
    by (simp add: unsigned_or_eq push_bit_nat_def)
  then show ?thesis using assms(2) by (simp add: push_bit_or_low)
qed

end
