(* ===== verification/UniqueID.thy ===== *)
theory UniqueID
  imports Prelude
begin

text \<open>
  The package \<open>uniqueid\<close>: IDs, their hexadecimal form (\<open>uniqueid.go\<close>) and the
  encrypted Snowflake generator (\<open>generator.go\<close>). The block cipher (XTEA), the host
  name and the clock are not part of the repository; they are arguments.
\<close>

unbundle bit_operations_syntax

section \<open>IDs and their text form\<close>

type_synonym ID = u64

text \<open>
  Go returns the value and the error together, and \<open>ParseIDSafe\<close> uses the value of a
  failed parse, so a parse is a pair.
\<close>

definition ParseID :: "string \<Rightarrow> ID \<times> num_error option" where
  "ParseID s = (case ParseUint 16 s of (v, err) \<Rightarrow> (word_of_nat v, err))"

definition ParseIDOptional :: "string \<Rightarrow> ID \<times> num_error option" where
  "ParseIDOptional s = (if s = [] then (0, None) else ParseID s)"

definition ParseIDSafe :: "string \<Rightarrow> ID" where
  "ParseIDSafe s = (case ParseUint 16 s of (v, _) \<Rightarrow> word_of_nat v)"

definition ID_String :: "ID \<Rightarrow> string" where
  "ID_String h = pad_left 16 (CHR ''0'') (FormatUint 16 (unat h))"

definition ID_StringOrEmpty :: "ID \<Rightarrow> string" where
  "ID_StringOrEmpty h = (if h = 0 then [] else ID_String h)"

definition ID_Uint64 :: "ID \<Rightarrow> u64" where
  "ID_Uint64 h = h"

section \<open>The generator\<close>

definition epoch :: int where
  "epoch = 1577836800000"

definition nodeBits :: nat where "nodeBits = 12"
definition instanceIndexBits :: nat where "instanceIndexBits = 6"
definition stepBits :: nat where "stepBits = 10"

definition maxReservedId :: u64 where
  "maxReservedId = 0xffffffff"

type_synonym block_cipher = "byte list \<Rightarrow> byte list"

record generator =
  lastTime :: u64
  nodeID :: u64
  gstep :: u64
  block :: block_cipher
  stepMax :: u64
  timeShift :: nat
  nodeShift :: nat

datatype 'e gen_error =
    InvalidNodeId
  | NewXteaCipherError 'e
  | ServiceIdOverflow
  | GetHostnameError 'e
  | InvalidHostname
  | ParseInstanceIndexError num_error
  | InstanceIndexOverflow

text \<open>\<open>new_cipher\<close> is \<open>xtea.NewCipher\<close>.\<close>

definition NewGenerator ::
  "(byte list \<Rightarrow> 'e + block_cipher) \<Rightarrow> byte list \<Rightarrow> int \<Rightarrow> 'e gen_error + generator" where
  "NewGenerator new_cipher key node =
     (let nodeMax = (-1) XOR push_bit nodeBits (-1) :: int in
      if node < 0 \<or> nodeMax < node then Inl InvalidNodeId
      else case new_cipher key of
        Inl e \<Rightarrow> Inl (NewXteaCipherError e)
      | Inr c \<Rightarrow> Inr
          \<lparr>lastTime = 0, nodeID = word_of_int node, gstep = 0, block = c,
           stepMax = (-1) XOR push_bit stepBits (-1),
           timeShift = nodeBits + stepBits, nodeShift = stepBits\<rparr>)"

text \<open>\<open>hostname\<close> is the result of \<open>os.Hostname\<close>.\<close>

definition NewGeneratorFromHostName ::
  "(byte list \<Rightarrow> 'e + block_cipher) \<Rightarrow> 'e + string \<Rightarrow> byte list \<Rightarrow> int \<Rightarrow> bool
     \<Rightarrow> 'e gen_error + generator" where
  "NewGeneratorFromHostName new_cipher hostname key serviceID debug =
     (let serviceIDMax = (-1) XOR push_bit (nodeBits - instanceIndexBits) (-1) :: int;
          build = (\<lambda>instanceIndex. NewGenerator new_cipher key
                     (push_bit instanceIndexBits serviceID OR instanceIndex))
      in
      if serviceID < 0 \<or> serviceIDMax < serviceID then Inl ServiceIdOverflow
      else if debug then build 0
      else case hostname of
        Inl e \<Rightarrow> Inl (GetHostnameError e)
      | Inr hostName \<Rightarrow>
          (let name = (case LastIndex hostName (CHR ''-'') of
                         Some lastIndex \<Rightarrow>
                           if 0 < lastIndex then drop (lastIndex + 1) hostName else hostName
                       | None \<Rightarrow> hostName)
           in if name = [] then Inl InvalidHostname
              else case ParseInt name of
                (_, Some e) \<Rightarrow> Inl (ParseInstanceIndexError e)
              | (instanceIndex, None) \<Rightarrow>
                  (let instanceIndexMax = (-1) XOR push_bit instanceIndexBits (-1) :: int in
                   if instanceIndex < 0 \<or> instanceIndexMax < instanceIndex
                   then Inl InstanceIndexOverflow
                   else build instanceIndex)))"

text \<open>
  One reading of the clock (\<open>time.Now().UnixMilli()\<close>) gives one plain ID. The
  subtraction of the epoch is on \<open>uint64\<close>.
\<close>

definition plain_id :: "generator \<Rightarrow> u64" where
  "plain_id g =
     push_bit (timeShift g) (lastTime g) OR push_bit (nodeShift g) (nodeID g) OR gstep g"

definition snowflakeID :: "int \<Rightarrow> generator \<Rightarrow> u64 \<times> generator" where
  "snowflakeID unixMilli g =
     (let now = word_of_int unixMilli - word_of_int epoch;
          g' = (if now \<le> lastTime g
                then let s = gstep g + 1 in
                     if stepMax g < s
                     then g\<lparr>lastTime := lastTime g + 1, gstep := 0\<rparr>
                     else g\<lparr>gstep := s\<rparr>
                else g\<lparr>lastTime := now, gstep := 0\<rparr>)
      in (plain_id g', g'))"

definition PutUint64 :: "u64 \<Rightarrow> byte list" where
  "PutUint64 v = map (\<lambda>i. ucast (drop_bit (8 * i) v)) [7, 6, 5, 4, 3, 2, 1, 0]"

definition Uint64 :: "byte list \<Rightarrow> u64" where
  "Uint64 bs = foldl (\<lambda>acc b. push_bit 8 acc OR ucast b) 0 bs"

definition encryptID :: "generator \<Rightarrow> u64 \<Rightarrow> u64" where
  "encryptID g plainID = Uint64 (block g (PutUint64 plainID))"

text \<open>
  \<open>NewID\<close>: draw until the encrypted ID is not reserved. \<open>clk\<close> is the clock, its
  argument counting the readings; \<open>None\<close> would be a call that never returns.
\<close>

partial_function (option) NewID ::
  "(nat \<Rightarrow> int) \<Rightarrow> nat \<Rightarrow> generator \<Rightarrow> (ID \<times> generator \<times> nat) option" where
  "NewID clk i g =
     (case snowflakeID (clk i) g of (plainID, g') \<Rightarrow>
        if maxReservedId < encryptID g' plainID
        then Some (encryptID g' plainID, g', Suc i)
        else NewID clk (Suc i) g')"

text \<open>\<open>n\<close> calls of \<open>NewID\<close> in a row.\<close>

fun NewIDs ::
  "(nat \<Rightarrow> int) \<Rightarrow> nat \<Rightarrow> nat \<Rightarrow> generator \<Rightarrow> (ID list \<times> generator \<times> nat) option" where
  "NewIDs clk 0 i g = Some ([], g, i)"
| "NewIDs clk (Suc n) i g =
     (case NewID clk i g of
        None \<Rightarrow> None
      | Some (x, g', j) \<Rightarrow>
          (case NewIDs clk n j g' of
             None \<Rightarrow> None
           | Some (xs, g'', k) \<Rightarrow> Some (x # xs, g'', k)))"

definition gen_wf :: "generator \<Rightarrow> bool" where
  "gen_wf g \<longleftrightarrow> stepMax g = 1023 \<and> timeShift g = 22 \<and> nodeShift g = 10
     \<and> unat (nodeID g) < 4096 \<and> unat (gstep g) \<le> 1023"

definition ticks :: "generator \<Rightarrow> nat" where
  "ticks g = unat (lastTime g) * 1024 + unat (gstep g)"

definition rank :: "generator \<Rightarrow> nat" where
  "rank g = unat (lastTime g) * 2 ^ 22 + unat (nodeID g) * 2 ^ 10 + unat (gstep g)"

definition gen_ready :: "nat \<Rightarrow> generator \<Rightarrow> bool" where
  "gen_ready k g \<longleftrightarrow> gen_wf g \<and> ticks g + k < 2 ^ 52 \<and> k \<le> 2 ^ 51"

definition clock_legal :: "int \<Rightarrow> bool" where
  "clock_legal t \<longleftrightarrow> epoch \<le> t \<and> t < epoch + 2 ^ 41"

lemma unat_plain_id:
  assumes "gen_wf g" "unat (lastTime g) < 2 ^ 42"
  shows "unat (plain_id g) = rank g"
proof -
  let ?T = "unat (lastTime g)" and ?N = "unat (nodeID g)" and ?S = "unat (gstep g)"
  have wf: "timeShift g = 22" "nodeShift g = 10" "?N < 4096" "?S < 1024"
    using assms(1) by (auto simp: gen_wf_def)
  have low: "unat (push_bit 10 (nodeID g) OR gstep g) = ?N * 2 ^ 10 + ?S"
    by (rule unat_push_bit_or_low) (use wf in auto)
  have "unat (push_bit 22 (lastTime g) OR (push_bit 10 (nodeID g) OR gstep g))
      = ?T * 2 ^ 22 + unat (push_bit 10 (nodeID g) OR gstep g)"
    by (rule unat_push_bit_or_low) (use wf low assms(2) in auto)
  with wf low show ?thesis
    by (simp add: plain_id_def rank_def or.assoc)
qed

lemma unat_clock:
  assumes "clock_legal t"
  shows "unat (word_of_int t - word_of_int epoch :: u64) = nat (t - epoch)"
    and "nat (t - epoch) < 2 ^ 41"
proof -
  have r: "0 \<le> t - epoch" "t - epoch < 2 ^ 41" using assms by (auto simp: clock_legal_def)
  have eq: "word_of_int t - word_of_int epoch = (word_of_int (t - epoch) :: u64)" by simp
  from r have "uint (word_of_int (t - epoch) :: u64) = t - epoch"
    by (subst uint_word_of_int) (simp add: take_bit_int_eq_self)
  then show "unat (word_of_int t - word_of_int epoch :: u64) = nat (t - epoch)"
    by (simp only: eq unat_eq_nat_uint)
  show "nat (t - epoch) < 2 ^ 41" using r by (simp add: nat_less_iff)
qed

lemma snowflakeID_step:
  assumes "gen_ready (Suc k) g" "clock_legal t" "snowflakeID t g = (p, g')"
  shows "gen_ready k g' \<and> ticks g < ticks g' \<and> nodeID g' = nodeID g \<and> block g' = block g
    \<and> p = plain_id g' \<and> unat (lastTime g) \<le> unat (lastTime g')"
proof -
  let ?now = "word_of_int t - word_of_int epoch :: u64"
  have wf: "gen_wf g" "ticks g + Suc k < 2 ^ 52" "Suc k \<le> 2 ^ 51"
    using assms(1) by (auto simp: gen_ready_def)
  have now: "unat ?now < 2 ^ 41" using unat_clock [OF assms(2)] by simp
  have T: "unat (lastTime g) < 2 ^ 42" using wf(2) by (simp add: ticks_def)
  then have T1: "unat (lastTime g + 1) = unat (lastTime g) + 1"
    by (simp add: unat_word_ariths)
  have S: "unat (gstep g) \<le> 1023" using wf(1) by (simp add: gen_wf_def)
  then have S1: "unat (gstep g + 1) = unat (gstep g) + 1"
    by (simp add: unat_word_ariths)
  show ?thesis
  proof (cases "?now \<le> lastTime g")
    case True
    then show ?thesis
      using assms(3) wf S S1 T1
      by (auto simp: snowflakeID_def Let_def gen_ready_def gen_wf_def ticks_def
          word_less_nat_alt split: if_splits)
  next
    case False
    then have "unat (lastTime g) < unat ?now" by (simp add: word_less_nat_alt not_le)
    with False show ?thesis
      using assms(3) wf S now
      by (auto simp: snowflakeID_def Let_def gen_ready_def gen_wf_def ticks_def)
  qed
qed

lemma rank_less:
  assumes "gen_wf g" "gen_wf g'" "nodeID g' = nodeID g" "ticks g < ticks g'"
    and "unat (lastTime g) \<le> unat (lastTime g')"
  shows "rank g < rank g'"
proof (cases "unat (lastTime g) = unat (lastTime g')")
  case True
  with assms show ?thesis by (simp add: rank_def ticks_def)
next
  case False
  with assms(5) have "unat (lastTime g) + 1 \<le> unat (lastTime g')" by simp
  then show ?thesis using assms(1,2) by (auto simp: rank_def gen_wf_def)
qed

section \<open>The interface between \<open>NewID\<close> and its source of plain IDs\<close>

text \<open>
  A source draws plain IDs at clock readings. What its client relies on: as long as the
  source is ready for another draw, every draw has a larger rank than all before it, the
  rank is the plain ID itself, and the tag (the node) never changes.
\<close>

definition reserved_above :: "(u64 \<Rightarrow> u64) \<Rightarrow> u64 \<Rightarrow> nat \<Rightarrow> u64 set" where
  "reserved_above e b r = {p. r < unat p \<and> e p \<le> b}"

lemma finite_reserved_above [simp]: "finite (reserved_above e b r)"
  by simp

lemma card_reserved_above_le:
  assumes "inj e"
  shows "card (reserved_above e b r) \<le> Suc (unat b)"
proof -
  have "card (reserved_above e b r) = card (e ` reserved_above e b r)"
    by (rule card_image [symmetric]) (rule inj_on_subset [OF assms subset_UNIV])
  also have "\<dots> = card (unat ` e ` reserved_above e b r)"
    by (rule card_image [symmetric]) (auto intro: inj_onI simp: word_unat_eq_iff)
  also have "\<dots> \<le> card {..unat b}"
    by (rule card_mono) (auto simp: reserved_above_def word_le_nat_alt)
  finally show ?thesis by simp
qed

lemma reserved_above_mono: "r \<le> r' \<Longrightarrow>
    card (reserved_above e b r') \<le> card (reserved_above e b r)"
  by (rule card_mono) (auto simp: reserved_above_def)

lemma reserved_above_step:
  assumes "r < unat p" "e p \<le> b"
  shows "Suc (card (reserved_above e b (unat p))) \<le> card (reserved_above e b r)"
proof -
  have "reserved_above e b (unat p) \<subset> reserved_above e b r"
    using assms by (auto simp: reserved_above_def)
  then show ?thesis by (simp add: psubset_card_mono Suc_le_eq)
qed

locale plain_id_source =
  fixes draw :: "int \<Rightarrow> 's \<Rightarrow> u64 \<times> 's"
    and srank :: "'s \<Rightarrow> nat"
    and ready :: "nat \<Rightarrow> 's \<Rightarrow> bool"
    and legal :: "int \<Rightarrow> bool"
    and tag :: "u64 \<Rightarrow> nat"
    and stag :: "'s \<Rightarrow> nat"
    and encr :: "'s \<Rightarrow> u64 \<Rightarrow> u64"
  assumes draw_ready: "ready (Suc k) s \<Longrightarrow> legal t \<Longrightarrow> draw t s = (p, s') \<Longrightarrow> ready k s'"
    and ready_mono: "ready k s \<Longrightarrow> j \<le> k \<Longrightarrow> ready j s"
    and draw_rank: "ready (Suc k) s \<Longrightarrow> legal t \<Longrightarrow> draw t s = (p, s') \<Longrightarrow>
          srank s < srank s' \<and> unat p = srank s'"
    and draw_tag: "ready (Suc k) s \<Longrightarrow> legal t \<Longrightarrow> draw t s = (p, s') \<Longrightarrow>
          tag p = stag s \<and> stag s' = stag s"
    and draw_encr: "draw t s = (p, s') \<Longrightarrow> encr s' = encr s"

text \<open>The client: it mints an encrypted ID by drawing until the result is above a bound.\<close>

locale id_mint = plain_id_source +
  fixes bound :: u64
    and mint :: "(nat \<Rightarrow> int) \<Rightarrow> nat \<Rightarrow> 'a \<Rightarrow> (u64 \<times> 'a \<times> nat) option"
    and mints :: "(nat \<Rightarrow> int) \<Rightarrow> nat \<Rightarrow> nat \<Rightarrow> 'a \<Rightarrow> (u64 list \<times> 'a \<times> nat) option"
  assumes mint_unfold: "mint clk i s =
      (case draw (clk i) s of (p, s') \<Rightarrow>
         if bound < encr s' p then Some (encr s' p, s', Suc i) else mint clk (Suc i) s')"
    and mints_0: "mints clk 0 i s = Some ([], s, i)"
    and mints_Suc: "mints clk (Suc n) i s =
      (case mint clk i s of None \<Rightarrow> None
       | Some (x, s', j) \<Rightarrow>
           (case mints clk n j s' of None \<Rightarrow> None
            | Some (xs, s'', k) \<Rightarrow> Some (x # xs, s'', k)))"
begin

text \<open>
  Each rejected draw uses up one of the finitely many plain IDs above the current rank
  whose encryption is reserved; that number bounds the loop.
\<close>

lemma mint_returns:
  assumes "ready (card (reserved_above (encr s) bound (srank s)) + Suc m) s"
    and "\<forall>i. legal (clk i)"
  shows "\<exists>p s' j. mint clk i s = Some (encr s p, s', j) \<and> bound < encr s p
    \<and> srank s < unat p \<and> unat p = srank s' \<and> tag p = stag s
    \<and> stag s' = stag s \<and> encr s' = encr s
    \<and> ready (card (reserved_above (encr s) bound (srank s')) + m) s'"
  using assms(1)
proof (induction "card (reserved_above (encr s) bound (srank s))" arbitrary: s i rule: less_induct)
  case less
  have lg: "legal (clk i)" using assms(2) by blast
  let ?c = "\<lambda>r. card (reserved_above (encr s) bound r)"
  obtain p s' where d: "draw (clk i) s = (p, s')" by (cases "draw (clk i) s")
  have rd: "ready (Suc (?c (srank s) + m)) s" using less.prems by simp
  note facts = draw_rank [OF rd lg d] draw_tag [OF rd lg d] draw_encr [OF d]
    draw_ready [OF rd lg d]
  show ?case
  proof (cases "bound < encr s p")
    case True
    have "?c (srank s') + m \<le> ?c (srank s) + m"
      using facts by (simp add: reserved_above_mono)
    then have "ready (?c (srank s') + m) s'" using facts ready_mono by blast
    moreover have "mint clk i s = Some (encr s p, s', Suc i)"
      using d True facts by (subst mint_unfold) simp
    ultimately show ?thesis using facts True by auto
  next
    case False
    then have le: "Suc (?c (srank s')) \<le> ?c (srank s)"
      using facts reserved_above_step [of "srank s" p "encr s" bound] by simp
    have "?c (srank s') + Suc m \<le> ?c (srank s) + m" using le by simp
    then have "ready (?c (srank s') + Suc m) s'" using facts ready_mono by blast
    with le facts less.hyps [of s' "Suc i"] obtain q t j where
      q: "mint clk (Suc i) s' = Some (encr s q, t, j)" "bound < encr s q" "srank s' < unat q"
        "unat q = srank t" "tag q = stag s" "stag t = stag s" "encr t = encr s"
        "ready (?c (srank t) + m) t"
      by auto
    have "mint clk i s = mint clk (Suc i) s'"
      using d False facts by (subst mint_unfold) simp
    with q facts show ?thesis
      by (intro exI [of _ q] exI [of _ t] exI [of _ j]) auto
  qed
qed

lemma mints_returns:
  assumes "ready (card (reserved_above (encr s) bound (srank s)) + n) s"
    and "\<forall>i. legal (clk i)"
  shows "\<exists>ps s' j. mints clk n i s = Some (map (encr s) ps, s', j) \<and> length ps = n
    \<and> sorted_wrt (\<lambda>p q. unat p < unat q) ps
    \<and> (\<forall>p \<in> set ps. srank s < unat p \<and> bound < encr s p \<and> tag p = stag s)"
  using assms(1)
proof (induction n arbitrary: s i)
  case 0
  then show ?case by (simp add: mints_0)
next
  case (Suc n)
  from mint_returns [OF Suc.prems assms(2), where i = i] obtain p s' j where
    p: "mint clk i s = Some (encr s p, s', j)" "bound < encr s p" "srank s < unat p"
      "unat p = srank s'" "tag p = stag s" "stag s' = stag s" "encr s' = encr s"
      "ready (card (reserved_above (encr s') bound (srank s')) + n) s'" by auto
  from Suc.IH [OF p(8), where i = j] obtain ps t k where
    ps: "mints clk n j s' = Some (map (encr s) ps, t, k)" "length ps = n"
      "sorted_wrt (\<lambda>p q. unat p < unat q) ps"
      "\<forall>q \<in> set ps. srank s' < unat q \<and> bound < encr s q \<and> tag q = stag s"
    using p(6,7) by auto
  then show ?case
    using p by (intro exI [of _ "p # ps"] exI [of _ t] exI [of _ k]) (auto simp: mints_Suc)
qed

text \<open>With an injective encryption the minted IDs are all different.\<close>

lemma mints_distinct:
  assumes "ready (Suc (unat bound) + n) s" "\<forall>i. legal (clk i)" "inj (encr s)"
  shows "\<exists>ps s' j. mints clk n i s = Some (map (encr s) ps, s', j) \<and> length ps = n
    \<and> distinct (map (encr s) ps) \<and> (\<forall>p \<in> set ps. bound < encr s p \<and> tag p = stag s)"
proof -
  have "ready (card (reserved_above (encr s) bound (srank s)) + n) s"
    by (rule ready_mono [OF assms(1)]) (use card_reserved_above_le [OF assms(3)] in simp)
  from mints_returns [OF this assms(2), where i = i] obtain ps s' j where
    ps: "mints clk n i s = Some (map (encr s) ps, s', j)" "length ps = n"
      "sorted_wrt (\<lambda>p q. unat p < unat q) ps"
      "\<forall>p \<in> set ps. srank s < unat p \<and> bound < encr s p \<and> tag p = stag s" by blast
  have "distinct ps"
    using ps(3) by (induction ps) auto
  then have "distinct (map (encr s) ps)"
    by (simp add: distinct_map inj_on_subset [OF assms(3) subset_UNIV])
  with ps show ?thesis by blast
qed

end

section \<open>The generator provides the interface\<close>

definition id_tag :: "u64 \<Rightarrow> nat" where
  "id_tag p = (unat p div 2 ^ 10) mod 2 ^ 12"

definition gen_tag :: "generator \<Rightarrow> nat" where
  "gen_tag g = unat (nodeID g)"

lemma id_tag_rank:
  assumes "gen_wf g" "unat p = rank g"
  shows "id_tag p = gen_tag g"
proof -
  let ?high = "unat (lastTime g) * 2 ^ 12 + unat (nodeID g)"
  have "unat p = unat (gstep g) + 2 ^ 10 * ?high"
    using assms(2) by (simp add: rank_def algebra_simps)
  moreover have "unat (gstep g) < 2 ^ 10" "unat (nodeID g) < 2 ^ 12"
    using assms(1) by (auto simp: gen_wf_def)
  ultimately have "unat p div 2 ^ 10 = ?high" by (simp only: div_mult_self2 div_less)
  then show ?thesis using \<open>unat (nodeID g) < 2 ^ 12\<close> by (simp add: id_tag_def gen_tag_def)
qed

lemma snowflakeID_draw:
  assumes "gen_ready (Suc k) g" "clock_legal t" "snowflakeID t g = (p, g')"
  shows "gen_ready k g'" "rank g < rank g'" "unat p = rank g'" "id_tag p = gen_tag g"
    "gen_tag g' = gen_tag g"
proof -
  note st = snowflakeID_step [OF assms]
  have wf: "gen_wf g" "gen_wf g'" using st assms(1) by (auto simp: gen_ready_def)
  show "gen_ready k g'" using st by blast
  show "rank g < rank g'" using st wf by (intro rank_less) auto
  have "unat (lastTime g') < 2 ^ 42" using st by (auto simp: gen_ready_def ticks_def)
  then show u: "unat p = rank g'" using st wf unat_plain_id by simp
  show "gen_tag g' = gen_tag g" using st by (simp add: gen_tag_def)
  then show "id_tag p = gen_tag g" using id_tag_rank [OF wf(2) u] by simp
qed

lemma snowflakeID_block: "snowflakeID t g = (p, g') \<Longrightarrow> block g' = block g"
  by (auto simp: snowflakeID_def Let_def split: if_splits)

interpretation snow: id_mint snowflakeID rank gen_ready clock_legal id_tag gen_tag encryptID
  maxReservedId NewID NewIDs
proof unfold_locales
  fix k s t p s'
  assume a: "gen_ready (Suc k) s" "clock_legal t" "snowflakeID t s = (p, s')"
  show "gen_ready k s'" by (rule snowflakeID_draw [OF a])
  show "rank s < rank s' \<and> unat p = rank s'" using snowflakeID_draw [OF a] by simp
  show "id_tag p = gen_tag s \<and> gen_tag s' = gen_tag s" using snowflakeID_draw [OF a] by simp
next
  fix k s j
  assume "gen_ready k s" "j \<le> k"
  then show "gen_ready j s" by (auto simp: gen_ready_def)
next
  fix t s p s'
  assume "snowflakeID t s = (p, s')"
  then show "encryptID s' = encryptID s"
    using snowflakeID_block by (auto simp: encryptID_def fun_eq_iff)
next
  fix clk i s
  show "NewID clk i s = (case snowflakeID (clk i) s of (p, s') \<Rightarrow>
      if maxReservedId < encryptID s' p then Some (encryptID s' p, s', Suc i)
      else NewID clk (Suc i) s')"
    by (rule NewID.simps)
qed simp_all

section \<open>The block cipher\<close>

text \<open>
  What the generator needs of \<open>cipher.Block\<close>: it maps 8-byte blocks to 8-byte blocks
  and can be decrypted, so it is injective on them.
\<close>

definition cipher_ok :: "block_cipher \<Rightarrow> bool" where
  "cipher_ok c \<longleftrightarrow> (\<forall>b. length b = 8 \<longrightarrow> length (c b) = 8) \<and> inj_on c {b. length b = 8}"

lemma unat_byte_less: "unat (b :: byte) < 256"
  using unsigned_less [of b, where ?'a = nat] by simp

lemma unat_Uint64:
  assumes "length bs \<le> 8"
  shows "unat (Uint64 bs) = radix_value 256 (map unat bs)"
proof -
  have "unat (Uint64 bs) = radix_value 256 (map unat bs) \<and> unat (Uint64 bs) < 256 ^ length bs"
    using assms
  proof (induction bs rule: rev_induct)
    case Nil
    then show ?case by (simp add: Uint64_def)
  next
    case (snoc b bs)
    then have IH: "unat (Uint64 bs) = radix_value 256 (map unat bs)"
      "unat (Uint64 bs) < 256 ^ length bs" by auto
    have "(256 :: nat) ^ length bs \<le> 256 ^ 7" using snoc.prems by (intro power_increasing) auto
    with IH(2) have small: "unat (Uint64 bs) * 2 ^ 8 < 2 ^ 64" by simp
    have "unat b < 2 ^ 64" by (rule less_trans [OF unat_byte_less]) simp
    then have b: "unat (ucast b :: u64) = unat b" "unat (ucast b :: u64) < 2 ^ 8"
      using unat_byte_less [of b] by (simp_all add: unsigned_ucast_eq take_bit_nat_eq_self)
    have "Uint64 (bs @ [b]) = push_bit 8 (Uint64 bs) OR ucast b" by (simp add: Uint64_def)
    then have "unat (Uint64 (bs @ [b])) = unat (Uint64 bs) * 2 ^ 8 + unat b"
      using unat_push_bit_or_low [OF small, of "ucast b"] b by simp
    with IH b unat_byte_less [of b] show ?case by simp
  qed
  then show ?thesis by blast
qed

lemma inj_on_Uint64: "inj_on Uint64 {b. length b = 8}"
proof (rule inj_onI, simp)
  fix x y :: "byte list"
  assume a: "length x = 8" "length y = 8" "Uint64 x = Uint64 y"
  have "map unat x = map unat y"
  proof (rule radix_value_inj [where base = 256])
    show "radix_value 256 (map unat x) = radix_value 256 (map unat y)"
      using a unat_Uint64 [of x] unat_Uint64 [of y] by simp
  qed (use a unat_byte_less in auto)
  then show "x = y" by (simp add: inj_map_eq_map [OF injI] word_unat_eq_iff)
qed

lemma unat_byte: "unat (ucast (drop_bit k v :: u64) :: byte) = (unat v div 2 ^ k) mod 256"
proof -
  have "unat v mod 2 ^ 64 = unat v"
    using unsigned_less [of v, where ?'a = nat] by simp
  then show ?thesis
    by (simp add: unsigned_ucast_eq unsigned_drop_bit_eq drop_bit_nat_def take_bit_nat_def)
qed

lemma Uint64_PutUint64: "Uint64 (PutUint64 v) = v"
proof -
  let ?V = "unat v"
  have "[7, 6, 5, 4, 3, 2, 1, 0] = rev [0..<8 :: nat]" by (simp add: upt_rec)
  then have bytes: "map unat (PutUint64 v) = map (\<lambda>i. ?V div 256 ^ i mod 256) (rev [0..<8])"
    by (simp add: PutUint64_def unat_byte power_mult)
  have "unat (Uint64 (PutUint64 v)) = radix_value 256 (map unat (PutUint64 v))"
    by (rule unat_Uint64) (simp add: PutUint64_def)
  also have "\<dots> = ?V"
    unfolding bytes radix_value_positional
    using unsigned_less [of v, where ?'a = nat] by simp
  finally show ?thesis by (simp add: word_unat_eq_iff)
qed

lemma inj_encryptID:
  assumes "cipher_ok (block g)"
  shows "inj (encryptID g)"
proof (rule injI)
  fix x y
  assume "encryptID g x = encryptID g y"
  then have "Uint64 (block g (PutUint64 x)) = Uint64 (block g (PutUint64 y))"
    by (simp add: encryptID_def)
  moreover have len: "length (PutUint64 v) = 8" for v by (simp add: PutUint64_def)
  ultimately have "block g (PutUint64 x) = block g (PutUint64 y)"
    using assms by (intro inj_onD [OF inj_on_Uint64]) (auto simp: cipher_ok_def)
  then have "PutUint64 x = PutUint64 y"
    using assms len by (auto simp: cipher_ok_def dest: inj_onD)
  then show "x = y" by (metis Uint64_PutUint64)
qed

section \<open>Constructors\<close>

lemma id_masks [simp]:
  "mask nodeBits = (4095 :: int)"
  "mask (nodeBits - instanceIndexBits) = (63 :: int)"
  "mask instanceIndexBits = (63 :: int)"
  "mask stepBits = (1023 :: u64)"
  by (simp_all add: nodeBits_def instanceIndexBits_def stepBits_def mask_eq_exp_minus_1)

lemma NewGenerator_Inr:
  assumes "NewGenerator nc key node = Inr g"
  shows "gen_wf g" "ticks g = 0" "gen_tag g = nat node" "nc key = Inr (block g)"
    "0 \<le> node" "node \<le> 4095"
proof -
  from assms have n: "0 \<le> node" "node \<le> 4095"
    by (auto simp: NewGenerator_def Let_def split: if_splits sum.splits)
  then have "unat (word_of_int node :: u64) = nat node"
    by (simp add: unat_eq_nat_uint uint_word_of_int take_bit_int_eq_self)
  with assms n show "gen_wf g" "ticks g = 0" "gen_tag g = nat node" "nc key = Inr (block g)"
    "0 \<le> node" "node \<le> 4095"
    by (auto simp: NewGenerator_def Let_def gen_wf_def ticks_def gen_tag_def nodeBits_def
        stepBits_def nat_less_iff mask_eq_exp_minus_1 split: if_splits sum.splits)
qed

lemma NewGenerator_ready:
  assumes "NewGenerator nc key node = Inr g" "n \<le> 2 ^ 50"
  shows "gen_ready (Suc (unat maxReservedId) + n) g"
  using NewGenerator_Inr [OF assms(1)] assms(2)
  by (simp add: gen_ready_def maxReservedId_def)

lemma node_of_service_instance:
  assumes "0 \<le> svc" "0 \<le> k" "k \<le> (63 :: int)"
  shows "push_bit instanceIndexBits svc OR k = svc * 64 + k"
proof -
  have "push_bit 6 (nat svc) OR nat k = nat svc * 2 ^ 6 + nat k"
    by (rule push_bit_or_low) (use assms in simp)
  then have "int (push_bit 6 (nat svc) OR nat k) = int (nat svc * 2 ^ 6 + nat k)" by simp
  then show ?thesis
    using assms by (simp add: instanceIndexBits_def of_nat_or_eq of_nat_push_bit)
qed

lemma NewGeneratorFromHostName_instance:
  assumes "0 \<le> svc" "svc \<le> 63" "k \<le> 63" "base \<noteq> []"
  shows "NewGeneratorFromHostName nc (Inr (base @ ''-'' @ FormatUint 10 k)) key svc False
    = NewGenerator nc key (svc * 64 + int k)"
proof -
  let ?h = "base @ CHR ''-'' # FormatUint 10 k"
  have li: "LastIndex ?h (CHR ''-'') = Some (length base)"
    by (rule LastIndex_append_sep) (simp add: FormatUint_no_sign)
  have p: "ParseInt (FormatUint 10 k) = (int k, None)"
    using ParseInt_FormatInt [of "int k"] assms(3) by (simp add: FormatInt_def in_i64_def)
  show ?thesis
    using assms p li
    by (simp add: NewGeneratorFromHostName_def Let_def node_of_service_instance)
qed

lemma service_instance_inj:
  assumes "k \<le> 63" "k' \<le> 63" "svc * 64 + int k = svc' * 64 + int k'"
  shows "svc = svc'" "k = k'"
proof -
  show "svc = svc'" using assms by linarith
  with assms(3) show "k = k'" by simp
qed

section \<open>Properties\<close>

text \<open>
  C1. Every call of \<open>NewID\<close> returns, whatever the clock does within its range (it may
  stand still or go back), and \<open>n\<close> calls give \<open>n\<close> different IDs, none of them
  reserved. The bound is the worst case, in which all reserved IDs come up on the way.
\<close>

theorem NewIDs_total_distinct:
  assumes "NewGenerator nc key node = Inr g" "cipher_ok (block g)"
    and "\<forall>i. clock_legal (clk i)" "n \<le> 2 ^ 50"
  shows "\<exists>xs g' j. NewIDs clk n i g = Some (xs, g', j) \<and> length xs = n \<and> distinct xs
    \<and> (\<forall>x \<in> set xs. maxReservedId < x)"
proof -
  from snow.mints_distinct [OF NewGenerator_ready [OF assms(1,4)] assms(3)
      inj_encryptID [OF assms(2)], where i = i]
  obtain ps g' j where "NewIDs clk n i g = Some (map (encryptID g) ps, g', j)"
    "length ps = n" "distinct (map (encryptID g) ps)"
    "\<forall>p \<in> set ps. maxReservedId < encryptID g p" by blast
  then show ?thesis by auto
qed

theorem NewIDs_total_distinct_witness:
  "\<exists>xs g' j. NewIDs (\<lambda>i. epoch + 5) 3 0
      (projr (NewGenerator (\<lambda>_. Inr rev :: unit + _) [] 7)) = Some (xs, g', j)
    \<and> length xs = 3 \<and> distinct xs \<and> (\<forall>x \<in> set xs. maxReservedId < x)"
proof (rule NewIDs_total_distinct)
  show "NewGenerator (\<lambda>_. Inr rev :: unit + _) [] 7
      = Inr (projr (NewGenerator (\<lambda>_. Inr rev :: unit + _) [] 7))"
    by (simp add: NewGenerator_def)
  show "cipher_ok (block (projr (NewGenerator (\<lambda>_. Inr rev :: unit + _) [] 7)))"
    by (simp add: NewGenerator_def cipher_ok_def inj_on_def)
qed (simp_all add: clock_legal_def)

text \<open>
  C2. Two instances of a deployment never mint the same ID: with one key, and host names
  ending in \<open>-<k>\<close> and \<open>-<k'>\<close>, any IDs they mint are disjoint as soon as the
  service or the instance index differs, whatever their clocks show.
\<close>

theorem deployment_ids_disjoint:
  assumes "base \<noteq> []" "base' \<noteq> []" "k \<le> 63" "k' \<le> 63"
    and "0 \<le> svc" "svc \<le> 63" "0 \<le> svc'" "svc' \<le> 63" "(svc, k) \<noteq> (svc', k')"
    and "NewGeneratorFromHostName nc (Inr (base @ ''-'' @ FormatUint 10 k)) key svc False = Inr g"
    and "NewGeneratorFromHostName nc (Inr (base' @ ''-'' @ FormatUint 10 k')) key svc' False
      = Inr g'"
    and "cipher_ok (block g)" "\<forall>i. clock_legal (clk i)" "\<forall>i. clock_legal (clk' i)"
    and "n \<le> 2 ^ 50" "n' \<le> 2 ^ 50"
  shows "\<exists>xs ys. map_option fst (NewIDs clk n 0 g) = Some xs \<and> length xs = n
    \<and> map_option fst (NewIDs clk' n' 0 g') = Some ys \<and> length ys = n' \<and> set xs \<inter> set ys = {}"
proof -
  have g: "NewGenerator nc key (svc * 64 + int k) = Inr g"
    using assms NewGeneratorFromHostName_instance [of svc k base nc key] by simp
  have g': "NewGenerator nc key (svc' * 64 + int k') = Inr g'"
    using assms NewGeneratorFromHostName_instance [of svc' k' base' nc key] by simp
  have blk: "block g' = block g" "encryptID g' = encryptID g"
    using NewGenerator_Inr(4) [OF g] NewGenerator_Inr(4) [OF g']
    by (auto simp: encryptID_def fun_eq_iff)
  have inj: "inj (encryptID g)" by (rule inj_encryptID [OF assms(12)])
  have "svc * 64 + int k \<noteq> svc' * 64 + int k'"
    using assms(3,4,9) by (metis (no_types, lifting) prod.inject service_instance_inj)
  then have tags: "gen_tag g \<noteq> gen_tag g'"
    using NewGenerator_Inr(3) [OF g] NewGenerator_Inr(3) [OF g'] assms(5,7) by simp
  from snow.mints_distinct [OF NewGenerator_ready [OF g assms(15)] assms(13) inj, where i = 0]
  obtain ps h j where ps: "NewIDs clk n 0 g = Some (map (encryptID g) ps, h, j)"
    "length ps = n" "\<forall>p \<in> set ps. id_tag p = gen_tag g" by blast
  from snow.mints_distinct [OF NewGenerator_ready [OF g' assms(16)] assms(14), where i = 0] inj
  obtain qs h' j' where qs: "NewIDs clk' n' 0 g' = Some (map (encryptID g) qs, h', j')"
    "length qs = n'" "\<forall>q \<in> set qs. id_tag q = gen_tag g'" using blk by auto
  have "encryptID g p \<noteq> encryptID g q" if "p \<in> set ps" "q \<in> set qs" for p q
    using that ps(3) qs(3) tags inj_eq [OF inj] by metis
  with ps qs show ?thesis by auto
qed

theorem deployment_ids_disjoint_witness:
  "\<exists>xs ys. map_option fst (NewIDs (\<lambda>_. epoch) 2 0 (projr (NewGeneratorFromHostName
        (\<lambda>_. Inr rev :: unit + _) (Inr (''app'' @ ''-'' @ FormatUint 10 0)) [] 1 False))) = Some xs
    \<and> length xs = 2
    \<and> map_option fst (NewIDs (\<lambda>_. epoch) 2 0 (projr (NewGeneratorFromHostName
        (\<lambda>_. Inr rev :: unit + _) (Inr (''app'' @ ''-'' @ FormatUint 10 3)) [] 1 False))) = Some ys
    \<and> length ys = 2 \<and> set xs \<inter> set ys = {}"
proof -
  let ?nc = "\<lambda>_. Inr rev :: unit + block_cipher"
  have inst: "NewGeneratorFromHostName ?nc (Inr (''app'' @ ''-'' @ FormatUint 10 k)) [] 1 False
      = Inr (projr (NewGenerator ?nc [] (64 + int k)))" if "k \<le> 63" for k
    using NewGeneratorFromHostName_instance [of 1 k "''app''" ?nc "[]"] that
    by (simp add: NewGenerator_def)
  have "cipher_ok (block (projr (NewGenerator ?nc [] (64 + int 0))))"
    by (simp add: NewGenerator_def cipher_ok_def inj_on_def)
  then show ?thesis
    using inst [of 0] inst [of 3]
    by (intro deployment_ids_disjoint [of "''app''" "''app''" 0 3 1 1 ?nc "[]"])
       (simp_all add: clock_legal_def)
qed

text \<open>
  C20. Plain IDs strictly increase from draw to draw even when the clock goes back: the
  second reading \<open>t'\<close> may be smaller than the first. The node field is kept.
\<close>

theorem snowflakeID_increasing:
  assumes "gen_ready 2 g" "clock_legal t" "clock_legal t'"
    and "snowflakeID t g = (p, g1)" "snowflakeID t' g1 = (q, g2)"
  shows "unat p < unat q \<and> id_tag p = gen_tag g \<and> id_tag q = gen_tag g"
proof -
  have r2: "gen_ready (Suc 1) g" using assms(1) by (simp add: numeral_2_eq_2)
  note d1 = snowflakeID_draw [OF r2 assms(2,4)]
  have r1: "gen_ready (Suc 0) g1" using d1(1) by simp
  show ?thesis using d1 snowflakeID_draw [OF r1 assms(3,5)] by simp
qed

theorem snowflakeID_increasing_witness:
  "\<exists>p g1 q g2. snowflakeID (epoch + 9) (projr (NewGenerator (\<lambda>_. Inr rev :: unit + _) [] 7)) = (p, g1)
    \<and> snowflakeID (epoch + 2) g1 = (q, g2) \<and> unat p < unat q"
proof -
  let ?g = "projr (NewGenerator (\<lambda>_. Inr rev :: unit + block_cipher) [] 7)"
  have r: "gen_ready 2 ?g"
    by (simp add: NewGenerator_def gen_ready_def gen_wf_def ticks_def mask_eq_exp_minus_1
        nodeBits_def stepBits_def)
  obtain p g1 where 1: "snowflakeID (epoch + 9) ?g = (p, g1)" by (cases "snowflakeID (epoch + 9) ?g")
  obtain q g2 where 2: "snowflakeID (epoch + 2) g1 = (q, g2)" by (cases "snowflakeID (epoch + 2) g1")
  have "unat p < unat q"
    using snowflakeID_increasing [OF r _ _ 1 2] by (simp add: clock_legal_def)
  with 1 2 show ?thesis by blast
qed

lemma unat_le_max_u64: "unat (h :: u64) \<le> max_u64"
  using unsigned_less [of h, where ?'a = nat] by (simp add: max_u64_def)

text \<open>C22. Printing and parsing an ID: 16 characters that parse back to the ID without error.\<close>

theorem ParseID_ID_String:
  "ParseID (ID_String h) = (h, None) \<and> length (ID_String h) = 16
    \<and> ParseIDOptional (ID_StringOrEmpty h) = (h, None) \<and> ParseIDSafe (ID_StringOrEmpty h) = h"
proof -
  have len: "length (FormatUint 16 (unat h)) \<le> 16"
    using radix_digits_length [of 16 "unat h" 16] unsigned_less [of h, where ?'a = nat]
    by (simp add: FormatUint_def)
  have s: "ID_String h = replicate (16 - length (FormatUint 16 (unat h))) (CHR ''0'')
      @ FormatUint 16 (unat h)"
    by (simp add: ID_String_def pad_left_def)
  have p: "ParseUint 16 (ID_String h) = (unat h, None)"
    unfolding s by (rule ParseUint_FormatUint_padded) (simp_all add: unat_le_max_u64)
  have ne: "ID_String h \<noteq> []" by (simp add: s)
  have e: "ParseUint 16 [] = (0, Some ErrSyntax)" by (simp add: ParseUint_def)
  from p ne len e show ?thesis
    by (simp add: ParseID_def ParseIDOptional_def ParseIDSafe_def ID_StringOrEmpty_def s)
qed

text \<open>
  \<open>ParseID\<close> in closed form. With \<open>t\<close> the longest prefix of hexadecimal digits:
  a value of \<open>t\<close> past 64 bits saturates with a range error, whatever follows; otherwise
  an empty string or a byte that is no digit is a syntax error with value zero; otherwise the
  result is the value, in either case of the letters and with any number of leading zeros.
\<close>

theorem ParseID_closed_form:
  "ParseID s =
    (let t = takeWhile (is_digit 16) s; v = radix_value 16 (digits_of t)
     in if 2 ^ 64 \<le> v then (0xffffffffffffffff, Some ErrRange)
        else if s \<noteq> [] \<and> t = s then (word_of_nat v, None)
        else (0, Some ErrSyntax))"
proof -
  let ?v = "radix_value 16 (digits_of (takeWhile (is_digit 16) s))"
  have "max_u64 < ?v \<longleftrightarrow> 2 ^ 64 \<le> ?v" by (auto simp: max_u64_def)
  moreover have "word_of_nat max_u64 = (0xffffffffffffffff :: u64)" by (simp add: max_u64_def)
  ultimately show ?thesis
    by (auto simp: ParseID_def ParseUint_spec Let_def)
qed

text \<open>
  \<open>ParseIDSafe\<close> does not coerce every malformed input to the zero ID: a string of
  hexadecimal digits whose value does not fit in 64 bits gives the largest ID (\<open>strconv\<close>
  saturates), while any string with a byte that is no digit, before the value overflows,
  gives zero.
\<close>

theorem ParseIDSafe_overflow_saturates:
  assumes "list_all (is_digit 16) s" "2 ^ 64 \<le> radix_value 16 (digits_of s)"
  shows "ParseIDSafe s = 0xffffffffffffffff \<and> ParseIDOptional s = (0xffffffffffffffff, Some ErrRange)"
proof -
  have ne: "s \<noteq> []" using assms(2) by (auto simp: digits_of_def)
  have "\<not> radix_value 16 (digits_of s) \<le> max_u64" using assms(2) by (simp add: max_u64_def)
  then have "ParseUint 16 s = (max_u64, Some ErrRange)"
    using ParseUint_eq [of 16 s] assms(1) ne by simp
  then show ?thesis using ne
    by (simp add: ParseIDSafe_def ParseIDOptional_def ParseID_def max_u64_def)
qed

theorem ParseIDSafe_overflow_saturates_witness:
  "ParseIDSafe ''10000000000000000'' = 0xffffffffffffffff"
proof -
  have "list_all (is_digit 16) ''10000000000000000''" by code_simp
  moreover have "2 ^ 64 \<le> radix_value 16 (digits_of ''10000000000000000'')"
    by (simp add: digits_of_def radix_value_def char_digit_def)
  ultimately show ?thesis using ParseIDSafe_overflow_saturates by blast
qed

end
