(* ===== verification/IdleList.thy ===== *)
theory IdleList
  imports Prelude
begin

text \<open>
  The idle list of the connection pool (\<open>src/pool/pool.go\<close>, \<open>idleList\<close> and
  \<open>poolConn\<close>): a doubly linked list through the \<open>next\<close> and \<open>prev\<close>
  pointers of the connections, over a heap of connection records, and the proof that its three
  operations implement a double-ended queue.
\<close>

section \<open>Connections and the list header\<close>

type_synonym addr = nat
type_synonym closer = nat
type_synonym time = int

record poolConn =
  conn :: closer
  returned :: time
  created :: time
  nxt :: "addr option"
  prv :: "addr option"

type_synonym conn_heap = "addr \<Rightarrow> poolConn"

record idleList =
  lcount :: int
  front :: "addr option"
  rear :: "addr option"

section \<open>Operations\<close>

text \<open>
  The field writes happen in the order of the source. A write through a nil pointer is the
  panic of the Go runtime.
\<close>

definition pushFront :: "addr \<Rightarrow> conn_heap \<times> idleList \<Rightarrow> (conn_heap \<times> idleList) exec" where
  "pushFront pc = (\<lambda>(h, l).
     let h1 = h(pc := (h pc)\<lparr>nxt := front l, prv := None\<rparr>) in
     if lcount l = 0
     then Return (h1, l\<lparr>rear := Some pc, front := Some pc, lcount := lcount l + 1\<rparr>)
     else case front l of
       None \<Rightarrow> Panic NilDereference
     | Some f \<Rightarrow> Return (h1(f := (h1 f)\<lparr>prv := Some pc\<rparr>),
                       l\<lparr>front := Some pc, lcount := lcount l + 1\<rparr>))"

definition popFront :: "conn_heap \<times> idleList \<Rightarrow> (conn_heap \<times> idleList) exec" where
  "popFront = (\<lambda>(h, l).
     case front l of
       None \<Rightarrow> Panic NilDereference
     | Some pc \<Rightarrow>
         let l1 = l\<lparr>lcount := lcount l - 1\<rparr> in
         if lcount l1 = 0
         then Return (h(pc := (h pc)\<lparr>nxt := None, prv := None\<rparr>), l1\<lparr>front := None, rear := None\<rparr>)
         else case nxt (h pc) of
           None \<Rightarrow> Panic NilDereference
         | Some n \<Rightarrow>
             let h1 = h(n := (h n)\<lparr>prv := None\<rparr>); l2 = l1\<lparr>front := nxt (h1 pc)\<rparr>
             in Return (h1(pc := (h1 pc)\<lparr>nxt := None, prv := None\<rparr>), l2))"

definition popBack :: "conn_heap \<times> idleList \<Rightarrow> (conn_heap \<times> idleList) exec" where
  "popBack = (\<lambda>(h, l).
     case rear l of
       None \<Rightarrow> Panic NilDereference
     | Some pc \<Rightarrow>
         let l1 = l\<lparr>lcount := lcount l - 1\<rparr> in
         if lcount l1 = 0
         then Return (h(pc := (h pc)\<lparr>nxt := None, prv := None\<rparr>), l1\<lparr>front := None, rear := None\<rparr>)
         else case prv (h pc) of
           None \<Rightarrow> Panic NilDereference
         | Some n \<Rightarrow>
             let h1 = h(n := (h n)\<lparr>nxt := None\<rparr>); l2 = l1\<lparr>rear := prv (h1 pc)\<rparr>
             in Return (h1(pc := (h1 pc)\<lparr>nxt := None, prv := None\<rparr>), l2))"

section \<open>The list a header stands for\<close>

definition opt_hd :: "'a list \<Rightarrow> 'a option" where
  "opt_hd xs = (case xs of [] \<Rightarrow> None | x # _ \<Rightarrow> Some x)"

definition opt_last :: "'a list \<Rightarrow> 'a option" where
  "opt_last xs = (if xs = [] then None else Some (last xs))"

lemma opt_hd_simps [simp]:
  "opt_hd [] = None" "opt_hd (x # xs) = Some x" "opt_hd xs = None \<longleftrightarrow> xs = []"
  by (auto simp: opt_hd_def split: list.splits)

lemma opt_last_simps [simp]:
  "opt_last [] = None" "opt_last (xs @ [x]) = Some x" "opt_last xs = None \<longleftrightarrow> xs = []"
  "xs \<noteq> [] \<Longrightarrow> opt_last (x # xs) = opt_last xs" "opt_last [x] = Some x"
  by (auto simp: opt_last_def)

text \<open>A chain of \<open>next\<close> pointers, and the chain with its \<open>prev\<close> pointers.\<close>

fun chain :: "conn_heap \<Rightarrow> addr list \<Rightarrow> bool" where
  "chain h [] \<longleftrightarrow> True"
| "chain h (x # xs) \<longleftrightarrow> nxt (h x) = opt_hd xs \<and> chain h xs"

fun links :: "conn_heap \<Rightarrow> addr option \<Rightarrow> addr list \<Rightarrow> bool" where
  "links h p [] \<longleftrightarrow> True"
| "links h p (x # xs) \<longleftrightarrow> prv (h x) = p \<and> nxt (h x) = opt_hd xs \<and> links h (Some x) xs"

definition idle_list :: "conn_heap \<times> idleList \<Rightarrow> addr list \<Rightarrow> bool" where
  "idle_list = (\<lambda>(h, l) xs.
     distinct xs \<and> lcount l = int (length xs) \<and> front l = opt_hd xs \<and> rear l = opt_last xs
     \<and> links h None xs)"

lemma chain_cong: "(\<And>a. a \<in> set xs \<Longrightarrow> nxt (h' a) = nxt (h a)) \<Longrightarrow> chain h' xs = chain h xs"
  by (induction xs) auto

lemma links_cong:
  "(\<And>a. a \<in> set xs \<Longrightarrow> nxt (h' a) = nxt (h a) \<and> prv (h' a) = prv (h a)) \<Longrightarrow>
    links h' p xs = links h p xs"
  by (induction xs arbitrary: p) auto

lemma links_chain: "links h p xs \<Longrightarrow> chain h xs"
  by (induction xs arbitrary: p) auto

lemma opt_hd_append: "opt_hd (xs @ ys) = (if xs = [] then opt_hd ys else opt_hd xs)"
  by (cases xs) auto

lemma links_snoc:
  "links h p (xs @ [x]) \<longleftrightarrow>
    (xs = [] \<or> nxt (h (last xs)) = Some x) \<and> nxt (h x) = None
    \<and> prv (h x) = (if xs = [] then p else Some (last xs)) \<and> links (h(last xs := (h (last xs))\<lparr>nxt := None\<rparr>)) p xs"
  if "distinct (xs @ [x])"
  using that
proof (induction xs arbitrary: p)
  case (Cons y ys)
  show ?case
  proof (cases "ys = []")
    case False
    then have "last ys \<noteq> y" using Cons.prems by (metis distinct.simps(2) append_Cons last_in_set Un_iff set_append)
    with False Cons show ?thesis by (auto simp: opt_hd_append fun_upd_def)
  qed (use Cons.prems in auto)
qed auto

section \<open>The double-ended queue the pool relies on\<close>

text \<open>
  \<open>keeps A s s'\<close>: the step from \<open>s\<close> to \<open>s'\<close> touches nothing outside \<open>A\<close>.
\<close>

locale deque =
  fixes repr :: "'s \<Rightarrow> 'a list \<Rightarrow> bool"
    and push :: "'a \<Rightarrow> 's \<Rightarrow> 's exec"
    and pop_first :: "'s \<Rightarrow> 's exec"
    and pop_final :: "'s \<Rightarrow> 's exec"
    and size_of :: "'s \<Rightarrow> int"
    and first :: "'s \<Rightarrow> 'a option"
    and final :: "'s \<Rightarrow> 'a option"
    and keeps :: "'a set \<Rightarrow> 's \<Rightarrow> 's \<Rightarrow> bool"
  assumes push_law: "repr s xs \<Longrightarrow> x \<notin> set xs \<Longrightarrow>
      \<exists>s'. push x s = Return s' \<and> repr s' (x # xs) \<and> keeps (set (x # xs)) s s'"
    and pop_first_law: "repr s (x # xs) \<Longrightarrow>
      \<exists>s'. pop_first s = Return s' \<and> repr s' xs \<and> keeps (set (x # xs)) s s'"
    and pop_final_law: "repr s (xs @ [x]) \<Longrightarrow>
      \<exists>s'. pop_final s = Return s' \<and> repr s' xs \<and> keeps (set (xs @ [x])) s s'"
    and size_law: "repr s xs \<Longrightarrow> size_of s = int (length xs)"
    and first_law: "repr s xs \<Longrightarrow> first s = opt_hd xs"
    and final_law: "repr s xs \<Longrightarrow> final s = opt_last xs"
    and repr_distinct: "repr s xs \<Longrightarrow> distinct xs"
    and keeps_trans: "keeps A s s' \<Longrightarrow> keeps B s' s'' \<Longrightarrow> A \<subseteq> C \<Longrightarrow> B \<subseteq> C \<Longrightarrow> keeps C s s''"
begin

lemma repr_first_Some:
  assumes "repr s xs" "first s = Some x"
  obtains ys where "xs = x # ys"
  using first_law [OF assms(1)] assms(2) by (cases xs) auto

lemma repr_final_Some:
  assumes "repr s xs" "final s = Some x"
  obtains ys where "xs = ys @ [x]"
  using final_law [OF assms(1)] assms(2) by (cases xs rule: rev_cases) auto

lemma push_overflow:
  assumes "repr s xs" "x \<notin> set xs"
  obtains s1 s2 where "push x s = Return s1" "size_of s1 = int (length xs) + 1"
    "final s1 = Some (last (x # xs))" "pop_final s1 = Return s2"
    "repr s2 (butlast (x # xs))" "keeps (set (x # xs)) s s2"
proof -
  obtain s1 where 1: "push x s = Return s1" "repr s1 (x # xs)" "keeps (set (x # xs)) s s1"
    using push_law [OF assms] by blast
  have "repr s1 (butlast (x # xs) @ [last (x # xs)])" using 1(2) by (simp del: butlast.simps last.simps)
  then obtain s2 where 2: "pop_final s1 = Return s2" "repr s2 (butlast (x # xs))"
    "keeps (set (x # xs)) s1 s2"
    using pop_final_law by (metis append_butlast_last_id list.distinct(1))
  show thesis
    using that [OF 1(1) _ _ 2(1,2) keeps_trans [OF 1(3) 2(3)]] size_law [OF 1(2)] final_law [OF 1(2)]
    by (simp add: opt_last_def)
qed

end

section \<open>The idle list is a double-ended queue\<close>

text \<open>Only the links of connections in the list change; the rest of every record is kept.\<close>

definition keeps_conns :: "addr set \<Rightarrow> conn_heap \<times> idleList \<Rightarrow> conn_heap \<times> idleList \<Rightarrow> bool" where
  "keeps_conns A = (\<lambda>(h, _) (h', _).
     (\<forall>a. a \<notin> A \<longrightarrow> h' a = h a)
     \<and> (\<forall>a. conn (h' a) = conn (h a) \<and> returned (h' a) = returned (h a) \<and> created (h' a) = created (h a)))"

lemma pushFront_law:
  assumes "idle_list s xs" "x \<notin> set xs"
  shows "\<exists>s'. pushFront x s = Return s' \<and> idle_list s' (x # xs) \<and> keeps_conns (set (x # xs)) s s'"
proof (cases xs)
  case Nil
  with assms show ?thesis
    by (cases s) (auto simp: pushFront_def idle_list_def keeps_conns_def Let_def)
next
  case (Cons y ys)
  obtain h l where s: "s = (h, l)" by (cases s)
  let ?h = "(h(x := (h x)\<lparr>nxt := front l, prv := None\<rparr>))"
  let ?h' = "?h(y := (?h y)\<lparr>prv := Some x\<rparr>)"
  have f: "front l = Some y" "lcount l \<noteq> 0" using assms Cons by (auto simp: idle_list_def s)
  have "links ?h' (Some y) ys \<longleftrightarrow> links h (Some y) ys"
    by (rule links_cong) (use assms Cons in \<open>auto simp: idle_list_def s\<close>)
  then have "idle_list (?h', l\<lparr>front := Some x, lcount := lcount l + 1\<rparr>) (x # xs)"
    using assms Cons f by (auto simp: idle_list_def s)
  with f assms Cons show ?thesis by (auto simp: s pushFront_def Let_def keeps_conns_def)
qed

lemma popFront_law:
  assumes "idle_list s (x # xs)"
  shows "\<exists>s'. popFront s = Return s' \<and> idle_list s' xs \<and> keeps_conns (set (x # xs)) s s'"
proof (cases xs)
  case Nil
  with assms show ?thesis
    by (cases s) (auto simp: popFront_def idle_list_def keeps_conns_def Let_def)
next
  case (Cons y ys)
  obtain h l where s: "s = (h, l)" by (cases s)
  let ?h = "h(y := (h y)\<lparr>prv := None\<rparr>)"
  let ?h' = "?h(x := (?h x)\<lparr>nxt := None, prv := None\<rparr>)"
  have ne: "y \<noteq> x" "x \<notin> set ys" "y \<notin> set ys" using assms Cons by (auto simp: idle_list_def s)
  have "links ?h' (Some y) ys \<longleftrightarrow> links h (Some y) ys"
    by (rule links_cong) (use ne in auto)
  then have "idle_list (?h', l\<lparr>lcount := lcount l - 1, front := Some y\<rparr>) xs"
    using assms Cons ne by (auto simp: idle_list_def s)
  with assms Cons ne show ?thesis
    by (auto simp: s popFront_def Let_def keeps_conns_def idle_list_def)
qed

lemma popBack_law:
  assumes "idle_list s (xs @ [x])"
  shows "\<exists>s'. popBack s = Return s' \<and> idle_list s' xs \<and> keeps_conns (set (xs @ [x])) s s'"
proof (cases xs rule: rev_cases)
  case Nil
  with assms show ?thesis
    by (cases s) (auto simp: popBack_def idle_list_def keeps_conns_def Let_def)
next
  case (snoc ys y)
  obtain h l where s: "s = (h, l)" by (cases s)
  let ?h = "h(y := (h y)\<lparr>nxt := None\<rparr>)"
  let ?h' = "?h(x := (?h x)\<lparr>nxt := None, prv := None\<rparr>)"
  have d: "distinct ((ys @ [y]) @ [x])" and l: "links h None ((ys @ [y]) @ [x])"
    using assms snoc by (auto simp: idle_list_def s)
  have ne: "y \<noteq> x" "x \<notin> set ys" using d by auto
  have px: "prv (h x) = Some y" and "links ?h None xs" using l snoc unfolding links_snoc [OF d] by auto
  moreover have "links ?h' None xs = links ?h None xs"
    by (rule links_cong) (use ne snoc in auto)
  ultimately have "links ?h' None xs" by simp
  then have "idle_list (?h', l\<lparr>lcount := lcount l - 1, rear := Some y\<rparr>) xs"
    using assms snoc ne by (auto simp: idle_list_def s opt_hd_append)
  moreover have "rear l = Some x" "lcount l \<noteq> 1"
    using assms snoc by (auto simp: idle_list_def s opt_last_def)
  ultimately show ?thesis using ne px snoc
    by (auto simp: s popBack_def Let_def keeps_conns_def)
qed

lemma keeps_conns_trans:
  "keeps_conns A s s' \<Longrightarrow> keeps_conns B s' s'' \<Longrightarrow> A \<subseteq> C \<Longrightarrow> B \<subseteq> C \<Longrightarrow> keeps_conns C s s''"
  by (force simp: keeps_conns_def split: prod.splits)

interpretation idleq: deque idle_list pushFront popFront popBack
    "lcount \<circ> snd" "front \<circ> snd" "rear \<circ> snd" keeps_conns
proof (unfold_locales, goal_cases)
  case 1 then show ?case by (rule pushFront_law)
next
  case 2 then show ?case by (rule popFront_law)
next
  case 3 then show ?case by (rule popBack_law)
next
  case 8 then show ?case by (rule keeps_conns_trans)
qed (auto simp: idle_list_def split: prod.splits)

definition empty_idle :: idleList where
  "empty_idle = \<lparr>lcount = 0, front = None, rear = None\<rparr>"

lemma idle_list_empty [simp]: "idle_list (h, empty_idle) []"
  by (simp add: idle_list_def empty_idle_def)

lemma idle_list_chain: "idle_list (h, l) xs \<Longrightarrow> chain h xs"
  by (auto simp: idle_list_def intro: links_chain)

lemma chain_keeps:
  assumes "chain h ys" "keeps_conns A (h, l) (h', l')" "A \<inter> set ys = {}"
  shows "chain h' ys"
proof -
  have "chain h' ys = chain h ys"
    by (rule chain_cong) (use assms(2,3) in \<open>auto simp: keeps_conns_def\<close>)
  with assms(1) show ?thesis by simp
qed

text \<open>
  C25. The pointer operations of the idle list are those of a double-ended queue: on a header
  that represents \<open>xs\<close>, pushing an address that is not in the list conses it, and popping
  at the front or at the rear removes the first or the last address, with no nil
  dereference and with the data of every connection kept.
\<close>

theorem idle_list_refines_deque:
  assumes "idle_list (h, l) xs" "x \<notin> set xs"
  shows "(\<exists>h' l'. pushFront x (h, l) = Return (h', l') \<and> idle_list (h', l') (x # xs)
            \<and> conn \<circ> h' = conn \<circ> h)
    \<and> (if xs = [] then popFront (h, l) = Panic NilDereference \<and> popBack (h, l) = Panic NilDereference
        else (\<exists>h' l'. popFront (h, l) = Return (h', l') \<and> idle_list (h', l') (tl xs) \<and> conn \<circ> h' = conn \<circ> h)
           \<and> (\<exists>h' l'. popBack (h, l) = Return (h', l') \<and> idle_list (h', l') (butlast xs) \<and> conn \<circ> h' = conn \<circ> h))"
proof -
  have k: "keeps_conns A (h, l) (h', l') \<Longrightarrow> conn \<circ> h' = conn \<circ> h" for A h' l'
    by (auto simp: keeps_conns_def)
  have "\<exists>h' l'. pushFront x (h, l) = Return (h', l') \<and> idle_list (h', l') (x # xs) \<and> conn \<circ> h' = conn \<circ> h"
    using idleq.push_law [OF assms] k by force
  moreover have "popFront (h, l) = Panic NilDereference \<and> popBack (h, l) = Panic NilDereference"
    if "xs = []" using assms(1) that by (auto simp: idle_list_def popFront_def popBack_def)
  moreover have "\<exists>h' l'. popFront (h, l) = Return (h', l') \<and> idle_list (h', l') (tl xs) \<and> conn \<circ> h' = conn \<circ> h"
    if "xs \<noteq> []"
  proof -
    from that obtain y ys where "xs = y # ys" by (cases xs) auto
    with idleq.pop_first_law [of "(h, l)" y ys] assms(1) k show ?thesis by force
  qed
  moreover have "\<exists>h' l'. popBack (h, l) = Return (h', l') \<and> idle_list (h', l') (butlast xs) \<and> conn \<circ> h' = conn \<circ> h"
    if "xs \<noteq> []"
  proof -
    from that obtain y ys where "xs = ys @ [y]" by (cases xs rule: rev_cases) auto
    with idleq.pop_final_law [of "(h, l)" ys y] assms(1) k show ?thesis by force
  qed
  ultimately show ?thesis by auto
qed

theorem idle_list_refines_deque_witness:
  "\<exists>s. pushFront 3 (\<lambda>_. \<lparr>conn = 0, returned = 0, created = 0, nxt = None, prv = None\<rparr>, empty_idle) = Return s
    \<and> idle_list s [3]"
  using idle_list_refines_deque
    [of "\<lambda>_. \<lparr>conn = 0, returned = 0, created = 0, nxt = None, prv = None\<rparr>" empty_idle "[]" 3]
  by auto

end
