(* ===== verification/Pool.thy ===== *)
theory Pool
  imports IdleList
begin

text \<open>
  The connection pool (\<open>src/pool/pool.go\<close>). Every stretch of code between taking and
  releasing the pool's mutex is one function on the pool; what runs outside the mutex (dialling,
  testing and closing connections, waiting for a token) is a step of its own, so the steps of
  several goroutines interleave as they can in Go. The connections are numbers, and the results
  of \<open>Dial\<close>, \<open>TestOnBorrow\<close> and the clock are inputs of a step.
\<close>

section \<open>State\<close>

text \<open>A channel of empty structs: the buffered tokens, and whether it is closed.\<close>

datatype token_chan = TokenChan (tokens: nat) (chan_closed: bool)

text \<open>
  The heap of connections, the next free address and the list of the closers closed so far
  stand for the memory and the outside world.
\<close>

record pool =
  MaxIdle :: int
  MaxActive :: int
  IdleTimeout :: int
  Wait :: bool
  MaxConnLifetime :: int
  chInitialized :: bool
  pclosed :: bool
  active :: int
  ch :: "token_chan option"
  idle :: idleList
  poolConnMap :: "closer \<rightharpoonup> addr"
  heap :: conn_heap
  next_addr :: addr
  closed_log :: "addr list"

definition new_pool :: "int \<Rightarrow> int \<Rightarrow> int \<Rightarrow> bool \<Rightarrow> int \<Rightarrow> pool" where
  "new_pool maxIdle maxActive idleTimeout wait maxConnLifetime =
     \<lparr>MaxIdle = maxIdle, MaxActive = maxActive, IdleTimeout = idleTimeout, Wait = wait,
      MaxConnLifetime = maxConnLifetime, chInitialized = False, pclosed = False, active = 0,
      ch = None, idle = empty_idle, poolConnMap = Map.empty,
      heap = (\<lambda>_. \<lparr>conn = 0, returned = 0, created = 0, nxt = None, prv = None\<rparr>),
      next_addr = 0, closed_log = []\<rparr>"

record Stats =
  ActiveCount :: int
  IdleCount :: int

definition pool_Stats :: "pool \<Rightarrow> Stats" where
  "pool_Stats p = \<lparr>ActiveCount = active p, IdleCount = lcount (idle p)\<rparr>"

definition pool_ActiveCount :: "pool \<Rightarrow> int" where
  "pool_ActiveCount p = active p"

definition pool_IdleCount :: "pool \<Rightarrow> int" where
  "pool_IdleCount p = lcount (idle p)"

section \<open>Critical sections\<close>

text \<open>Time.Sub saturates at the ends of the 64-bit duration.\<close>

definition time_sub :: "time \<Rightarrow> time \<Rightarrow> int" where
  "time_sub a b = max (- (2 ^ 63)) (min (2 ^ 63 - 1) (a - b))"

text \<open>
  A send on the token channel by a caller that has checked that the channel exists and that the
  pool is open. \<open>None\<close>: the buffer is full and the sender blocks, holding the mutex.
\<close>

definition send_token :: "pool \<Rightarrow> pool option" where
  "send_token p = (case ch p of
      None \<Rightarrow> Some p
    | Some c \<Rightarrow>
        if pclosed p then Some p
        else if int (tokens c) < MaxActive p
        then Some (p\<lparr>ch := Some (TokenChan (Suc (tokens c)) (chan_closed c))\<rparr>)
        else None)"

definition lazyInit :: "pool \<Rightarrow> pool" where
  "lazyInit p =
     (if chInitialized p then p
      else p\<lparr>ch := Some (if pclosed p then TokenChan 0 True else TokenChan (nat (MaxActive p)) False),
             chInitialized := True\<rparr>)"

text \<open>Receiving a token: a closed channel whose buffer is empty gives one at once.\<close>

definition recv_token :: "pool \<Rightarrow> pool option" where
  "recv_token p = (case ch p of
      None \<Rightarrow> None
    | Some c \<Rightarrow>
        if 0 < tokens c then Some (p\<lparr>ch := Some (TokenChan (tokens c - 1) (chan_closed c))\<rparr>)
        else if chan_closed c then Some p else None)"

text \<open>What a stretch of \<open>get\<close> under the mutex ends with.\<close>

datatype get_next =
    PruneConn addr int int
  | BorrowConn addr
  | FailClosed
  | FailExhausted
  | DialNew

definition set_list :: "pool \<Rightarrow> conn_heap \<times> idleList \<Rightarrow> pool" where
  "set_list p s = p\<lparr>heap := fst s, idle := snd s\<rparr>"

definition get_borrow :: "pool \<Rightarrow> (get_next \<times> pool) exec" where
  "get_borrow p = (case front (idle p) of
      Some pc \<Rightarrow> exec_bind (popFront (heap p, idle p)) (\<lambda>s. Return (BorrowConn pc, set_list p s))
    | None \<Rightarrow>
        if pclosed p then Return (FailClosed, p)
        else if \<not> Wait p \<and> 0 < MaxActive p \<and> MaxActive p \<le> active p then Return (FailExhausted, p)
        else Return (DialNew, p\<lparr>active := active p + 1\<rparr>))"

text \<open>The pruning loop at its \<open>i\<close>-th turn, with \<open>n\<close> turns at most.\<close>

definition get_prune :: "time \<Rightarrow> int \<Rightarrow> int \<Rightarrow> pool \<Rightarrow> (get_next \<times> pool) exec" where
  "get_prune now n i p = (case rear (idle p) of
      Some pc \<Rightarrow>
        if i < n \<and> returned (heap p pc) + IdleTimeout p < now
        then exec_bind (popBack (heap p, idle p)) (\<lambda>s. Return (PruneConn pc n i, set_list p s))
        else get_borrow p
    | None \<Rightarrow> get_borrow p)"

definition get_enter :: "time \<Rightarrow> pool \<Rightarrow> (get_next \<times> pool) exec" where
  "get_enter now p =
     (if 0 < IdleTimeout p then get_prune now (lcount (idle p)) 0 p else get_borrow p)"

text \<open>The test of a connection popped from the front, outside the mutex.\<close>

definition borrow_ok :: "bool \<Rightarrow> time \<Rightarrow> pool \<Rightarrow> addr \<Rightarrow> bool" where
  "borrow_ok test_ok now p pc \<longleftrightarrow>
     test_ok \<and> (MaxConnLifetime p = 0 \<or> time_sub now (created (heap p pc)) < MaxConnLifetime p)"

text \<open>
  The first stretch of \<open>put\<close> (with \<open>forceClose\<close> false, as its only caller passes it):
  the connection that is left to close, if any. \<open>pc\<close> is nil for an unknown connection.
\<close>

definition put_locked :: "time \<Rightarrow> addr option \<Rightarrow> pool \<Rightarrow> (addr option \<times> pool) exec" where
  "put_locked now pco p =
     (if pclosed p then Return (pco, p)
      else case pco of
        None \<Rightarrow> Panic NilDereference
      | Some pc \<Rightarrow>
          let h = (heap p)(pc := (heap p pc)\<lparr>returned := now\<rparr>) in
          exec_bind (pushFront pc (h, idle p)) (\<lambda>s.
            if MaxIdle p < lcount (snd s)
            then case rear (snd s) of
              None \<Rightarrow> Panic NilDereference
            | Some victim \<Rightarrow> exec_bind (popBack s) (\<lambda>s'. Return (Some victim, set_list p s'))
            else Return (None, set_list p s)))"

definition close_locked :: "pool \<Rightarrow> addr option \<times> pool" where
  "close_locked p =
     (if pclosed p then (None, p)
      else (front (idle p),
            p\<lparr>pclosed := True, active := active p - lcount (idle p), idle := empty_idle,
              ch := (case ch p of None \<Rightarrow> None | Some c \<Rightarrow> Some (TokenChan (tokens c) True))\<rparr>))"

text \<open>The outside world's part of \<open>pc.c.Close()\<close>, and the allocation after a dial.\<close>

definition close_conn :: "addr \<Rightarrow> pool \<Rightarrow> pool" where
  "close_conn pc p = p\<lparr>closed_log := closed_log p @ [pc]\<rparr>"

definition new_conn :: "closer \<Rightarrow> time \<Rightarrow> pool \<Rightarrow> addr \<times> pool" where
  "new_conn c now p =
     (next_addr p,
      p\<lparr>heap := (heap p)(next_addr p :=
           \<lparr>conn = c, returned = 0, created = now, nxt = None, prv = None\<rparr>),
        next_addr := Suc (next_addr p)\<rparr>)"

text \<open>The bookkeeping of lent connections in \<open>Get\<close> and \<open>Put\<close>.\<close>

definition register_conn :: "addr \<Rightarrow> pool \<Rightarrow> closer \<times> pool" where
  [simp]: "register_conn pc p =
     (let c = conn (heap p pc) in (c, p\<lparr>poolConnMap := (poolConnMap p)(c \<mapsto> pc)\<rparr>))"

definition lookup_conn :: "closer \<Rightarrow> pool \<Rightarrow> addr option \<times> pool" where
  [simp]: "lookup_conn c p = (poolConnMap p c, p\<lparr>poolConnMap := (poolConnMap p)(c := None)\<rparr>)"

section \<open>Goroutines\<close>

text \<open>Where a goroutine is in \<open>Get\<close>, \<open>Put\<close> or \<open>Close\<close>.\<close>

datatype ret = NoCall | GotConn closer | GotNil | PutDone | CloseDone

datatype gpc =
    Ready ret
  | GetInit
  | GetWait
  | GetLock
  | PruneClose addr int int
  | PruneRelock int int
  | Testing addr
  | BorrowClose addr
  | BorrowRelock
  | Dialling
  | DialFailed
  | Register addr
  | PutLookup closer
  | PutLock "addr option"
  | PutClose addr
  | PutRelock
  | CloseLock
  | Closing "addr option"
  | SendBlocked
  | Crashed

datatype op = OpGet | OpPut closer | OpClose

text \<open>
  What the environment supplies to a step: the call a ready goroutine makes, the clock, the
  verdict of \<open>TestOnBorrow\<close> (true when there is none) and the result of \<open>Dial\<close>.
\<close>

record input =
  in_op :: op
  in_now :: time
  in_test_ok :: bool
  in_dial :: "closer option"

record sys =
  pl :: pool
  threads :: "gpc list"
  stuck :: bool

text \<open>
  \<open>stuck\<close>: the mutex is held by a goroutine that panicked or blocked inside a critical
  section (the code has no deferred unlock), so that no other can ever take it.
\<close>

fun get_goto :: "get_next \<Rightarrow> gpc" where
  "get_goto (PruneConn pc n i) = PruneClose pc n i"
| "get_goto (BorrowConn pc) = Testing pc"
| "get_goto FailClosed = Ready GotNil"
| "get_goto FailExhausted = Ready GotNil"
| "get_goto DialNew = Dialling"

definition start_call :: "op \<Rightarrow> pool \<Rightarrow> gpc" where
  "start_call c p = (case c of
      OpGet \<Rightarrow> if Wait p \<and> 0 < MaxActive p then GetInit else GetLock
    | OpPut x \<Rightarrow> PutLookup x
    | OpClose \<Rightarrow> CloseLock)"

text \<open>The outcome of a step: the goroutine's next place, the pool, and whether the mutex is lost.\<close>

type_synonym outcome = "gpc \<times> pool \<times> bool"

definition of_exec :: "('a \<times> pool) exec \<Rightarrow> pool \<Rightarrow> ('a \<Rightarrow> pool \<Rightarrow> outcome) \<Rightarrow> outcome" where
  "of_exec m p k = (case m of Return (x, p') \<Rightarrow> k x p' | Panic _ \<Rightarrow> (Crashed, p, True))"

definition and_send :: "gpc \<Rightarrow> pool \<Rightarrow> outcome" where
  "and_send g p = (case send_token p of Some p' \<Rightarrow> (g, p', False) | None \<Rightarrow> (SendBlocked, p, True))"

definition dec_active :: "pool \<Rightarrow> pool" where
  "dec_active p = p\<lparr>active := active p - 1\<rparr>"

definition put_finish :: "addr option \<Rightarrow> pool \<Rightarrow> outcome" where
  "put_finish victim p = (case victim of Some pc \<Rightarrow> (PutClose pc, p, False) | None \<Rightarrow> and_send (Ready PutDone) p)"

text \<open>
  One step of a goroutine: from one release of the mutex, or one call outside it, to the next.
  \<open>None\<close>: it cannot move (it waits for a token, or has crashed or blocked for good).
\<close>

fun gstep :: "input \<Rightarrow> gpc \<Rightarrow> pool \<Rightarrow> outcome option" where
  "gstep inp (Ready r) p = Some (start_call (in_op inp) p, p, False)"
| "gstep inp GetInit p = Some (GetWait, lazyInit p, False)"
| "gstep inp GetWait p = (case recv_token p of None \<Rightarrow> None | Some p' \<Rightarrow> Some (GetLock, p', False))"
| "gstep inp GetLock p =
     Some (of_exec (get_enter (in_now inp) p) p (\<lambda>x p'. (get_goto x, p', False)))"
| "gstep inp (PruneClose pc n i) p = Some (PruneRelock n i, close_conn pc p, False)"
| "gstep inp (PruneRelock n i) p =
     Some (of_exec (get_prune (in_now inp) n (i + 1) (dec_active p)) (dec_active p)
       (\<lambda>x p'. (get_goto x, p', False)))"
| "gstep inp (Testing pc) p =
     Some (if borrow_ok (in_test_ok inp) (in_now inp) p pc then Register pc else BorrowClose pc, p, False)"
| "gstep inp (BorrowClose pc) p = Some (BorrowRelock, close_conn pc p, False)"
| "gstep inp BorrowRelock p =
     Some (of_exec (get_borrow (dec_active p)) (dec_active p) (\<lambda>x p'. (get_goto x, p', False)))"
| "gstep inp Dialling p = Some (case in_dial inp of
       None \<Rightarrow> (DialFailed, p, False)
     | Some c \<Rightarrow> (case new_conn c (in_now inp) p of (pc, p') \<Rightarrow> (Register pc, p', False)))"
| "gstep inp DialFailed p = Some (and_send (Ready GotNil) (dec_active p))"
| "gstep inp (Register pc) p =
     (case register_conn pc p of (c, p') \<Rightarrow> Some (Ready (GotConn c), p', False))"
| "gstep inp (PutLookup c) p =
     (case lookup_conn c p of (pco, p') \<Rightarrow> Some (PutLock pco, p', False))"
| "gstep inp (PutLock pco) p = Some (of_exec (put_locked (in_now inp) pco p) p put_finish)"
| "gstep inp (PutClose pc) p = Some (PutRelock, close_conn pc p, False)"
| "gstep inp PutRelock p = Some (and_send (Ready PutDone) (dec_active p))"
| "gstep inp CloseLock p =
     (case close_locked p of (pco, p') \<Rightarrow> Some (Closing pco, p', False))"
| "gstep inp (Closing None) p = Some (Ready CloseDone, p, False)"
| "gstep inp (Closing (Some pc)) p = Some (Closing (nxt (heap p pc)), close_conn pc p, False)"
| "gstep inp SendBlocked p = None"
| "gstep inp Crashed p = None"

fun needs_mutex :: "gpc \<Rightarrow> pool \<Rightarrow> bool" where
  "needs_mutex GetInit p = (\<not> chInitialized p)"
| "needs_mutex GetLock p = True"
| "needs_mutex (PruneRelock n i) p = True"
| "needs_mutex BorrowRelock p = True"
| "needs_mutex DialFailed p = True"
| "needs_mutex (Register pc) p = True"
| "needs_mutex (PutLookup c) p = True"
| "needs_mutex (PutLock pco) p = True"
| "needs_mutex PutRelock p = True"
| "needs_mutex CloseLock p = True"
| "needs_mutex g p = False"

definition sys_step :: "input \<Rightarrow> nat \<Rightarrow> sys \<Rightarrow> sys option" where
  "sys_step inp i s =
     (if length (threads s) \<le> i then None
      else if stuck s \<and> needs_mutex (threads s ! i) (pl s) then None
      else case gstep inp (threads s ! i) (pl s) of
        None \<Rightarrow> None
      | Some (g, p, lost) \<Rightarrow>
          Some \<lparr>pl = p, threads = (threads s)[i := g], stuck = stuck s \<or> lost\<rparr>)"

text \<open>
  \<open>Dial\<close> makes a new connection: the closer it returns is none of those it returned
  before.
\<close>

definition fresh_dial :: "input \<Rightarrow> gpc \<Rightarrow> pool \<Rightarrow> bool" where
  "fresh_dial inp g p \<longleftrightarrow> g \<noteq> Dialling \<or> (case in_dial inp of
      None \<Rightarrow> True
    | Some c \<Rightarrow> list_all (\<lambda>a. conn (heap p a) \<noteq> c) [0..<next_addr p])"

definition start_sys :: "pool \<Rightarrow> nat \<Rightarrow> sys" where
  "start_sys p n = \<lparr>pl = p, threads = replicate n (Ready NoCall), stuck = False\<rparr>"

inductive reachable :: "pool \<Rightarrow> nat \<Rightarrow> sys \<Rightarrow> bool" for p0 n where
  start: "reachable p0 n (start_sys p0 n)"
| step: "reachable p0 n s \<Longrightarrow> fresh_dial inp (threads s ! i) (pl s) \<Longrightarrow> sys_step inp i s = Some s'
    \<Longrightarrow> reachable p0 n s'"

text \<open>A schedule: inputs and goroutines, in order.\<close>

fun run_sched :: "(input \<times> nat) list \<Rightarrow> sys \<Rightarrow> sys option" where
  "run_sched [] s = Some s"
| "run_sched ((inp, i) # es) s =
     (if fresh_dial inp (threads s ! i) (pl s)
      then case sys_step inp i s of None \<Rightarrow> None | Some s' \<Rightarrow> run_sched es s'
      else None)"

lemma run_sched_append:
  "run_sched (es @ fs) s = (case run_sched es s of None \<Rightarrow> None | Some s' \<Rightarrow> run_sched fs s')"
  by (induction es s rule: run_sched.induct) (auto split: option.splits)

lemma run_sched_reachable:
  "reachable p0 n s \<Longrightarrow> run_sched es s = Some s' \<Longrightarrow> reachable p0 n s'"
  by (induction es s rule: run_sched.induct)
    (auto split: if_splits option.splits intro: reachable.step)

section \<open>What every interleaving keeps\<close>

text \<open>
  The places of a connection: the idle list, the map of borrowed connections, a goroutine
  that is testing, registering, putting or closing it, or the log of closed connections.
\<close>

fun weight :: "gpc \<Rightarrow> int" where
  "weight (PruneClose pc n i) = 1"
| "weight (PruneRelock n i) = 1"
| "weight (Testing pc) = 1"
| "weight (BorrowClose pc) = 1"
| "weight BorrowRelock = 1"
| "weight Dialling = 1"
| "weight DialFailed = 1"
| "weight (Register pc) = 1"
| "weight (PutLock pco) = (if pco = None then 0 else 1)"
| "weight (PutClose pc) = 1"
| "weight PutRelock = 1"
| "weight g = 0"

definition holds :: "gpc \<Rightarrow> int" where
  "holds g = (if g = GetLock then 1 else weight g)"

fun owns :: "conn_heap \<Rightarrow> gpc \<Rightarrow> addr list \<Rightarrow> bool" where
  "owns h (PruneClose pc n i) ys \<longleftrightarrow> ys = [pc]"
| "owns h (Testing pc) ys \<longleftrightarrow> ys = [pc]"
| "owns h (BorrowClose pc) ys \<longleftrightarrow> ys = [pc]"
| "owns h (Register pc) ys \<longleftrightarrow> ys = [pc]"
| "owns h (PutLock pco) ys \<longleftrightarrow> ys = (case pco of None \<Rightarrow> [] | Some pc \<Rightarrow> [pc])"
| "owns h (PutClose pc) ys \<longleftrightarrow> ys = [pc]"
| "owns h (Closing pco) ys \<longleftrightarrow> pco = opt_hd ys \<and> chain h ys"
| "owns h g ys \<longleftrightarrow> ys = []"

text \<open>\<open>k\<close> is the number of tokens in use.\<close>

definition tokens_ok :: "pool \<Rightarrow> int \<Rightarrow> bool" where
  "tokens_ok p k \<longleftrightarrow>
     (if Wait p \<and> 0 < MaxActive p
      then (chInitialized p \<longleftrightarrow> ch p \<noteq> None) \<and>
        (case ch p of None \<Rightarrow> pclosed p \<or> k = 0
         | Some c \<Rightarrow> (chan_closed c \<longleftrightarrow> pclosed p) \<and> (pclosed p \<or> int (tokens c) + k = MaxActive p))
      else ch p = None)"

text \<open>
  The invariant as one goroutine at \<open>g\<close> sees it: \<open>xs\<close> is the idle list, \<open>ys\<close> what it
  owns, \<open>os\<close> what the others own, \<open>bs\<close> the borrowed connections; \<open>W\<close> and \<open>H\<close> are what
  the others count in \<open>active\<close> and in tokens.
\<close>

definition pok :: "pool \<Rightarrow> gpc \<Rightarrow> addr list \<Rightarrow> addr list \<Rightarrow> int \<Rightarrow> int \<Rightarrow> addr list \<Rightarrow> addr list \<Rightarrow> bool" where
  "pok p g ys os W H xs bs \<longleftrightarrow>
     idle_list (heap p, idle p) xs \<and> owns (heap p) g ys
     \<and> mset (xs @ ys @ os @ bs @ closed_log p) = mset [0..<next_addr p]
     \<and> set bs = ran (poolConnMap p)
     \<and> (\<forall>c a. poolConnMap p c = Some a \<longrightarrow> conn (heap p a) = c)
     \<and> inj_on (\<lambda>a. conn (heap p a)) {..<next_addr p}
     \<and> active p = int (length xs) + int (length bs) + weight g + W
     \<and> (pclosed p \<longrightarrow> xs = [])
     \<and> tokens_ok p (int (length bs) + holds g + H)
     \<and> (0 < MaxActive p \<longrightarrow> active p \<le> MaxActive p)
     \<and> int (length xs) \<le> max 0 (MaxIdle p)
     \<and> 0 \<le> W \<and> W \<le> H \<and> g \<noteq> SendBlocked
     \<and> (g = GetInit \<or> g = GetWait \<longrightarrow> Wait p \<and> 0 < MaxActive p)"

definition untouched :: "addr list \<Rightarrow> pool \<Rightarrow> pool \<Rightarrow> bool" where
  "untouched os p p' \<longleftrightarrow> (\<forall>a \<in> set os. heap p' a = heap p a)"

lemma pok_places:
  assumes "pok p g ys os W H xs bs"
  shows "distinct (xs @ ys @ os @ bs @ closed_log p)"
    and "set xs \<union> set ys \<union> set os \<union> set bs \<union> set (closed_log p) = {..<next_addr p}"
proof -
  have m: "mset (xs @ ys @ os @ bs @ closed_log p) = mset [0..<next_addr p]"
    using assms by (simp add: pok_def)
  from mset_eq_imp_distinct_iff [OF m] show "distinct (xs @ ys @ os @ bs @ closed_log p)" by simp
  from mset_eq_setD [OF m]
  show "set xs \<union> set ys \<union> set os \<union> set bs \<union> set (closed_log p) = {..<next_addr p}"
    by (simp add: Un_assoc atLeast_upt)
qed

lemma holds_ge [simp]: "0 \<le> weight g" "weight g \<le> holds g" "0 \<le> holds g"
  by (cases g; simp add: holds_def)+

text \<open>Moving connections between the idle list and the goroutine.\<close>

lemma pok_moved:
  assumes ok: "pok p g ys os W H xs bs"
    and l: "idle_list s' xs'" and k: "keeps_conns (set (xs @ ys)) (heap p, idle p) s'"
    and o: "owns (fst s') g' ys'"
    and ms: "mset (xs' @ ys') = mset (xs @ ys)"
    and w: "int (length xs') + weight g' = int (length xs) + weight g" "holds g' = holds g"
    and b: "int (length xs') \<le> max 0 (MaxIdle p)" "pclosed p \<Longrightarrow> xs' = []"
      "g' \<notin> {SendBlocked, GetInit, GetWait}"
  shows "pok (set_list p s') g' ys' os W H xs' bs" and "untouched os p (set_list p s')"
proof -
  have conn: "conn (fst s' a) = conn (heap p a)" for a
    using k by (cases s') (simp add: keeps_conns_def)
  have "mset (xs' @ ys' @ os @ bs @ closed_log p) = mset (xs @ ys @ os @ bs @ closed_log p)"
    using ms by (simp flip: add.assoc)
  with ok l o w b conn show "pok (set_list p s') g' ys' os W H xs' bs"
    by (auto simp: pok_def set_list_def tokens_ok_def split: option.splits)
  show "untouched os p (set_list p s')"
    using pok_places(1) [OF ok] k
    by (cases s') (auto simp: untouched_def set_list_def keeps_conns_def)
qed

lemma pok_idle: "pok p g ys os W H xs bs \<Longrightarrow> idle_list (heap p, idle p) xs"
  by (simp add: pok_def)

lemma pok_front: "pok p g ys os W H xs bs \<Longrightarrow> front (idle p) = opt_hd xs"
  using idleq.first_law [OF pok_idle] by simp

lemma pok_rear: "pok p g ys os W H xs bs \<Longrightarrow> rear (idle p) = opt_last xs"
  using idleq.final_law [OF pok_idle] by simp

lemma pok_size: "pok p g ys os W H xs bs \<Longrightarrow> lcount (idle p) = int (length xs)"
  using idleq.size_law [OF pok_idle] by simp

text \<open>A goroutine under the mutex, with a token and no connection, is at \<open>GetLock\<close>.\<close>

lemma pok_relock:
  assumes "pok p g [] os W H xs bs" "weight g = 1"
  shows "pok (dec_active p) GetLock [] os W H xs bs"
  using assms by (auto simp: pok_def dec_active_def tokens_ok_def holds_def split: if_splits)

lemma pok_send:
  assumes "pok p GetLock [] os W H xs bs"
  obtains p' where "and_send (Ready r) p = (Ready r, p', False)"
    "pok p' (Ready r) [] os W H xs bs" "heap p' = heap p"
proof (cases "ch p")
  case None
  with assms have "pok p (Ready r) [] os W H xs bs"
    by (auto simp: pok_def tokens_ok_def holds_def)
  with None that show ?thesis by (simp add: and_send_def send_token_def)
next
  case (Some c)
  show ?thesis
  proof (cases "pclosed p")
    case True
    with assms have "pok p (Ready r) [] os W H xs bs"
      by (auto simp: pok_def tokens_ok_def holds_def)
    with Some True that show ?thesis by (simp add: and_send_def send_token_def)
  next
    case False
    let ?p = "p\<lparr>ch := Some (TokenChan (Suc (tokens c)) (chan_closed c))\<rparr>"
    have "int (tokens c) < MaxActive p" and "pok ?p (Ready r) [] os W H xs bs"
      using assms Some False by (auto simp: pok_def tokens_ok_def holds_def split: if_splits)
    with Some False that [of ?p] show ?thesis by (simp add: and_send_def send_token_def)
  qed
qed

lemma pok_borrow:
  assumes ok: "pok p GetLock [] os W H xs bs"
  obtains x p' ys' xs' where "get_borrow p = Return (x, p')"
    "pok p' (get_goto x) ys' os W H xs' bs" "untouched os p p'"
proof (cases xs)
  case (Cons y zs)
  then obtain s' where s': "popFront (heap p, idle p) = Return s'" "idle_list s' zs"
    "keeps_conns (set xs) (heap p, idle p) s'"
    using idleq.pop_first_law [of "(heap p, idle p)" y zs] pok_idle [OF ok] by auto
  have "pok (set_list p s') (get_goto (BorrowConn y)) [y] os W H zs bs" "untouched os p (set_list p s')"
    by (rule pok_moved [OF ok s'(2), where g' = "get_goto (BorrowConn y)" and ys' = "[y]"];
      use s' Cons ok in \<open>auto simp: pok_def holds_def\<close>)+
  moreover have "get_borrow p = Return (BorrowConn y, set_list p s')"
    using pok_front [OF ok] Cons s'(1) by (simp add: get_borrow_def)
  ultimately show ?thesis using that by blast
next
  case Nil
  with pok_front [OF ok] have f: "front (idle p) = None" by simp
  consider (closed) "pclosed p" | (full) "\<not> pclosed p" "\<not> Wait p" "0 < MaxActive p" "MaxActive p \<le> active p"
    | (dial) "\<not> pclosed p" "\<not> (\<not> Wait p \<and> 0 < MaxActive p \<and> MaxActive p \<le> active p)"
    by blast
  then show ?thesis
  proof cases
    case closed
    with ok have "pok p (get_goto FailClosed) [] os W H xs bs"
      by (auto simp: pok_def tokens_ok_def holds_def)
    with f closed that show ?thesis by (fastforce simp: get_borrow_def untouched_def)
  next
    case full
    with ok have "pok p (get_goto FailExhausted) [] os W H xs bs"
      by (auto simp: pok_def tokens_ok_def holds_def)
    with f full that show ?thesis by (fastforce simp: get_borrow_def untouched_def)
  next
    case dial
    have "active p < MaxActive p" if "0 < MaxActive p"
    proof (cases "Wait p")
      case True
      with ok that dial Nil show ?thesis
        by (auto simp: pok_def tokens_ok_def holds_def split: option.splits)
    qed (use dial that in auto)
    with ok have "pok (p\<lparr>active := active p + 1\<rparr>) (get_goto DialNew) [] os W H xs bs"
      by (auto simp: pok_def tokens_ok_def holds_def)
    moreover have "get_borrow p = Return (DialNew, p\<lparr>active := active p + 1\<rparr>)"
      using f dial by (simp add: get_borrow_def)
    ultimately show ?thesis using that by (simp add: untouched_def)
  qed
qed

lemma pok_prune:
  assumes ok: "pok p GetLock [] os W H xs bs"
  obtains x p' ys' xs' where "get_prune now n i p = Return (x, p')"
    "pok p' (get_goto x) ys' os W H xs' bs" "untouched os p p'"
proof (cases "rear (idle p)")
  case None
  then have "get_prune now n i p = get_borrow p" by (simp add: get_prune_def)
  with pok_borrow [OF ok] that show ?thesis by metis
next
  case (Some y)
  then obtain zs where zs: "xs = zs @ [y]"
    using idleq.repr_final_Some [OF pok_idle [OF ok]] by auto
  show ?thesis
  proof (cases "i < n \<and> returned (heap p y) + IdleTimeout p < now")
    case False
    with Some have "get_prune now n i p = get_borrow p" by (auto simp: get_prune_def)
    with pok_borrow [OF ok] that show ?thesis by metis
  next
    case True
    obtain s' where s': "popBack (heap p, idle p) = Return s'" "idle_list s' zs"
      "keeps_conns (set xs) (heap p, idle p) s'"
      using idleq.pop_final_law [of "(heap p, idle p)" zs y] pok_idle [OF ok] zs by auto
    have "pok (set_list p s') (get_goto (PruneConn y n i)) [y] os W H zs bs"
      "untouched os p (set_list p s')"
      by (rule pok_moved [OF ok s'(2), where g' = "get_goto (PruneConn y n i)" and ys' = "[y]"];
        use s' zs ok in \<open>auto simp: pok_def holds_def\<close>)+
    with Some True s'(1) that show ?thesis by (simp add: get_prune_def)
  qed
qed

lemma pok_enter:
  assumes "pok p GetLock [] os W H xs bs"
  obtains x p' ys' xs' where "get_enter now p = Return (x, p')"
    "pok p' (get_goto x) ys' os W H xs' bs" "untouched os p p'"
  using pok_prune [OF assms] pok_borrow [OF assms] by (metis get_enter_def)

text \<open>Writing the time of return changes no link.\<close>

lemma idle_list_stamp:
  assumes "idle_list (h, l) xs"
  shows "idle_list (h(a := (h a)\<lparr>returned := t\<rparr>), l) xs"
proof -
  have "links (h(a := (h a)\<lparr>returned := t\<rparr>)) None xs = links h None xs"
    by (rule links_cong) auto
  with assms show ?thesis by (simp add: idle_list_def)
qed

lemma pok_stamp:
  assumes "pok p (PutLock (Some a)) [a] os W H xs bs"
  shows "pok (p\<lparr>heap := (heap p)(a := (heap p a)\<lparr>returned := t\<rparr>)\<rparr>) (PutLock (Some a)) [a] os W H xs bs"
proof -
  let ?h = "(heap p)(a := (heap p a)\<lparr>returned := t\<rparr>)"
  have "conn (?h x) = conn (heap p x)" for x by simp
  then show ?thesis using assms idle_list_stamp [of "heap p" "idle p" xs a t]
    by (auto simp: pok_def tokens_ok_def split: option.splits)
qed

lemma set_list_heap [simp]: "set_list (p\<lparr>heap := h\<rparr>) s = set_list p s"
  by (simp add: set_list_def)

lemma pok_put:
  assumes ok: "pok p (PutLock (Some a)) [a] os W H xs bs"
  obtains g' p' ys' xs' where "of_exec (put_locked now (Some a) p) p put_finish = (g', p', False)"
    "pok p' g' ys' os W H xs' bs" "untouched os p p'"
proof (cases "pclosed p")
  case True
  with ok have "pok p (PutClose a) [a] os W H xs bs" by (auto simp: pok_def holds_def)
  with True that show ?thesis
    by (simp add: put_locked_def of_exec_def put_finish_def untouched_def)
next
  case False
  let ?h = "(heap p)(a := (heap p a)\<lparr>returned := now\<rparr>)"
  let ?p = "p\<lparr>heap := ?h\<rparr>"
  have ok1: "pok ?p (PutLock (Some a)) [a] os W H xs bs" by (rule pok_stamp [OF ok])
  have a: "a \<notin> set xs" "a \<notin> set os" using pok_places(1) [OF ok] by auto
  have u: "untouched os p ?p" using a by (auto simp: untouched_def)
  have l1: "idle_list (?h, idle p) xs" using pok_idle [OF ok1] by simp
  show ?thesis
  proof (cases "MaxIdle p < int (length xs) + 1")
    case True
    let ?v = "last (a # xs)" and ?l = "butlast (a # xs)"
    obtain s1 s2 where s: "pushFront a (?h, idle p) = Return s1" "lcount (snd s1) = int (length xs) + 1"
      "rear (snd s1) = Some ?v" "popBack s1 = Return s2" "idle_list s2 ?l"
      "keeps_conns (set (a # xs)) (?h, idle p) s2"
      using idleq.push_overflow [OF l1 a(1), unfolded comp_def] by blast
    have ms: "mset (?l @ [?v]) = mset (xs @ [a])"
      by (simp del: butlast.simps last.simps)
    have "pok (set_list ?p s2) (PutClose ?v) [?v] os W H ?l bs" "untouched os ?p (set_list ?p s2)"
      by (rule pok_moved [OF ok1 s(5), where g' = "PutClose ?v" and ys' = "[?v]", OF _ _ ms];
        use s ok1 False in \<open>auto simp: pok_def holds_def insert_commute\<close>)+
    moreover have "of_exec (put_locked now (Some a) p) p put_finish = (PutClose ?v, set_list p s2, False)"
      using s True False by (simp add: put_locked_def of_exec_def put_finish_def Let_def)
    ultimately show ?thesis using that u by (simp add: untouched_def)
  next
    case small: False
    obtain s1 where s: "pushFront a (?h, idle p) = Return s1" "idle_list s1 (a # xs)"
      "keeps_conns (set (a # xs)) (?h, idle p) s1"
      using idleq.push_law [OF l1 a(1)] by blast
    have "pok (set_list ?p s1) GetLock [] os W H (a # xs) bs" "untouched os ?p (set_list ?p s1)"
      by (rule pok_moved [OF ok1 s(2), where g' = GetLock and ys' = "[]"];
        use s small ok1 False in \<open>auto simp: pok_def holds_def insert_commute\<close>)+
    note p1 = this
    obtain p' where p': "and_send (Ready PutDone) (set_list p s1) = (Ready PutDone, p', False)"
      "pok p' (Ready PutDone) [] os W H (a # xs) bs" "heap p' = heap (set_list p s1)"
      using pok_send p1(1) by (metis set_list_heap)
    have "lcount (snd s1) = int (length xs) + 1" using idleq.size_law [OF s(2)] by simp
    with s(1) small False p'(1)
    have "of_exec (put_locked now (Some a) p) p put_finish = (Ready PutDone, p', False)"
      by (simp add: put_locked_def of_exec_def put_finish_def Let_def)
    with p' p1(2) u that show ?thesis by (simp add: untouched_def)
  qed
qed

lemma pok_close_conn:
  assumes "pok p g [a] os W H xs bs" "weight g' = weight g" "holds g' = holds g"
    and "g' \<notin> {SendBlocked, GetInit, GetWait}" "owns (heap p) g' []"
  shows "pok (close_conn a p) g' [] os W H xs bs"
  using assms by (auto simp: pok_def close_conn_def tokens_ok_def split: option.splits)

lemma pok_register:
  assumes ok: "pok p (Register a) [a] os W H xs bs"
  defines "c \<equiv> conn (heap p a)"
  shows "pok (p\<lparr>poolConnMap := (poolConnMap p)(c \<mapsto> a)\<rparr>) (Ready (GotConn c)) [] os W H xs (a # bs)"
proof -
  have a: "a \<notin> set bs" "a < next_addr p" "\<And>x. x \<in> set bs \<Longrightarrow> x < next_addr p"
    using pok_places [OF ok] by auto
  have inj: "inj_on (\<lambda>a. conn (heap p a)) {..<next_addr p}" and bs: "set bs = ran (poolConnMap p)"
    and cn: "\<And>c x. poolConnMap p c = Some x \<Longrightarrow> conn (heap p x) = c"
    using ok by (auto simp: pok_def)
  have "poolConnMap p c = None"
  proof (rule ccontr)
    assume "poolConnMap p c \<noteq> None"
    then obtain x where x: "poolConnMap p c = Some x" by auto
    then have "x \<in> set bs" using bs by (auto simp: ran_def)
    with x cn a inj have "x = a" by (auto simp: c_def dest: inj_onD)
    with \<open>x \<in> set bs\<close> a show False by simp
  qed
  then have "ran ((poolConnMap p)(c \<mapsto> a)) = insert a (ran (poolConnMap p))" by simp
  with ok show ?thesis
    by (auto simp: pok_def tokens_ok_def holds_def c_def split: option.splits if_splits)
qed

lemma pok_lookup:
  assumes ok: "pok p (PutLookup c) [] os W H xs bs"
  obtains ys' bs' where
    "pok (p\<lparr>poolConnMap := (poolConnMap p)(c := None)\<rparr>) (PutLock (poolConnMap p c)) ys' os W H xs bs'"
proof (cases "poolConnMap p c")
  case None
  then have "(poolConnMap p)(c := None) = poolConnMap p" by (simp add: fun_upd_idem)
  with ok None have "pok (p\<lparr>poolConnMap := (poolConnMap p)(c := None)\<rparr>) (PutLock None) [] os W H xs bs"
    by (auto simp: pok_def tokens_ok_def holds_def split: option.splits if_splits)
  with None that show ?thesis by simp
next
  case (Some a)
  have bs: "set bs = ran (poolConnMap p)" and cn: "\<And>c x. poolConnMap p c = Some x \<Longrightarrow> conn (heap p x) = c"
    using ok by (auto simp: pok_def)
  have a: "a \<in> set bs" using Some bs by (auto simp: ran_def)
  have d: "distinct bs" using pok_places(1) [OF ok] by simp
  have "poolConnMap p c' \<noteq> Some a" if "c' \<noteq> c" for c' using that Some cn by metis
  then have "ran ((poolConnMap p)(c := None)) = set (remove1 a bs)"
    unfolding set_remove1_eq [OF d] bs ran_def fun_upd_apply using Some
    by (intro set_eqI) (auto split: if_splits, metis option.inject)
  moreover have "mset bs = add_mset a (mset (remove1 a bs))" using a by simp
  moreover have "int (length bs) = 1 + int (length (remove1 a bs))"
    using length_pos_if_in_set [OF a] by (simp only: length_remove1 a if_True)
  ultimately obtain bs' where b: "ran ((poolConnMap p)(c := None)) = set bs'"
    "mset bs = add_mset a (mset bs')" "int (length bs) = 1 + int (length bs')"
    by blast
  have "pok (p\<lparr>poolConnMap := (poolConnMap p)(c := None)\<rparr>) (PutLock (Some a)) [a] os W H xs bs'"
    using ok b by (auto simp: pok_def tokens_ok_def holds_def split: option.splits if_splits)
  with Some that show ?thesis by simp
qed

lemma idle_list_cong:
  assumes "idle_list (h, l) xs" "\<And>a. a \<in> set xs \<Longrightarrow> h' a = h a"
  shows "idle_list (h', l) xs"
proof -
  have "links h' None xs = links h None xs" by (rule links_cong) (use assms(2) in auto)
  with assms(1) show ?thesis by (simp add: idle_list_def)
qed

lemma pok_dial:
  fixes now :: time
  assumes ok: "pok p Dialling [] os W H xs bs"
    and fr: "\<And>a. a < next_addr p \<Longrightarrow> conn (heap p a) \<noteq> c"
  defines "a \<equiv> next_addr p" and "p' \<equiv> snd (new_conn c now p)"
  shows "pok p' (Register a) [a] os W H xs bs" and "untouched os p p'"
proof -
  define h where "h = (heap p)(a := \<lparr>conn = c, returned = 0, created = now, nxt = None, prv = None\<rparr>)"
  have p': "p' = p\<lparr>heap := h, next_addr := Suc a\<rparr>" by (simp add: p'_def new_conn_def h_def a_def)
  have h: "h x = heap p x" if "x \<noteq> a" for x using that by (simp add: h_def)
  have lt: "x \<noteq> a" if "x \<in> set xs \<union> set os \<union> set bs" for x
    using pok_places(2) [OF ok] that unfolding a_def by auto
  have i: "idle_list (h, idle p) xs"
    by (rule idle_list_cong [OF pok_idle [OF ok]]) (use lt h in auto)
  have "conn (h x) \<noteq> c" if "x < a" for x using that fr h unfolding a_def by simp
  moreover have "inj_on (\<lambda>x. conn (h x)) {..<a}"
    using ok h by (subst inj_on_cong [where g = "\<lambda>x. conn (heap p x)"]) (auto simp: pok_def a_def)
  ultimately have inj: "inj_on (\<lambda>x. conn (h x)) {..<Suc a}"
    by (auto simp: lessThan_Suc h_def)
  have m: "conn (h x) = d" if "poolConnMap p d = Some x" for d x
  proof -
    have "x \<in> set bs" using ok that by (auto simp: pok_def ran_def)
    with lt h ok that show ?thesis by (auto simp: pok_def)
  qed
  have "mset [0..<Suc a] = add_mset a (mset [0..<next_addr p])" by (simp add: a_def)
  with ok i inj m show "pok p' (Register a) [a] os W H xs bs" unfolding p'
    by (auto simp: pok_def tokens_ok_def holds_def simp del: upt_Suc mset_upt split: option.splits if_splits)
  show "untouched os p p'" using lt h by (auto simp: untouched_def p')
qed

lemma pok_close_locked:
  assumes ok: "pok p CloseLock [] os W H xs bs" and c: "close_locked p = (pco, p')"
  obtains ys' xs' where "pok p' (Closing pco) ys' os W H xs' bs" "heap p' = heap p"
proof (cases "pclosed p")
  case True
  with ok c have "pok p' (Closing pco) [] os W H xs bs"
    by (auto simp: pok_def close_locked_def tokens_ok_def holds_def split: option.splits if_splits)
  with True c that show ?thesis by (auto simp: close_locked_def)
next
  case False
  have "pok p' (Closing pco) xs os W H [] bs"
    using ok c False pok_front [OF ok] pok_size [OF ok] idle_list_chain [OF pok_idle [OF ok]]
    by (auto simp: pok_def close_locked_def tokens_ok_def holds_def split: option.splits if_splits)
  with False c that show ?thesis by (auto simp: close_locked_def)
qed

lemma pok_closing:
  assumes ok: "pok p (Closing (Some a)) ys os W H xs bs"
  shows "pok (close_conn a p) (Closing (nxt (heap p a))) (tl ys) os W H xs bs"
proof -
  obtain zs where "ys = a # zs" using ok by (cases ys) (auto simp: pok_def)
  with ok show ?thesis
    by (auto simp: pok_def close_conn_def tokens_ok_def holds_def split: option.splits)
qed

lemma pok_init:
  assumes ok: "pok p GetInit [] os W H xs bs"
  shows "pok (lazyInit p) GetWait [] os W H xs bs"
  using ok by (auto simp: pok_def lazyInit_def tokens_ok_def holds_def split: option.splits if_splits)

lemma pok_recv:
  assumes ok: "pok p GetWait [] os W H xs bs" and r: "recv_token p = Some p'"
  shows "pok p' GetLock [] os W H xs bs" and "heap p' = heap p"
  using ok r by (auto simp: pok_def recv_token_def tokens_ok_def holds_def split: option.splits if_splits)

lemma pok_start:
  assumes ok: "pok p (Ready r) [] os W H xs bs"
  shows "pok p (start_call c p) [] os W H xs bs"
  using ok by (auto simp: pok_def start_call_def tokens_ok_def holds_def split: op.splits if_splits option.splits)

lemma pok_owns: "pok p g ys os W H xs bs \<Longrightarrow> owns (heap p) g ys"
  by (simp add: pok_def)

lemma untouched_refl [simp]: "heap p' = heap p \<Longrightarrow> untouched os p p'"
  by (simp add: untouched_def)

text \<open>
  Every step of a goroutine keeps the invariant, and the only step that loses the mutex is a
  \<open>Put\<close> of an unknown connection on an open pool.
\<close>

lemma pok_gstep:
  assumes ok: "pok p g ys os W H xs bs" and st: "gstep inp g p = Some (g', p', lost)"
    and fr: "fresh_dial inp g p"
  shows "(\<exists>ys' xs' bs'. pok p' g' ys' os W H xs' bs') \<and> untouched os p p'
    \<and> (lost \<longleftrightarrow> g = PutLock None \<and> \<not> pclosed p)"
proof (cases g)
  case (Ready r)
  with ok have "ys = []" by (simp add: pok_def)
  with ok Ready st pok_start show ?thesis by fastforce
next
  case GetInit
  with ok have "ys = []" by (simp add: pok_def)
  with ok GetInit st pok_init have "pok p' g' [] os W H xs bs" by fastforce
  with GetInit st show ?thesis by (auto simp: lazyInit_def)
next
  case GetWait
  with ok have "ys = []" by (simp add: pok_def)
  with ok GetWait st pok_recv show ?thesis by (fastforce split: option.splits)
next
  case GetLock
  with ok have "ys = []" by (simp add: pok_def)
  with ok GetLock obtain x q ys' xs' where "get_enter (in_now inp) p = Return (x, q)"
    "pok q (get_goto x) ys' os W H xs' bs" "untouched os p q"
    using pok_enter by metis
  with GetLock st show ?thesis by (auto simp: of_exec_def)
next
  case (PruneClose pc n i)
  with ok have "ys = [pc]" by (simp add: pok_def)
  with ok PruneClose have "pok (close_conn pc p) (PruneRelock n i) [] os W H xs bs"
    by (auto intro: pok_close_conn simp: holds_def)
  with PruneClose st show ?thesis by (auto simp: close_conn_def)
next
  case (PruneRelock n i)
  with ok have "ys = []" by (simp add: pok_def)
  with ok PruneRelock have "pok (dec_active p) GetLock [] os W H xs bs" by (simp add: pok_relock)
  then obtain x q ys' xs' where "get_prune (in_now inp) n (i + 1) (dec_active p) = Return (x, q)"
    "pok q (get_goto x) ys' os W H xs' bs" "untouched os (dec_active p) q"
    using pok_prune by metis
  with PruneRelock st show ?thesis by (auto simp: of_exec_def untouched_def dec_active_def)
next
  case (Testing pc)
  with ok have "pok p (Register pc) ys os W H xs bs" "pok p (BorrowClose pc) ys os W H xs bs"
    by (auto simp: pok_def holds_def)
  with Testing st show ?thesis by (auto split: if_splits)
next
  case (BorrowClose pc)
  with ok have "ys = [pc]" by (simp add: pok_def)
  with ok BorrowClose have "pok (close_conn pc p) BorrowRelock [] os W H xs bs"
    by (auto intro: pok_close_conn simp: holds_def)
  with BorrowClose st show ?thesis by (auto simp: close_conn_def)
next
  case BorrowRelock
  with ok have "ys = []" by (simp add: pok_def)
  with ok BorrowRelock have "pok (dec_active p) GetLock [] os W H xs bs" by (simp add: pok_relock)
  then obtain x q ys' xs' where "get_borrow (dec_active p) = Return (x, q)"
    "pok q (get_goto x) ys' os W H xs' bs" "untouched os (dec_active p) q"
    using pok_borrow by metis
  with BorrowRelock st show ?thesis by (auto simp: of_exec_def untouched_def dec_active_def)
next
  case Dialling
  with ok have y: "ys = []" by (simp add: pok_def)
  show ?thesis
  proof (cases "in_dial inp")
    case None
    have "pok p DialFailed [] os W H xs bs" using ok y Dialling by (auto simp: pok_def holds_def)
    with st Dialling None show ?thesis by auto
  next
    case (Some c)
    have "conn (heap p a) \<noteq> c" if "a < next_addr p" for a
      using fr Some that Dialling by (simp add: fresh_dial_def list_all_iff)
    from pok_dial [OF ok [unfolded Dialling y] this] st Dialling Some show ?thesis
      by (auto simp: new_conn_def)
  qed
next
  case DialFailed
  with ok have "ys = []" by (simp add: pok_def)
  with ok DialFailed have "pok (dec_active p) GetLock [] os W H xs bs" by (simp add: pok_relock)
  then obtain q where "and_send (Ready GotNil) (dec_active p) = (Ready GotNil, q, False)"
    "pok q (Ready GotNil) [] os W H xs bs" "heap q = heap (dec_active p)" using pok_send by metis
  with DialFailed st show ?thesis by (auto simp: untouched_def dec_active_def)
next
  case (Register pc)
  with ok have "ys = [pc]" by (simp add: pok_def)
  with ok Register pok_register st show ?thesis by (fastforce simp: Let_def)
next
  case (PutLookup c)
  with ok have "ys = []" by (simp add: pok_def)
  with ok PutLookup obtain ys' bs' where
    "pok (p\<lparr>poolConnMap := (poolConnMap p)(c := None)\<rparr>) (PutLock (poolConnMap p c)) ys' os W H xs bs'"
    using pok_lookup by metis
  with PutLookup st show ?thesis by auto
next
  case (PutLock pco)
  show ?thesis
  proof (cases pco)
    case None
    have y: "ys = []" using ok PutLock None by (simp add: pok_def)
    show ?thesis
    proof (cases "pclosed p")
      case True
      have "pok p (Ready PutDone) [] os W H xs bs"
        using ok y PutLock None True by (auto simp: pok_def tokens_ok_def holds_def)
      with st PutLock None True show ?thesis
        by (auto simp: put_locked_def of_exec_def put_finish_def and_send_def send_token_def split: option.splits)
    next
      case False
      have "pok p Crashed [] os W H xs bs"
        using ok y PutLock None by (auto simp: pok_def tokens_ok_def holds_def)
      with st PutLock None False show ?thesis by (auto simp: put_locked_def of_exec_def)
    qed
  next
    case (Some a)
    with ok have "ys = [a]" using PutLock by (simp add: pok_def)
    with ok PutLock Some have "pok p (PutLock (Some a)) [a] os W H xs bs" by simp
    then obtain g2 q ys' xs' where "of_exec (put_locked (in_now inp) (Some a) p) p put_finish = (g2, q, False)"
      "pok q g2 ys' os W H xs' bs" "untouched os p q" using pok_put by metis
    with st PutLock Some show ?thesis by auto
  qed
next
  case (PutClose pc)
  with ok have "ys = [pc]" by (simp add: pok_def)
  with ok PutClose have "pok (close_conn pc p) PutRelock [] os W H xs bs"
    by (auto intro: pok_close_conn simp: holds_def)
  with PutClose st show ?thesis by (auto simp: close_conn_def)
next
  case PutRelock
  with ok have "ys = []" by (simp add: pok_def)
  with ok PutRelock have "pok (dec_active p) GetLock [] os W H xs bs" by (simp add: pok_relock)
  then obtain q where "and_send (Ready PutDone) (dec_active p) = (Ready PutDone, q, False)"
    "pok q (Ready PutDone) [] os W H xs bs" "heap q = heap (dec_active p)" using pok_send by metis
  with PutRelock st show ?thesis by (auto simp: untouched_def dec_active_def)
next
  case CloseLock
  with ok have "ys = []" by (simp add: pok_def)
  moreover obtain pco q where "close_locked p = (pco, q)" by fastforce
  moreover from calculation ok CloseLock obtain ys' xs' where
    "pok q (Closing pco) ys' os W H xs' bs" "heap q = heap p" using pok_close_locked by metis
  ultimately show ?thesis using CloseLock st by auto
next
  case (Closing pco)
  show ?thesis
  proof (cases pco)
    case None
    have "pok p (Ready CloseDone) ys os W H xs bs"
      using ok Closing None by (cases ys) (auto simp: pok_def tokens_ok_def holds_def)
    with st Closing None show ?thesis by auto
  next
    case (Some a)
    with ok Closing pok_closing have "pok (close_conn a p) (Closing (nxt (heap p a))) (tl ys) os W H xs bs"
      by metis
    with st Closing Some show ?thesis by (auto simp: close_conn_def)
  qed
qed (use st in auto)

subsection \<open>From one goroutine to all of them\<close>

definition config :: "pool \<Rightarrow> int \<times> int \<times> int \<times> bool \<times> int" where
  "config p = (MaxIdle p, MaxActive p, IdleTimeout p, Wait p, MaxConnLifetime p)"

lemma config_set_list [simp]: "config (set_list p s) = config p"
  by (simp add: config_def set_list_def)

lemma config_simps [simp]:
  "config (dec_active p) = config p" "config (close_conn a p) = config p"
  "config (lazyInit p) = config p" "config (p\<lparr>poolConnMap := M\<rparr>) = config p"
  "config (p\<lparr>active := k\<rparr>) = config p" "config (snd (new_conn c now p)) = config p"
  "config (snd (close_locked p)) = config p"
  by (auto simp: config_def dec_active_def close_conn_def lazyInit_def new_conn_def close_locked_def)

lemma get_borrow_config: "get_borrow p = Return (x, p') \<Longrightarrow> config p' = config p"
  by (auto simp: get_borrow_def split: option.splits if_splits)

lemma get_prune_config: "get_prune now n i p = Return (x, p') \<Longrightarrow> config p' = config p"
  by (auto simp: get_prune_def dest: get_borrow_config split: option.splits if_splits)

lemma get_enter_config: "get_enter now p = Return (x, p') \<Longrightarrow> config p' = config p"
  by (auto simp: get_enter_def dest: get_borrow_config get_prune_config split: if_splits)

lemma put_locked_config: "put_locked now a p = Return (x, p') \<Longrightarrow> config p' = config p"
  by (auto simp: put_locked_def Let_def split: option.splits if_splits)

lemma send_token_config: "send_token p = Some p' \<Longrightarrow> config p' = config p"
  by (auto simp: send_token_def config_def split: option.splits if_splits)

lemma and_send_config: "and_send g p = (g', p', b) \<Longrightarrow> config p' = config p"
  by (auto simp: and_send_def dest: send_token_config split: option.splits)

lemma put_finish_config: "put_finish v p = (g', p', b) \<Longrightarrow> config p' = config p"
  by (auto simp: put_finish_def dest: and_send_config split: option.splits)

lemma of_exec_config:
  assumes "of_exec m p k = (g', p', b)"
    and "\<And>x q. m = Return (x, q) \<Longrightarrow> config q = config p"
    and "\<And>x q g r c. k x q = (g, r, c) \<Longrightarrow> config r = config q"
  shows "config p' = config p"
  using assms by (fastforce simp: of_exec_def split: exec.splits prod.splits)

lemma recv_token_config: "recv_token p = Some p' \<Longrightarrow> config p' = config p"
  by (auto simp: recv_token_def config_def split: option.splits if_splits)

lemma gstep_config:
  assumes "gstep inp g p = Some (g', p', b)"
  shows "config p' = config p"
  using assms
proof (cases g)
  case GetLock
  with assms show ?thesis by (auto elim!: of_exec_config dest: get_enter_config)
next
  case (PruneRelock n i)
  with assms have "of_exec (get_prune (in_now inp) n (i + 1) (dec_active p)) (dec_active p)
    (\<lambda>x p'. (get_goto x, p', False)) = (g', p', b)" by simp
  then have "config p' = config (dec_active p)"
    by (rule of_exec_config) (auto dest: get_prune_config)
  then show ?thesis by simp
next
  case BorrowRelock
  with assms have "of_exec (get_borrow (dec_active p)) (dec_active p)
    (\<lambda>x p'. (get_goto x, p', False)) = (g', p', b)" by simp
  then have "config p' = config (dec_active p)"
    by (rule of_exec_config) (auto dest: get_borrow_config)
  then show ?thesis by simp
next
  case (PutLock pco)
  with assms show ?thesis by (auto elim!: of_exec_config dest: put_locked_config put_finish_config)
next
  case (Closing pco)
  with assms show ?thesis by (cases pco) auto
next
  case CloseLock
  with assms show ?thesis by (auto split: prod.splits) (metis config_simps(7) snd_conv)
next
  case Dialling
  with assms show ?thesis by (auto split: option.splits prod.splits) (metis config_simps(6) snd_conv)
qed (auto dest: and_send_config recv_token_config split: option.splits if_splits simp: Let_def)

definition thread_ok :: "pool \<Rightarrow> gpc \<Rightarrow> bool" where
  "thread_ok p g \<longleftrightarrow> g \<noteq> SendBlocked \<and> (g = GetInit \<or> g = GetWait \<longrightarrow> Wait p \<and> 0 < MaxActive p)"

text \<open>The invariant of the system is what a goroutine sees that does nothing.\<close>

definition sys_view :: "sys \<Rightarrow> addr list list \<Rightarrow> addr list \<Rightarrow> addr list \<Rightarrow> bool" where
  "sys_view s own xs bs \<longleftrightarrow>
     pok (pl s) (Ready NoCall) [] (concat own) (sum_list (map weight (threads s)))
       (sum_list (map holds (threads s))) xs bs
     \<and> list_all2 (owns (heap (pl s))) (threads s) own
     \<and> list_all (thread_ok (pl s)) (threads s)
     \<and> (stuck s \<longrightarrow> Crashed \<in> set (threads s))"

lemma pok_view:
  assumes "owns (heap p) g ys" "thread_ok p g" "0 \<le> W" "W \<le> H"
  shows "pok p (Ready r) [] (as @ ys @ cs) (W + weight g) (H + holds g) xs bs
    \<longleftrightarrow> pok p g ys (as @ cs) W H xs bs"
proof -
  have e: "mset (xs @ [] @ (as @ ys @ cs) @ bs @ closed_log p) = mset (xs @ ys @ (as @ cs) @ bs @ closed_log p)"
    by (simp add: ac_simps)
  have t: "int (length bs) + 0 + (H + holds g) = int (length bs) + holds g + H" by simp
  show ?thesis unfolding pok_def e using assms t
    by (auto simp: thread_ok_def holds_def add.assoc add.commute add.left_commute)
qed

lemma owns_cong:
  assumes "owns h t zs" "\<And>a. a \<in> set zs \<Longrightarrow> h' a = h a"
  shows "owns h' t zs"
proof -
  have "chain h' zs = chain h zs" by (rule chain_cong) (simp add: assms(2))
  with assms show ?thesis by (cases t) auto
qed

lemma pok_thread_ok: "pok p g ys os W H xs bs \<Longrightarrow> thread_ok p g"
  by (auto simp: pok_def thread_ok_def)

lemma thread_ok_config: "config p' = config p \<Longrightarrow> thread_ok p' g = thread_ok p g"
  by (simp add: thread_ok_def config_def)

lemma gstep_lost: "gstep inp (PutLock None) p = Some (g', p', True) \<Longrightarrow> \<not> pclosed p \<Longrightarrow> g' = Crashed"
  by (simp add: put_locked_def of_exec_def)

lemma weights_nonneg [simp]:
  "0 \<le> sum_list (map weight gs)" "sum_list (map weight gs) \<le> sum_list (map holds gs)"
  by (induction gs) (auto intro: add_mono add_nonneg_nonneg)

lemma sys_view_step:
  assumes v: "sys_view s own xs bs" and st: "sys_step inp i s = Some s'" and fr: "fresh_dial inp (threads s ! i) (pl s)"
  obtains own' xs' bs' where "sys_view s' own' xs' bs'"
proof -
  define p g ys where "p = pl s" and "g = threads s ! i" and "ys = own ! i"
  obtain g' p' lost where i: "i < length (threads s)" and g: "gstep inp g p = Some (g', p', lost)"
    and s': "s' = \<lparr>pl = p', threads = (threads s)[i := g'], stuck = stuck s \<or> lost\<rparr>"
    using st by (auto simp: sys_step_def p_def g_def split: if_splits option.splits)
  define A C where "A = take i (threads s)" and "C = drop (Suc i) (threads s)"
  define B D where "B = take i own" and "D = drop (Suc i) own"
  have l2: "list_all2 (owns (heap p)) (threads s) own" using v by (simp add: sys_view_def p_def)
  then have len: "length own = length (threads s)" by (simp add: list_all2_lengthD)
  have t: "threads s = A @ g # C" and o: "own = B @ ys # D"
    using i len by (simp_all add: A_def C_def B_def D_def g_def ys_def id_take_nth_drop)
  have t': "threads s' = A @ g' # C" using i by (simp add: s' A_def C_def upd_conv_take_nth_drop)
  have "length A = length B" using len by (simp add: A_def B_def)
  with l2 t o have AB: "list_all2 (owns (heap p)) A B" "owns (heap p) g ys" "list_all2 (owns (heap p)) C D"
    by (simp_all add: list_all2_append)
  define W H where "W = sum_list (map weight (A @ C))" and "H = sum_list (map holds (A @ C))"
  have wh: "0 \<le> W" "W \<le> H" by (simp_all add: W_def H_def del: map_append sum_list_append)
  have tok: "thread_ok p g" "list_all (thread_ok p) (A @ C)"
    using v t by (simp_all add: sys_view_def p_def)
  have sums: "sum_list (map weight (A @ x # C)) = W + weight x"
    "sum_list (map holds (A @ x # C)) = H + holds x" for x by (simp_all add: W_def H_def)
  have "pok p (Ready NoCall) [] (concat B @ ys @ concat D) (W + weight g) (H + holds g) xs bs"
    using v unfolding sys_view_def t sums o p_def by simp
  with pok_view [OF AB(2) tok(1) wh] have "pok p g ys (concat B @ concat D) W H xs bs" by simp
  from pok_gstep [OF this g] fr [folded p_def g_def] obtain ys' xs' bs' where
    k: "pok p' g' ys' (concat B @ concat D) W H xs' bs'" "untouched (concat B @ concat D) p p'"
    and lost: "lost \<longleftrightarrow> g = PutLock None \<and> \<not> pclosed p" by blast
  have "owns (heap p') x zs" if "owns (heap p) x zs" "zs \<in> set (B @ D)" for x zs
    using that k(2) by (intro owns_cong [OF that(1)]) (auto simp: untouched_def)
  then have "list_all2 (owns (heap p')) A B" "list_all2 (owns (heap p')) C D"
    using AB by (auto elim!: list_all2_mono [rotated] simp: list_all2_conv_all_nth)
  then have own': "list_all2 (owns (heap p')) (A @ g' # C) (B @ ys' # D)"
    using pok_owns [OF k(1)] by (simp add: list_all2_appendI)
  have "pok p' (Ready NoCall) [] (concat B @ ys' @ concat D) (W + weight g') (H + holds g') xs' bs'"
    using pok_view [OF pok_owns [OF k(1)] pok_thread_ok [OF k(1)] wh] k(1) by simp
  moreover have "list_all (thread_ok p') (A @ g' # C)"
  proof -
    have "thread_ok p' = thread_ok p" using thread_ok_config [OF gstep_config [OF g]] by blast
    with tok(2) pok_thread_ok [OF k(1)] show ?thesis by simp
  qed
  moreover have "Crashed \<in> set (A @ g' # C)" if "stuck s \<or> lost"
  proof (cases lost)
    case True
    with lost g gstep_lost show ?thesis by auto
  next
    case False
    with that v t have "Crashed \<in> set (A @ g # C)" by (simp add: sys_view_def)
    moreover have "g \<noteq> Crashed" using g by auto
    ultimately show ?thesis by auto
  qed
  ultimately have "sys_view s' (B @ ys' # D) xs' bs'"
    using own' unfolding sys_view_def t' sums by (auto simp: s')
  with that show ?thesis .
qed

text \<open>A new pool: no connection yet; the numbers of the configuration are arbitrary.\<close>

lemma sys_view_start: "sys_view (start_sys (new_pool mi ma it w ml) n) (replicate n []) [] []"
proof -
  have "concat (replicate n []) = ([] :: addr list)" by (induction n) auto
  moreover have "sum_list (map weight (replicate n (Ready NoCall))) = 0"
    "sum_list (map holds (replicate n (Ready NoCall))) = 0"
    by (induction n) (auto simp: holds_def)
  ultimately show ?thesis
    by (auto simp: sys_view_def start_sys_def new_pool_def pok_def tokens_ok_def holds_def
        thread_ok_def list_all2_conv_all_nth list_all_iff)
qed

lemma reachable_view:
  assumes "reachable (new_pool mi ma it w ml) n s"
  obtains own xs bs where "sys_view s own xs bs"
proof -
  from assms have "\<exists>own xs bs. sys_view s own xs bs"
  proof induction
    case start
    show ?case using sys_view_start by blast
  next
    case (step s inp i s')
    from step.IH step.hyps(2,3) show ?case by (meson sys_view_step)
  qed
  with that show ?thesis by blast
qed

lemmas sys_view_facts = sys_view_def pok_def

lemma reachable_config:
  "reachable p0 n s \<Longrightarrow> config (pl s) = config p0 \<and> length (threads s) = n"
proof (induction rule: reachable.induct)
  case (step s inp i s')
  then show ?case
    by (auto simp: sys_step_def dest!: gstep_config split: if_splits option.splits)
qed (simp add: start_sys_def)

lemma config_new_pool:
  "config p = config (new_pool mi ma it w ml) \<longleftrightarrow>
    MaxIdle p = mi \<and> MaxActive p = ma \<and> IdleTimeout p = it \<and> Wait p = w \<and> MaxConnLifetime p = ml"
  by (auto simp: config_def new_pool_def)

section \<open>Properties of the pool\<close>

definition demo_sched :: "(input \<times> nat) list" where
  "demo_sched =
     (let e = (\<lambda>c d. \<lparr>in_op = c, in_now = 5, in_test_ok = True, in_dial = d\<rparr>) in
      [(e OpGet None, 0), (e OpGet None, 1), (e OpGet None, 0), (e OpGet None, 0), (e OpGet None, 0),
       (e OpGet (Some 7), 0), (e OpGet None, 0)])"

text \<open>
  C3. Whatever the interleaving of \<open>Get\<close>, \<open>Put\<close> and \<open>Close\<close>, and whatever closers clients
  put back: the idle count stays between zero and \<open>MaxIdle\<close>, it is at most the active count,
  the active count never passes \<open>MaxActive\<close> (with or without \<open>Wait\<close>), and no goroutine
  blocks on the token channel while it holds the mutex.
\<close>

theorem pool_stats_bounds:
  assumes "reachable (new_pool mi ma it w ml) n s"
  shows "0 \<le> IdleCount (pool_Stats (pl s)) \<and> IdleCount (pool_Stats (pl s)) \<le> max 0 mi
    \<and> IdleCount (pool_Stats (pl s)) \<le> ActiveCount (pool_Stats (pl s))
    \<and> (if 0 < ma then ActiveCount (pool_Stats (pl s)) \<le> ma else True)
    \<and> SendBlocked \<notin> set (threads s)"
proof -
  obtain own xs bs where v: "sys_view s own xs bs" using reachable_view [OF assms] .
  then have "pok (pl s) (Ready NoCall) [] (concat own) (sum_list (map weight (threads s)))
      (sum_list (map holds (threads s))) xs bs" by (simp add: sys_view_def)
  note this pok_size [OF this]
  moreover have "MaxIdle (pl s) = mi" "MaxActive (pl s) = ma"
    using reachable_config [OF assms] by (simp_all add: config_new_pool)
  moreover have "SendBlocked \<notin> set (threads s)"
    using v by (auto simp: sys_view_def thread_ok_def list_all_iff)
  ultimately show ?thesis by (auto simp: pool_Stats_def pok_def)
qed

theorem pool_stats_bounds_witness:
  "\<exists>s. run_sched demo_sched (start_sys (new_pool 1 2 0 True 0) 2) = Some s
    \<and> threads s ! 0 = Ready (GotConn 7) \<and> ActiveCount (pool_Stats (pl s)) \<le> 2"
proof -
  let ?s0 = "start_sys (new_pool 1 2 0 True 0) 2"
  have "case run_sched demo_sched ?s0 of None \<Rightarrow> False | Some s \<Rightarrow> threads s ! 0 = Ready (GotConn 7)"
    by code_simp
  then obtain s where s: "run_sched demo_sched ?s0 = Some s" "threads s ! 0 = Ready (GotConn 7)"
    by (auto split: option.splits)
  have "reachable (new_pool 1 2 0 True 0) 2 s"
    using run_sched_reachable [OF reachable.start s(1)] .
  from pool_stats_bounds [OF this] s show ?thesis by auto
qed

text \<open>
  C4. A connection is in one place at a time: it is closed at most once, a connection that a
  client holds is neither idle nor closed, no two clients hold the same one, and an idle
  connection is not closed.
\<close>

theorem pool_conn_one_place:
  assumes "reachable (new_pool mi ma it w ml) n s"
  defines "p \<equiv> pl s"
  shows "distinct (closed_log p) \<and> set (closed_log p) \<subseteq> {..<next_addr p}
    \<and> (\<exists>xs. idle_list (heap p, idle p) xs \<and> set xs \<inter> (ran (poolConnMap p) \<union> set (closed_log p)) = {})
    \<and> ran (poolConnMap p) \<inter> set (closed_log p) = {} \<and> inj_on (poolConnMap p) (dom (poolConnMap p))"
proof -
  obtain own xs bs where "sys_view s own xs bs" using reachable_view [OF assms(1)] .
  then have k: "pok p (Ready NoCall) [] (concat own) (sum_list (map weight (threads s)))
      (sum_list (map holds (threads s))) xs bs" by (simp add: sys_view_def p_def)
  have bs: "set bs = ran (poolConnMap p)" and cn: "\<And>c a. poolConnMap p c = Some a \<Longrightarrow> conn (heap p a) = c"
    using k by (auto simp: pok_def)
  have "inj_on (poolConnMap p) (dom (poolConnMap p))"
  proof (rule inj_onI)
    fix c d assume "c \<in> dom (poolConnMap p)" "poolConnMap p c = poolConnMap p d"
    then show "c = d" using cn by (metis domD)
  qed
  moreover have "set xs \<inter> (ran (poolConnMap p) \<union> set (closed_log p)) = {}"
    using pok_places(1) [OF k] by (auto simp: bs)
  ultimately show ?thesis
    using pok_places [OF k] pok_idle [OF k] bs by auto
qed

theorem pool_conn_one_place_witness:
  "\<exists>s. run_sched demo_sched (start_sys (new_pool 1 2 0 True 0) 2) = Some s \<and> poolConnMap (pl s) 7 = Some 0
    \<and> distinct (closed_log (pl s)) \<and> 0 \<notin> set (closed_log (pl s))"
proof -
  let ?s0 = "start_sys (new_pool 1 2 0 True 0) 2"
  have "case run_sched demo_sched ?s0 of None \<Rightarrow> False | Some s \<Rightarrow> poolConnMap (pl s) 7 = Some 0"
    by code_simp
  then obtain s where s: "run_sched demo_sched ?s0 = Some s" "poolConnMap (pl s) 7 = Some 0"
    by (auto split: option.splits)
  then have "0 \<in> ran (poolConnMap (pl s))" by (auto simp: ran_def)
  moreover have "reachable (new_pool 1 2 0 True 0) 2 s"
    using run_sched_reachable [OF reachable.start s(1)] .
  note pool_conn_one_place [OF this]
  ultimately show ?thesis using s by blast
qed

definition is_Ready :: "gpc \<Rightarrow> bool" where
  "is_Ready g = (case g of Ready _ \<Rightarrow> True | _ \<Rightarrow> False)"

lemma ready_sums:
  "list_all is_Ready gs \<Longrightarrow> sum_list (map weight gs) = 0"
  "list_all is_Ready gs \<Longrightarrow> sum_list (map holds gs) = 0"
  by (induction gs) (auto simp: is_Ready_def holds_def split: gpc.splits)

lemma ready_owns: "list_all2 (owns h) gs own \<Longrightarrow> list_all is_Ready gs \<Longrightarrow> concat own = []"
  by (induction rule: list_all2_induct) (auto simp: is_Ready_def split: gpc.splits)

text \<open>
  C5. No leak: once the pool is closed, every call has returned and the clients have put back
  what they held, every connection that was ever dialled has been closed, each exactly once,
  and the counters are zero.
\<close>

theorem pool_close_releases_all:
  assumes "reachable (new_pool mi ma it w ml) n s"
    and "pclosed (pl s)" "list_all is_Ready (threads s)" "poolConnMap (pl s) = Map.empty"
  shows "mset (closed_log (pl s)) = mset [0..<next_addr (pl s)]
    \<and> pool_Stats (pl s) = \<lparr>ActiveCount = 0, IdleCount = 0\<rparr>"
proof -
  obtain own xs bs where v: "sys_view s own xs bs" using reachable_view [OF assms(1)] .
  then have "concat own = []" using ready_owns assms(3) by (auto simp: sys_view_def)
  with v ready_sums [OF assms(3)] have k: "pok (pl s) (Ready NoCall) [] [] 0 0 xs bs"
    by (simp add: sys_view_def)
  then have "xs = []" "bs = []" using assms(2,4) by (auto simp: pok_def)
  with k pok_size [OF k] show ?thesis by (auto simp: pok_def pool_Stats_def)
qed

lemma pool_map_entry:
  assumes "reachable (new_pool mi ma it w ml) n s" "poolConnMap (pl s) c = Some a"
  shows "a < next_addr (pl s) \<and> conn (heap (pl s) a) = c"
proof -
  obtain own xs bs where "sys_view s own xs bs" using reachable_view [OF assms(1)] .
  then have k: "pok (pl s) (Ready NoCall) [] (concat own) (sum_list (map weight (threads s)))
      (sum_list (map holds (threads s))) xs bs" by (simp add: sys_view_def)
  with assms(2) have "a \<in> set bs" "conn (heap (pl s) a) = c" by (auto simp: pok_def ran_def)
  with pok_places(2) [OF k] show ?thesis by auto
qed

definition close_sched :: "(input \<times> nat) list" where
  "close_sched =
     (let e = (\<lambda>c d. (\<lparr>in_op = c, in_now = 5, in_test_ok = True, in_dial = d\<rparr>, 0)) in
      [e OpGet None, e OpGet None, e OpGet (Some 7), e OpGet None, e (OpPut 7) None, e OpGet None,
       e OpGet None, e OpClose None, e OpGet None, e OpGet None, e OpGet None])"

theorem pool_close_releases_all_witness:
  "\<exists>s. run_sched close_sched (start_sys (new_pool 1 2 0 False 0) 1) = Some s
    \<and> next_addr (pl s) = 1 \<and> mset (closed_log (pl s)) = {#0#}"
proof -
  let ?s0 = "start_sys (new_pool 1 2 0 False 0) 1"
  have "case run_sched close_sched ?s0 of None \<Rightarrow> False | Some s \<Rightarrow> pclosed (pl s)
      \<and> list_all is_Ready (threads s) \<and> next_addr (pl s) = 1 \<and> conn (heap (pl s) 0) = 7
      \<and> poolConnMap (pl s) 7 = None"
    by code_simp
  then obtain s where s: "run_sched close_sched ?s0 = Some s" "pclosed (pl s)" "list_all is_Ready (threads s)"
    "next_addr (pl s) = 1" "conn (heap (pl s) 0) = 7" "poolConnMap (pl s) 7 = None"
    by (auto split: option.splits)
  have r: "reachable (new_pool 1 2 0 False 0) 1 s"
    using run_sched_reachable [OF reachable.start s(1)] .
  have "poolConnMap (pl s) c = None" for c
    using pool_map_entry [OF r, of c] s(4-6) by (cases "poolConnMap (pl s) c") auto
  then have "poolConnMap (pl s) = Map.empty" by auto
  from pool_close_releases_all [OF r s(2,3) this] s show ?thesis by auto
qed

text \<open>Once the mutex is lost it stays lost.\<close>

lemma run_stuck:
  "run_sched es s = Some s' \<Longrightarrow> stuck s \<Longrightarrow> stuck s' \<and>
    (\<forall>j < length (threads s). needs_mutex (threads s ! j) (pl s) \<and> threads s ! j \<noteq> GetInit
      \<longrightarrow> threads s' ! j = threads s ! j)"
proof (induction es s rule: run_sched.induct)
  case (2 inp i es s)
  from "2.prems" obtain s1 where s1: "fresh_dial inp (threads s ! i) (pl s)" "sys_step inp i s = Some s1"
    "run_sched es s1 = Some s'" by (auto split: if_splits option.splits)
  have st: "stuck s1" "length (threads s1) = length (threads s)"
    using s1(2) "2.prems"(2) by (auto simp: sys_step_def split: if_splits option.splits)
  have "threads s1 ! j = threads s ! j" if "needs_mutex (threads s ! j) (pl s)" for j
    using s1(2) "2.prems"(2) that
    by (cases "j = i") (auto simp: sys_step_def split: if_splits option.splits)
  moreover have "needs_mutex g p \<Longrightarrow> g \<noteq> GetInit \<Longrightarrow> needs_mutex g q" for g p q by (cases g) auto
  ultimately show ?case using "2.IH" [OF s1 st(1)] st by metis
qed simp



text \<open>
  The pool reuses the connection returned last and trims the one idle longest: after a
  \<open>Put\<close> of \<open>a\<close> on an open pool with \<open>MaxIdle\<close> at least one, the victim to close is the
  rear of the idle list exactly when the list was full, and the next borrow gets \<open>a\<close>,
  stamped with the time of the \<open>Put\<close>.
\<close>

theorem put_then_borrow_lifo:
  assumes "idle_list (heap p, idle p) xs" "a \<notin> set xs" "\<not> pclosed p" "1 \<le> MaxIdle p"
    and "int (length xs) \<le> MaxIdle p"
  shows "\<exists>p' p''. put_locked now (Some a) p
      = Return (if int (length xs) < MaxIdle p then None else Some (last xs), p')
    \<and> returned (heap p' a) = now \<and> get_borrow p' = Return (BorrowConn a, p'')
    \<and> idle_list (heap p'', idle p'') (if int (length xs) < MaxIdle p then xs else butlast xs)"
proof -
  let ?h = "(heap p)(a := (heap p a)\<lparr>returned := now\<rparr>)"
  have l1: "idle_list (?h, idle p) xs" by (rule idle_list_stamp [OF assms(1)])
  have borrow: "\<exists>p''. get_borrow (set_list p s) = Return (BorrowConn a, p'') \<and> idle_list (heap p'', idle p'') ys"
    if "idle_list s (a # ys)" for s ys
    using idleq.pop_first_law [OF that] idleq.first_law [OF that] by (auto simp: get_borrow_def set_list_def)
  have stamp: "returned (fst s a) = now" if "keeps_conns A (?h, idle p) s" for A s
    using that by (cases s) (simp add: keeps_conns_def)
  show ?thesis
  proof (cases "int (length xs) < MaxIdle p")
    case True
    obtain s1 where s: "pushFront a (?h, idle p) = Return s1" "idle_list s1 (a # xs)"
      "keeps_conns (set (a # xs)) (?h, idle p) s1" using idleq.push_law [OF l1 assms(2)] by blast
    have "put_locked now (Some a) p = Return (None, set_list p s1)"
      using s(1) True assms(3) idleq.size_law [OF s(2)] by (simp add: put_locked_def Let_def)
    moreover have "returned (heap (set_list p s1) a) = now" using stamp [OF s(3)] by (simp add: set_list_def)
    ultimately show ?thesis using borrow [OF s(2)] True by auto
  next
    case False
    then have ne: "xs \<noteq> []" and m: "MaxIdle p < int (length xs) + 1" using assms(4) by auto
    obtain s1 s2 where s: "pushFront a (?h, idle p) = Return s1" "lcount (snd s1) = int (length xs) + 1"
      "rear (snd s1) = Some (last (a # xs))" "popBack s1 = Return s2" "idle_list s2 (butlast (a # xs))"
      "keeps_conns (set (a # xs)) (?h, idle p) s2"
      using idleq.push_overflow [OF l1 assms(2), unfolded comp_def] by blast
    have "put_locked now (Some a) p = Return (Some (last xs), set_list p s2)"
      using s m ne assms(3) by (simp add: put_locked_def Let_def)
    moreover have "returned (heap (set_list p s2) a) = now" using stamp [OF s(6)] by (simp add: set_list_def)
    moreover have "idle_list s2 (a # butlast xs)" using s(5) ne by simp
    ultimately show ?thesis using borrow [of s2 "butlast xs"] False by auto
  qed
qed

theorem put_then_borrow_lifo_witness:
  "\<exists>p' p''. put_locked 9 (Some 4) (new_pool 2 0 0 False 0) = Return (None, p')
    \<and> get_borrow p' = Return (BorrowConn 4, p'')"
proof -
  have "idle_list (heap (new_pool 2 0 0 False 0), idle (new_pool 2 0 0 False 0)) []"
    by (simp add: new_pool_def)
  from put_then_borrow_lifo [OF this, of 4 9] show ?thesis by (auto simp: new_pool_def)
qed

subsection \<open>A call that runs alone returns\<close>

text \<open>Own steps left in a \<open>Get\<close>, as long as no other goroutine refills the idle list.\<close>

fun get_rank :: "gpc \<Rightarrow> nat \<Rightarrow> nat" where
  "get_rank GetInit n = 3 * n + 5"
| "get_rank GetWait n = 3 * n + 4"
| "get_rank GetLock n = 3 * n + 3"
| "get_rank (PruneClose pc k i) n = 3 * n + 4"
| "get_rank (PruneRelock k i) n = 3 * n + 3"
| "get_rank (Testing pc) n = 3 * n + 5"
| "get_rank (BorrowClose pc) n = 3 * n + 4"
| "get_rank BorrowRelock n = 3 * n + 3"
| "get_rank Dialling n = 2"
| "get_rank (Register pc) n = 1"
| "get_rank DialFailed n = 1"
| "get_rank g n = 0"

definition idle_len :: "pool \<Rightarrow> nat" where
  "idle_len p = nat (lcount (idle p))"

definition got :: "gpc \<Rightarrow> bool" where
  "got g = (case g of Ready (GotConn _) \<Rightarrow> True | Ready GotNil \<Rightarrow> True | _ \<Rightarrow> False)"

definition ids :: "pool \<Rightarrow> (addr \<Rightarrow> closer) \<times> addr" where
  "ids p = (\<lambda>a. conn (heap p a), next_addr p)"

definition progress :: "gpc \<Rightarrow> pool \<Rightarrow> gpc \<Rightarrow> pool \<Rightarrow> bool" where
  "progress g p g' p' \<longleftrightarrow> (got g' \<or> 0 < get_rank g' (idle_len p')) \<and>
     get_rank g' (idle_len p') < get_rank g (idle_len p) \<and> g' \<noteq> GetInit \<and> g' \<noteq> GetWait"

lemma idle_len_pok: "pok p g ys os W H xs bs \<Longrightarrow> idle_len p = length xs"
  by (simp add: idle_len_def pok_size)

lemma ids_set_list: "keeps_conns A (heap p, l) s \<Longrightarrow> ids (set_list p s) = ids p"
  by (cases s) (simp add: ids_def set_list_def keeps_conns_def)

lemma ids_simps [simp]:
  "ids (p\<lparr>active := k\<rparr>) = ids p" "ids (dec_active p) = ids p" "ids (close_conn a p) = ids p"
  "idle_len (p\<lparr>active := k\<rparr>) = idle_len p" "idle_len (dec_active p) = idle_len p"
  "idle_len (close_conn a p) = idle_len p"
  by (simp_all add: ids_def dec_active_def close_conn_def idle_len_def)

lemma borrow_progress:
  assumes ok: "pok p GetLock [] os W H xs bs" and g: "get_borrow p = Return (x, p')"
  shows "progress GetLock p (get_goto x) p' \<and> ids p' = ids p"
proof (cases xs)
  case Nil
  with g pok_front [OF ok] show ?thesis
    by (auto simp: get_borrow_def progress_def got_def split: if_splits)
next
  case (Cons a zs)
  then obtain s' where s': "popFront (heap p, idle p) = Return s'" "idle_list s' zs"
    "keeps_conns (set (a # zs)) (heap p, idle p) s'"
    using idleq.pop_first_law [of "(heap p, idle p)" a zs] pok_idle [OF ok] by auto
  have "idle_len (set_list p s') = length zs"
    using idleq.size_law [OF s'(2)] by (simp add: idle_len_def set_list_def)
  with g s' Cons pok_front [OF ok] idle_len_pok [OF ok] show ?thesis
    by (auto simp: get_borrow_def progress_def ids_set_list)
qed

lemma prune_progress:
  assumes ok: "pok p GetLock [] os W H xs bs" and g: "get_prune now n i p = Return (x, p')"
  shows "progress GetLock p (get_goto x) p' \<and> ids p' = ids p"
proof (cases "\<exists>y. rear (idle p) = Some y \<and> i < n \<and> returned (heap p y) + IdleTimeout p < now")
  case False
  with g have "get_borrow p = Return (x, p')" by (auto simp: get_prune_def split: option.splits)
  with borrow_progress [OF ok] show ?thesis by blast
next
  case True
  then obtain y where y: "rear (idle p) = Some y" "i < n" "returned (heap p y) + IdleTimeout p < now" by blast
  then obtain zs where zs: "xs = zs @ [y]"
    using idleq.repr_final_Some [OF pok_idle [OF ok]] by auto
  then obtain s' where s': "popBack (heap p, idle p) = Return s'" "idle_list s' zs"
    "keeps_conns (set (zs @ [y])) (heap p, idle p) s'"
    using idleq.pop_final_law [of "(heap p, idle p)" zs y] pok_idle [OF ok] by auto
  have "idle_len (set_list p s') = length zs"
    using idleq.size_law [OF s'(2)] by (simp add: idle_len_def set_list_def)
  with g s' y zs idle_len_pok [OF ok] show ?thesis
    by (auto simp: get_prune_def progress_def ids_set_list)
qed

lemma enter_progress:
  assumes "pok p GetLock [] os W H xs bs" "get_enter now p = Return (x, p')"
  shows "progress GetLock p (get_goto x) p' \<and> ids p' = ids p"
  using assms prune_progress borrow_progress by (auto simp: get_enter_def split: if_splits)

lemma progress_weaken:
  "progress GetLock p g' p' \<Longrightarrow> get_rank g (idle_len q) = get_rank GetLock (idle_len p) \<Longrightarrow> progress g q g' p'"
  by (simp add: progress_def)

lemma get_gstep:
  assumes ok: "pok p g ys os W H xs bs" and r: "0 < get_rank g (idle_len p)" "g \<noteq> GetInit" "g \<noteq> GetWait"
    and fr: "fresh_dial inp g p"
  obtains g' p' where "gstep inp g p = Some (g', p', False)" "progress g p g' p'"
    "g = Dialling \<and> g' = DialFailed \<or> g = Dialling \<and> (\<exists>a. g' = Register a) \<or> ids p' = ids p"
proof (cases g)
  case GetLock
  with ok have o: "pok p GetLock [] os W H xs bs" by (auto simp: pok_def)
  obtain x q where "get_enter (in_now inp) p = Return (x, q)" using pok_enter [OF o] by metis
  with enter_progress [OF o this] GetLock that show ?thesis by (simp add: of_exec_def)
next
  case (PruneRelock n i)
  with ok have "ys = []" by (simp add: pok_def)
  with ok PruneRelock have o: "pok (dec_active p) GetLock [] os W H xs bs" by (simp add: pok_relock)
  obtain x q where "get_prune (in_now inp) n (i + 1) (dec_active p) = Return (x, q)" using pok_prune [OF o] by metis
  with prune_progress [OF o this] PruneRelock that show ?thesis
    by (simp add: of_exec_def progress_weaken [of "dec_active p"])
next
  case BorrowRelock
  with ok have "ys = []" by (simp add: pok_def)
  with ok BorrowRelock have o: "pok (dec_active p) GetLock [] os W H xs bs" by (simp add: pok_relock)
  obtain x q where "get_borrow (dec_active p) = Return (x, q)" using pok_borrow [OF o] by metis
  with borrow_progress [OF o this] BorrowRelock that show ?thesis
    by (simp add: of_exec_def progress_weaken [of "dec_active p"])
next
  case DialFailed
  with ok have "ys = []" by (simp add: pok_def)
  with ok DialFailed have o: "pok (dec_active p) GetLock [] os W H xs bs" by (simp add: pok_relock)
  obtain q where "and_send (Ready GotNil) (dec_active p) = (Ready GotNil, q, False)" "heap q = heap (dec_active p)"
    using pok_send [OF o] by metis
  moreover from this have "next_addr q = next_addr p"
    by (auto simp: and_send_def send_token_def dec_active_def split: option.splits if_splits)
  ultimately show ?thesis using DialFailed that
    by (simp add: progress_def got_def ids_def dec_active_def)
next
  case Dialling
  with that show ?thesis by (cases "in_dial inp") (auto simp: progress_def new_conn_def)
next
  case (Testing pc)
  with that show ?thesis by (auto simp: progress_def)
next
  case (Register pc)
  with that show ?thesis by (auto simp: progress_def got_def Let_def ids_def)
qed (use r that in \<open>auto simp: progress_def\<close>)

lemma sys_view_thread:
  assumes v: "sys_view s own xs bs" and i: "i < length (threads s)"
  obtains ys os W H where "pok (pl s) (threads s ! i) ys os W H xs bs"
proof -
  define A C where "A = take i (threads s)" and "C = drop (Suc i) (threads s)"
  have t: "threads s = A @ threads s ! i # C" using i by (simp add: A_def C_def id_take_nth_drop)
  define W H where "W = sum_list (map weight (A @ C))" and "H = sum_list (map holds (A @ C))"
  have wh: "0 \<le> W" "W \<le> H" by (simp_all add: W_def H_def del: map_append sum_list_append)
  have sums: "sum_list (map weight (threads s)) = W + weight (threads s ! i)"
    "sum_list (map holds (threads s)) = H + holds (threads s ! i)"
    by (subst t, simp add: W_def H_def)+
  have l2: "list_all2 (owns (heap (pl s))) (threads s) own" using v by (simp add: sys_view_def)
  then have len: "length own = length (threads s)" by (simp add: list_all2_lengthD)
  then have o: "own = take i own @ own ! i # drop (Suc i) own" using i by (simp add: id_take_nth_drop)
  have "concat own = concat (take i own) @ own ! i @ concat (drop (Suc i) own)" by (subst o) simp
  with v have "pok (pl s) (Ready NoCall) [] (concat (take i own) @ own ! i @ concat (drop (Suc i) own))
      (W + weight (threads s ! i)) (H + holds (threads s ! i)) xs bs"
    by (simp add: sys_view_def sums)
  moreover have "owns (heap (pl s)) (threads s ! i) (own ! i)" "thread_ok (pl s) (threads s ! i)"
    using l2 v i by (simp_all add: list_all2_conv_all_nth sys_view_def list_all_length)
  ultimately show ?thesis using that pok_view [OF _ _ wh] by blast
qed

lemma sys_step_alone:
  assumes "i < length (threads s)" "\<not> stuck s" "gstep inp (threads s ! i) (pl s) = Some (g', p', False)"
  shows "sys_step inp i s = Some \<lparr>pl = p', threads = (threads s)[i := g'], stuck = False\<rparr>"
  using assms by (simp add: sys_step_def)

lemma got_rank: "got g \<Longrightarrow> get_rank g n = 0"
  by (auto simp: got_def split: gpc.splits)

definition avoids :: "(nat \<Rightarrow> input) \<Rightarrow> (addr \<Rightarrow> closer) \<times> addr \<Rightarrow> bool" where
  "avoids f x \<longleftrightarrow> (\<forall>k c a. in_dial (f k) = Some c \<longrightarrow> a < snd x \<longrightarrow> fst x a \<noteq> c)"

lemma avoids_fresh: "avoids f (ids p) \<Longrightarrow> fresh_dial (f k) g p"
  by (auto simp: avoids_def ids_def fresh_dial_def list_all_iff split: option.splits)

lemma avoids_Suc: "avoids f x \<Longrightarrow> avoids (f \<circ> Suc) x"
  unfolding avoids_def comp_def by blast

lemma run_get:
  assumes "sys_view s own xs bs" "\<not> stuck s" "i < length (threads s)"
    and "0 < get_rank (threads s ! i) (idle_len (pl s))" "threads s ! i \<noteq> GetInit" "threads s ! i \<noteq> GetWait"
    and "threads s ! i = DialFailed \<or> (\<exists>a. threads s ! i = Register a) \<or> avoids f (ids (pl s))"
  shows "\<exists>m s'. m \<le> get_rank (threads s ! i) (idle_len (pl s))
    \<and> run_sched (map (\<lambda>k. (f k, i)) [0..<m]) s = Some s' \<and> got (threads s' ! i)"
  using assms
proof (induction "get_rank (threads s ! i) (idle_len (pl s))" arbitrary: s own xs bs f rule: less_induct)
  case less
  obtain ys os W H where ok: "pok (pl s) (threads s ! i) ys os W H xs bs"
    using sys_view_thread [OF less.prems(1,3)] .
  have fr: "fresh_dial (f 0) (threads s ! i) (pl s)"
    using less.prems(7) avoids_fresh by (auto simp: fresh_dial_def)
  obtain g' p' where g: "gstep (f 0) (threads s ! i) (pl s) = Some (g', p', False)"
    "progress (threads s ! i) (pl s) g' p'"
    "threads s ! i = Dialling \<and> g' = DialFailed \<or> threads s ! i = Dialling \<and> (\<exists>a. g' = Register a)
      \<or> ids p' = ids (pl s)"
    using get_gstep [OF ok less.prems(4-6) fr] by blast
  let ?s = "\<lparr>pl = p', threads = (threads s)[i := g'], stuck = False\<rparr>"
  have st: "sys_step (f 0) i s = Some ?s" by (rule sys_step_alone [OF less.prems(3,2) g(1)])
  show ?case
  proof (cases "got g'")
    case True
    with st fr less.prems(3,4) show ?thesis
      by (intro exI [of _ "Suc 0"] exI [of _ ?s]) simp
  next
    case False
    obtain own' xs' bs' where v: "sys_view ?s own' xs' bs'"
      using sys_view_step [OF less.prems(1) st fr] .
    have nw: "g' \<noteq> GetInit" "g' \<noteq> GetWait" "threads s ! i \<noteq> DialFailed" "\<And>a. threads s ! i \<noteq> Register a"
      using g(2) False less.prems(5,6) by (auto simp: progress_def)
    then have av: "g' = DialFailed \<or> (\<exists>a. g' = Register a) \<or> avoids (f \<circ> Suc) (ids p')"
      using g(3) less.prems(7) nw(3,4) avoids_Suc [of f "ids (pl s)"] by metis
    obtain m s' where m: "m \<le> get_rank g' (idle_len p')"
      "run_sched (map (\<lambda>k. ((f \<circ> Suc) k, i)) [0..<m]) ?s = Some s'" "got (threads s' ! i)"
    proof -
      have t: "threads ?s ! i = g'" "pl ?s = p'" "\<not> stuck ?s" "i < length (threads ?s)"
        using less.prems(3) by simp_all
      have "get_rank g' (idle_len p') < get_rank (threads s ! i) (idle_len (pl s))"
        "0 < get_rank g' (idle_len p')" using g(2) False by (simp_all add: progress_def)
      from less.hyps [of ?s, unfolded t(1,2), OF this(1) v t(3,4) this(2) nw(1,2) av]
      show ?thesis using that by blast
    qed
    have "map (\<lambda>k. (f k, i)) [0..<Suc m] = (f 0, i) # map (\<lambda>k. ((f \<circ> Suc) k, i)) [0..<m]"
      by (simp add: upt_conv_Cons map_Suc_upt [symmetric] del: upt_Suc)
    with st fr m g(2) show ?thesis
      by (intro exI [of _ "Suc m"] exI [of _ s']) (simp add: progress_def del: upt_Suc)
  qed
qed

text \<open>The steps before the mutex when the token channel is in use.\<close>

lemma quiescent:
  assumes "reachable (new_pool mi ma it w ml) n s" "list_all is_Ready (threads s)"
  obtains xs bs where "pok (pl s) (Ready NoCall) [] [] 0 0 xs bs" "\<not> stuck s" "length (threads s) = n"
proof -
  obtain own xs bs where v: "sys_view s own xs bs" using reachable_view [OF assms(1)] .
  then have "concat own = []" using ready_owns assms(2) by (auto simp: sys_view_def)
  with v ready_sums [OF assms(2)] have k: "pok (pl s) (Ready NoCall) [] [] 0 0 xs bs"
    by (simp add: sys_view_def)
  moreover have "\<not> stuck s" using v assms(2) by (auto simp: sys_view_def list_all_iff is_Ready_def)
  moreover have "length (threads s) = n" using reachable_config [OF assms(1)] by simp
  ultimately show ?thesis using that by blast
qed

lemma recv_after_init:
  assumes k: "pok p (Ready NoCall) [] [] 0 0 xs bs" and w: "Wait p" "0 < MaxActive p"
    and c: "pclosed p \<or> pool_ActiveCount p - pool_IdleCount p < MaxActive p"
  obtains q where "recv_token (lazyInit p) = Some q" "ids q = ids p" "idle_len q = idle_len p"
proof -
  have "active p - lcount (idle p) = int (length bs)" using k pok_size [OF k] by (simp add: pok_def)
  with assms have "\<exists>q. recv_token (lazyInit p) = Some q"
    by (auto simp: recv_token_def lazyInit_def pok_def tokens_ok_def holds_def pool_ActiveCount_def
        pool_IdleCount_def split: option.splits)
  then obtain q where q: "recv_token (lazyInit p) = Some q" by blast
  have "ids q = ids p" "idle_len q = idle_len p"
    using q by (auto simp: recv_token_def lazyInit_def ids_def idle_len_def split: option.splits if_splits)
  with q that show ?thesis by blast
qed

lemma sched_Suc: "map (\<lambda>k. (f k, i)) [0..<Suc m] = (f 0, i) # map (\<lambda>k. ((f \<circ> Suc) k, i)) [0..<m]"
  by (simp add: upt_conv_Cons map_Suc_upt [symmetric] del: upt_Suc)

text \<open>One step that does not dial, and then a run.\<close>

lemma run_Suc:
  assumes st: "sys_step (f 0) i s = Some s1" and nd: "threads s ! i \<noteq> Dialling"
    and r: "\<exists>m s'. m \<le> b \<and> run_sched (map (\<lambda>k. ((f \<circ> Suc) k, i)) [0..<m]) s1 = Some s' \<and> P s'"
  shows "\<exists>m s'. m \<le> Suc b \<and> run_sched (map (\<lambda>k. (f k, i)) [0..<m]) s = Some s' \<and> P s'"
proof -
  from r obtain m s' where m: "m \<le> b" "run_sched (map (\<lambda>k. ((f \<circ> Suc) k, i)) [0..<m]) s1 = Some s'" "P s'"
    by blast
  have "run_sched (map (\<lambda>k. (f k, i)) [0..<Suc m]) s = Some s'"
    unfolding sched_Suc using st nd m(2) by (simp add: fresh_dial_def)
  with m show ?thesis by (intro exI [of _ "Suc m"]) auto
qed

lemma run_from_lock:
  assumes r: "reachable (new_pool mi ma it w ml) n s" and "\<not> stuck s" "i < length (threads s)"
    and g: "threads s ! i = GetLock" and a: "avoids f (ids (pl s))"
  shows "\<exists>m s'. m \<le> 3 * idle_len (pl s) + 3 \<and> run_sched (map (\<lambda>k. (f k, i)) [0..<m]) s = Some s' \<and> got (threads s' ! i)"
proof -
  obtain own xs bs where "sys_view s own xs bs" using reachable_view [OF r] .
  from run_get [OF this assms(2,3)] g a show ?thesis by simp
qed

text \<open>
  C9. A \<open>Get\<close> that runs alone returns. From any state the pool can reach with no call in
  progress, whatever the clock, the connection tests and the dials do, one \<open>Get\<close> ends with
  a connection or nil after at most three steps per idle connection and six more. With
  \<open>Wait\<close> this needs the pool closed or fewer than \<open>MaxActive\<close> connections in use: then
  it does not wait.
\<close>

theorem Get_alone_returns:
  assumes r: "reachable (new_pool mi ma it w ml) n s" and q: "list_all is_Ready (threads s)" and i: "i < n"
    and op: "in_op (f 0) = OpGet" and a: "avoids f (ids (pl s))"
    and c: "w \<and> 0 < ma \<Longrightarrow> pclosed (pl s) \<or> pool_ActiveCount (pl s) - pool_IdleCount (pl s) < ma"
  shows "\<exists>m s'. m \<le> 3 * nat (pool_IdleCount (pl s)) + 6
    \<and> run_sched (map (\<lambda>k. (f k, i)) [0..<m]) s = Some s' \<and> got (threads s' ! i)"
proof -
  obtain xs bs where k: "pok (pl s) (Ready NoCall) [] [] 0 0 xs bs" "\<not> stuck s" "length (threads s) = n"
    using quiescent [OF r q] .
  have cf: "MaxActive (pl s) = ma" "Wait (pl s) = w"
    using reachable_config [OF r] by (simp_all add: config_new_pool)
  obtain rr where g0: "threads s ! i = Ready rr"
  proof -
    have "is_Ready (threads s ! i)" using q i k(3) by (simp add: list_all_length)
    with that show ?thesis by (cases "threads s ! i") (simp_all add: is_Ready_def)
  qed
  have il: "idle_len (pl s) = nat (pool_IdleCount (pl s))" by (simp add: idle_len_def pool_IdleCount_def)
  define at where "at = (\<lambda>p g. \<lparr>pl = p, threads = (threads s)[i := g], stuck = False\<rparr>)"
  have at: "threads (at p g) ! i = g" "\<not> stuck (at p g)" "i < length (threads (at p g))" "pl (at p g) = p" for p g
    using i k(3) by (simp_all add: at_def)
  have move: "sys_step inp i (at p g) = Some (at p' g')" if "gstep inp g p = Some (g', p', False)" for inp p g p' g'
    using sys_step_alone [of i "at p g" inp g' p'] that at [of p g] by (simp add: at_def)
  have fresh: "fresh_dial inp (threads (at p g) ! i) (pl (at p g))" if "g \<noteq> Dialling" for inp p g
    using that at by (simp add: fresh_dial_def)
  have s0: "at (pl s) (Ready rr) = s" using g0 k(2) by (simp add: at_def list_update_same_conv [symmetric] flip: g0)
  have a': "avoids (f \<circ> Suc) (ids (pl s))" "avoids (f \<circ> Suc \<circ> Suc) (ids (pl s))"
    "avoids (f \<circ> Suc \<circ> Suc \<circ> Suc) (ids (pl s))"
    using a avoids_Suc by blast+
  let ?Q = "\<lambda>s'. got (threads s' ! i)"
  show ?thesis
  proof (cases "w \<and> 0 < ma")
    case False
    have st: "sys_step (f 0) i s = Some (at (pl s) GetLock)"
      using move [of "f 0" "Ready rr" "pl s"] False op cf s0 by (simp add: start_call_def)
    have r1: "reachable (new_pool mi ma it w ml) n (at (pl s) GetLock)"
      using reachable.step [OF r _ st] g0 by (simp add: fresh_dial_def)
    have "\<exists>m s'. m \<le> 3 * idle_len (pl s) + 3 \<and>
        run_sched (map (\<lambda>k. ((f \<circ> Suc) k, i)) [0..<m]) (at (pl s) GetLock) = Some s' \<and> ?Q s'"
      using run_from_lock [OF r1 at(2,3) at(1)] a'(1) by (simp only: at)
    from run_Suc [OF st _ this] g0 obtain m s' where "m \<le> Suc (3 * idle_len (pl s) + 3)"
      "run_sched (map (\<lambda>k. (f k, i)) [0..<m]) s = Some s'" "?Q s'" by auto
    then show ?thesis unfolding il by (intro exI [of _ m] exI [of _ s']) simp
  next
    case True
    obtain p3 where p3: "recv_token (lazyInit (pl s)) = Some p3" "ids p3 = ids (pl s)" "idle_len p3 = idle_len (pl s)"
      using recv_after_init [OF k(1)] True c cf by auto
    have st1: "sys_step (f 0) i s = Some (at (pl s) GetInit)"
      using move [of "f 0" "Ready rr" "pl s"] True op cf s0 by (simp add: start_call_def)
    have st2: "sys_step (f 1) i (at (pl s) GetInit) = Some (at (lazyInit (pl s)) GetWait)"
      by (rule move) simp
    have st3: "sys_step (f 2) i (at (lazyInit (pl s)) GetWait) = Some (at p3 GetLock)"
      by (rule move) (simp add: p3)
    have r1: "reachable (new_pool mi ma it w ml) n (at (pl s) GetInit)"
      using reachable.step [OF r _ st1] g0 by (simp add: fresh_dial_def)
    have r2: "reachable (new_pool mi ma it w ml) n (at (lazyInit (pl s)) GetWait)"
      by (rule reachable.step [OF r1 fresh st2]) simp
    have r3: "reachable (new_pool mi ma it w ml) n (at p3 GetLock)"
      by (rule reachable.step [OF r2 fresh st3]) simp
    have "\<exists>m s'. m \<le> 3 * idle_len (pl s) + 3 \<and>
        run_sched (map (\<lambda>k. ((f \<circ> Suc \<circ> Suc \<circ> Suc) k, i)) [0..<m]) (at p3 GetLock) = Some s' \<and> ?Q s'"
      using run_from_lock [OF r3 at(2,3) at(1)] a'(3) p3 by (simp only: at)
    from run_Suc [of "f \<circ> Suc \<circ> Suc", OF _ _ this] st3 at
    have "\<exists>m s'. m \<le> Suc (3 * idle_len (pl s) + 3) \<and>
        run_sched (map (\<lambda>k. ((f \<circ> Suc \<circ> Suc) k, i)) [0..<m]) (at (lazyInit (pl s)) GetWait) = Some s' \<and> ?Q s'"
      by (simp add: numeral_2_eq_2)
    from run_Suc [of "f \<circ> Suc", OF _ _ this] st2 at
    have "\<exists>m s'. m \<le> Suc (Suc (3 * idle_len (pl s) + 3)) \<and>
        run_sched (map (\<lambda>k. ((f \<circ> Suc) k, i)) [0..<m]) (at (pl s) GetInit) = Some s' \<and> ?Q s'"
      by simp
    from run_Suc [OF st1 _ this] g0 obtain m s' where "m \<le> Suc (Suc (Suc (3 * idle_len (pl s) + 3)))"
      "run_sched (map (\<lambda>k. (f k, i)) [0..<m]) s = Some s'" "?Q s'" by auto
    then show ?thesis unfolding il by (intro exI [of _ m] exI [of _ s']) simp
  qed
qed

theorem Get_alone_returns_witness:
  defines "e \<equiv> \<lparr>in_op = OpGet, in_now = 5, in_test_ok = True, in_dial = Some 7\<rparr>"
  shows "\<exists>m s'. m \<le> 6 \<and> run_sched (map (\<lambda>k. (e, 0)) [0..<m]) (start_sys (new_pool 1 1 0 True 0) 1) = Some s'
    \<and> got (threads s' ! 0)"
proof -
  let ?s = "start_sys (new_pool 1 1 0 True 0) 1"
  have "reachable (new_pool 1 1 0 True 0) 1 ?s" by (rule reachable.start)
  moreover have "list_all is_Ready (threads ?s)" by (simp add: start_sys_def is_Ready_def)
  moreover have "in_op ((\<lambda>_ :: nat. e) 0) = OpGet" by (simp add: e_def)
  moreover have "avoids (\<lambda>_. e) (ids (pl ?s))"
    by (simp add: avoids_def ids_def start_sys_def new_pool_def)
  moreover have z: "pool_ActiveCount (pl ?s) - pool_IdleCount (pl ?s) < 1" "pool_IdleCount (pl ?s) = 0"
    by (simp_all add: pool_ActiveCount_def pool_IdleCount_def start_sys_def new_pool_def empty_idle_def)
  ultimately show ?thesis
    using Get_alone_returns [of 1 1 0 True 0 1 ?s 0 "\<lambda>_. e"] by auto
qed

end
