(* ===== verification/DataCache.thy ===== *)
theory DataCache
  imports Prelude
begin

text \<open>
  The single-value cache (\<open>src/datacache/datacache.go\<close>). Goroutines that call \<open>Get\<close>
  and the loaders they start are state machines over the shared fields; each critical section
  of the mutex is one step. Times are \<open>int64\<close> nanoseconds, every sum wrapped by \<open>i64\<close>.
  The loader, the clock and the zero test of \<open>reflect\<close> are arguments.
\<close>

section \<open>Fields and constructor\<close>

definition MilliToNanoSecond :: int where
  "MilliToNanoSecond = 1000000"

definition DefaultRetryInterval :: int where
  "DefaultRetryInterval = 1000000000"

record 'a CacheInitOption =
  WithInitData :: bool
  InitData :: 'a
  OptExpiration :: int
  OptExpirationOnErr :: int
  OptRetryInterval :: int
  OptWaitTimeout :: int

record 'a DataCache =
  dc_data :: 'a
  expiration :: int
  expirationOnErr :: int
  retryInterval :: int
  waitTimeout :: int
  initCutOffTime :: int
  nextUpdateTime :: int

text \<open>
  \<open>is_zero v\<close> is \<open>reflect.ValueOf(v).IsZero()\<close>, with \<open>None\<close> for the panic of
  \<open>IsZero\<close> on the invalid value that \<open>ValueOf\<close> gives for a nil interface; \<open>now\<close> is the
  clock.
\<close>

definition init_cut_off :: "('a \<Rightarrow> bool option) \<Rightarrow> int \<Rightarrow> 'a CacheInitOption \<Rightarrow> int exec" where
  "init_cut_off is_zero now opt =
     (if WithInitData opt then Return now
      else case is_zero (InitData opt) of
        None \<Rightarrow> Panic (UserPanic ''reflect: call of reflect.Value.IsZero on zero Value'')
      | Some z \<Rightarrow> Return (if z then 0 else now))"

definition NewDataCache :: "('a \<Rightarrow> bool option) \<Rightarrow> int \<Rightarrow> 'a CacheInitOption \<Rightarrow> 'a DataCache exec" where
  "NewDataCache is_zero now opt =
     (let retry = i64 (OptRetryInterval opt * MilliToNanoSecond);
          wait = i64 (OptWaitTimeout opt * MilliToNanoSecond)
      in exec_bind (init_cut_off is_zero now opt) (\<lambda>cutoff. Return
        \<lparr>dc_data = InitData opt,
         expiration = i64 (OptExpiration opt * MilliToNanoSecond),
         expirationOnErr = i64 (OptExpirationOnErr opt * MilliToNanoSecond),
         retryInterval = (if retry \<le> 0 then DefaultRetryInterval else retry),
         waitTimeout = (if wait \<le> 0 then 0 else wait),
         initCutOffTime = cutoff, nextUpdateTime = 0\<rparr>))"

section \<open>Steps of a call of Get\<close>

datatype 'a getter =
    GIdle
  | GCheck int
  | GLock int
  | GWait int
  | GRead
  | GDone 'a

text \<open>The critical section of the write lock: the new fields and whether to start a loader.\<close>

definition claim_update :: "int \<Rightarrow> 'a DataCache \<Rightarrow> 'a DataCache \<times> bool" where
  "claim_update now c =
     (let doUpdate = (nextUpdateTime c \<le> now);
          c1 = (if doUpdate then c\<lparr>nextUpdateTime := i64 (now + retryInterval c)\<rparr> else c);
          c2 = (if initCutOffTime c1 = 0
                then c1\<lparr>initCutOffTime := i64 (now + waitTimeout c1)\<rparr> else c1)
      in (c2, doUpdate))"

text \<open>One turn of the waiting loop, with the cutoff-off it read: the time to go on with, or stop.\<close>

definition wait_turn :: "int \<Rightarrow> int \<Rightarrow> int option" where
  "wait_turn cutoff now = (if cutoff < now then None else Some (i64 (now + MilliToNanoSecond)))"

fun getter_step :: "int \<Rightarrow> 'a getter \<Rightarrow> 'a DataCache \<Rightarrow> 'a getter \<times> 'a DataCache \<times> bool" where
  "getter_step t GIdle c = (GCheck t, c, False)"
| "getter_step t (GCheck now) c =
     ((if nextUpdateTime c \<le> now then GLock now else GWait now), c, False)"
| "getter_step t (GLock now) c =
     (case claim_update now c of (c', doUpdate) \<Rightarrow> (GWait now, c', doUpdate))"
| "getter_step t (GWait now) c =
     ((case wait_turn (initCutOffTime c) now of None \<Rightarrow> GRead | Some now' \<Rightarrow> GWait now'), c, False)"
| "getter_step t GRead c = (GDone (dc_data c), c, False)"
| "getter_step t (GDone v) c = (GCheck t, c, False)"

section \<open>Steps of a loader\<close>

text \<open>A load result is the value with the error flag: Go returns both.\<close>

datatype 'a loader =
    LLoading
  | LStamp 'a int
  | LStore 'a int int
  | LEnd

definition store_loaded :: "'a \<Rightarrow> int \<Rightarrow> int \<Rightarrow> 'a DataCache \<Rightarrow> 'a DataCache" where
  "store_loaded v expire now c =
     (let c1 = c\<lparr>dc_data := v, nextUpdateTime := i64 (now + expire)\<rparr>
      in if now < initCutOffTime c1 then c1\<lparr>initCutOffTime := now\<rparr> else c1)"

definition load_result :: "'a \<times> bool \<Rightarrow> 'a DataCache \<Rightarrow> 'a loader" where
  "load_result r c = (case r of (v, err) \<Rightarrow>
     if err then if expirationOnErr c \<le> 0 then LEnd else LStamp v (expirationOnErr c)
     else LStamp v (expiration c))"

fun loader_step :: "int \<Rightarrow> 'a \<times> bool \<Rightarrow> 'a loader \<Rightarrow> 'a DataCache \<Rightarrow> 'a loader \<times> 'a DataCache" where
  "loader_step t r LLoading c = (load_result r c, c)"
| "loader_step t r (LStamp v expire) c = (LStore v expire t, c)"
| "loader_step t r (LStore v expire now) c = (LEnd, store_loaded v expire now c)"
| "loader_step t r LEnd c = (LEnd, c)"

section \<open>The system\<close>

text \<open>
  \<open>history\<close> records, latest first, when loads were started, with the getter's clock, and when
  their results were stored, with the loader's clock and the expiration applied.
\<close>

datatype mark = Started int | Stored int int

record 'a dc_sys =
  cache :: "'a DataCache"
  getters :: "'a getter list"
  loaders :: "'a loader list"
  history :: "mark list"

datatype actor = Getter nat | Loader nat

record 'a dc_input =
  clock :: int
  loaded :: "'a \<times> bool"

definition dc_step :: "'a dc_input \<Rightarrow> actor \<Rightarrow> 'a dc_sys \<Rightarrow> 'a dc_sys" where
  "dc_step inp who s = (case who of
      Getter i \<Rightarrow>
        if i < length (getters s)
        then case getter_step (clock inp) (getters s ! i) (cache s) of (g, c, start) \<Rightarrow>
          \<lparr>cache = c, getters = (getters s)[i := g],
           loaders = loaders s @ (if start then [LLoading] else []),
           history = (case getters s ! i of
               GLock now \<Rightarrow> if start then Started now # history s else history s
             | _ \<Rightarrow> history s)\<rparr>
        else s
    | Loader j \<Rightarrow>
        if j < length (loaders s)
        then case loader_step (clock inp) (loaded inp) (loaders s ! j) (cache s) of (l, c) \<Rightarrow>
          \<lparr>cache = c, getters = getters s, loaders = (loaders s)[j := l],
           history = (case loaders s ! j of
               LStore _ expire now \<Rightarrow> Stored now expire # history s
             | _ \<Rightarrow> history s)\<rparr>
        else s)"

definition dc_start :: "'a DataCache \<Rightarrow> nat \<Rightarrow> 'a dc_sys" where
  "dc_start c n = \<lparr>cache = c, getters = replicate n GIdle, loaders = [], history = []\<rparr>"

fun dc_run :: "('a dc_input \<times> actor) list \<Rightarrow> 'a dc_sys \<Rightarrow> 'a dc_sys" where
  "dc_run [] s = s"
| "dc_run ((inp, who) # es) s = dc_run es (dc_step inp who s)"

lemma dc_run_append: "dc_run (es @ fs) s = dc_run fs (dc_run es s)"
  by (induction es s rule: dc_run.induct) auto

lemma dc_run_invariant:
  assumes "P s" and "\<And>s inp who. P s \<Longrightarrow> P (dc_step inp who s)"
  shows "P (dc_run es s)"
  using assms(1)
proof (induction es arbitrary: s)
  case (Cons e es)
  obtain inp who where e: "e = (inp, who)" by fastforce
  have "P (dc_run es (dc_step inp who s))" by (rule Cons.IH [OF assms(2) [OF Cons.prems]])
  then show ?case by (simp add: e)
qed simp

section \<open>What every interleaving keeps\<close>

definition dc_config :: "'a DataCache \<Rightarrow> int \<times> int \<times> int \<times> int" where
  "dc_config c = (expiration c, expirationOnErr c, retryInterval c, waitTimeout c)"

lemma claim_update_config: "claim_update now c = (c', b) \<Longrightarrow> dc_config c' = dc_config c"
  by (auto simp: claim_update_def dc_config_def Let_def)

lemma getter_step_config: "getter_step t g c = (g', c', b) \<Longrightarrow> dc_config c' = dc_config c"
  by (cases g) (auto dest: claim_update_config split: prod.splits)

lemma store_loaded_config: "dc_config (store_loaded v e now c) = dc_config c"
  by (simp add: store_loaded_def dc_config_def Let_def)

lemma loader_step_config: "loader_step t r l c = (l', c') \<Longrightarrow> dc_config c' = dc_config c"
  by (cases l) (auto simp: store_loaded_config)

lemma dc_step_config: "dc_config (cache (dc_step inp who s)) = dc_config (cache s)"
  by (auto simp: dc_step_def dest: getter_step_config loader_step_config split: actor.splits prod.splits)

lemma dc_run_config: "dc_config (cache (dc_run es s)) = dc_config (cache s)"
  using dc_run_invariant [of "\<lambda>x. dc_config (cache x) = dc_config (cache s)" s es] dc_step_config by metis

lemma dc_run_length: "length (getters (dc_run es s)) = length (getters s)"
  by (rule dc_run_invariant [of "\<lambda>x. length (getters x) = length (getters s)"])
    (auto simp: dc_step_def split: actor.splits prod.splits)

subsection \<open>Pace of the loads\<close>

text \<open>The time before which no load may start, after the latest mark.\<close>

fun due :: "int \<Rightarrow> mark \<Rightarrow> int" where
  "due retry (Started t) = i64 (t + retry)"
| "due retry (Stored t expire) = i64 (t + expire)"

fun paced :: "int \<Rightarrow> mark list \<Rightarrow> bool" where
  "paced retry (Started t # m # ms) = (due retry m \<le> t \<and> paced retry (m # ms))"
| "paced retry (Stored t e # ms) = paced retry ms"
| "paced retry ms = True"

definition pace_inv :: "int \<Rightarrow> 'a dc_sys \<Rightarrow> bool" where
  "pace_inv retry s \<longleftrightarrow> retryInterval (cache s) = retry \<and> paced retry (history s)
     \<and> (case history s of [] \<Rightarrow> True | m # _ \<Rightarrow> nextUpdateTime (cache s) = due retry m)"

lemma paced_Started: "paced retry (Started t # h) \<longleftrightarrow> (case h of [] \<Rightarrow> True | m # _ \<Rightarrow> due retry m \<le> t \<and> paced retry h)"
  by (cases h) auto

lemma pace_step:
  assumes "pace_inv retry s"
  shows "pace_inv retry (dc_step inp who s)"
proof (cases who)
  case (Getter i)
  show ?thesis
  proof (cases "i < length (getters s)")
    case True
    show ?thesis
    proof (cases "getters s ! i")
      case (GLock now)
      with assms Getter True show ?thesis
        by (auto simp: pace_inv_def dc_step_def claim_update_def Let_def paced_Started split: list.splits)
    qed (use assms Getter True in \<open>auto simp: pace_inv_def dc_step_def split: list.splits\<close>)
  qed (use assms Getter in \<open>simp add: dc_step_def\<close>)
next
  case (Loader j)
  show ?thesis
  proof (cases "j < length (loaders s)")
    case True
    with assms Loader show ?thesis
      by (cases "loaders s ! j") (auto simp: pace_inv_def dc_step_def store_loaded_def Let_def split: list.splits)
  qed (use assms Loader in \<open>simp add: dc_step_def\<close>)
qed

text \<open>
  C14. Loads are paced, in every interleaving of any number of callers and loaders and under
  any clock readings: a load is started only when the clock of the call that starts it has
  reached the retry interval after the previous start, or, if a result was stored since, the
  expiration that came with it. In particular one load is started per retry interval while
  none completes.
\<close>

theorem loads_are_paced:
  "paced (retryInterval c) (history (dc_run es (dc_start c n)))"
proof -
  have "pace_inv (retryInterval c) (dc_start c n)" by (simp add: pace_inv_def dc_start_def)
  then have "pace_inv (retryInterval c) (dc_run es (dc_start c n))"
    by (rule dc_run_invariant) (rule pace_step)
  then show ?thesis by (simp add: pace_inv_def)
qed

subsection \<open>Where returned data comes from\<close>

definition values_in :: "'a set \<Rightarrow> 'a dc_sys \<Rightarrow> bool" where
  "values_in V s \<longleftrightarrow> dc_data (cache s) \<in> V
     \<and> (\<forall>g \<in> set (getters s). \<forall>v. g = GDone v \<longrightarrow> v \<in> V)
     \<and> (\<forall>l \<in> set (loaders s). \<forall>v e now. l = LStamp v e \<or> l = LStore v e now \<longrightarrow> v \<in> V)"

lemma values_step:
  assumes v: "values_in V s"
    and ok: "\<And>j. who = Loader j \<Longrightarrow> (snd (loaded inp) \<Longrightarrow> 0 < expirationOnErr (cache s)) \<Longrightarrow> fst (loaded inp) \<in> V"
  shows "values_in V (dc_step inp who s)"
proof (cases who)
  case (Getter i)
  show ?thesis
  proof (cases "i < length (getters s)")
    case True
    obtain g c b where g: "getter_step (clock inp) (getters s ! i) (cache s) = (g, c, b)" by (metis prod_cases3)
    have c: "dc_data c = dc_data (cache s)" and gv: "\<And>x. g = GDone x \<Longrightarrow> x \<in> V"
      using g v by (cases "getters s ! i"; auto simp: claim_update_def values_in_def Let_def
        split: prod.splits option.splits if_splits)+
    have "\<forall>x \<in> set ((getters s)[i := g]). \<forall>y. x = GDone y \<longrightarrow> y \<in> V"
      by (rule set_update_Ball) (use v gv in \<open>auto simp: values_in_def\<close>)
    with Getter True g c v show ?thesis by (auto simp: dc_step_def values_in_def)
  qed (use v Getter in \<open>simp add: dc_step_def\<close>)
next
  case (Loader j)
  show ?thesis
  proof (cases "j < length (loaders s)")
    case True
    obtain l c where l: "loader_step (clock inp) (loaded inp) (loaders s ! j) (cache s) = (l, c)" by fastforce
    have mem: "loaders s ! j \<in> set (loaders s)" using True by simp
    have lv: "x \<in> V" if "l = LStamp x e \<or> l = LStore x e now" for x e now
      using l v ok [OF Loader] that mem
      by (cases "loaders s ! j") (auto simp: load_result_def values_in_def split: prod.splits if_splits)
    have c: "dc_data c \<in> V"
      using l v mem by (cases "loaders s ! j") (auto simp: store_loaded_def values_in_def Let_def)
    have "\<forall>x \<in> set ((loaders s)[j := l]). \<forall>y e now. x = LStamp y e \<or> x = LStore y e now \<longrightarrow> y \<in> V"
      by (rule set_update_Ball) (use v lv in \<open>auto simp: values_in_def\<close>)
    with Loader True l c v show ?thesis by (auto simp: dc_step_def values_in_def)
  qed (use v Loader in \<open>simp add: dc_step_def\<close>)
qed

lemma values_run:
  assumes "values_in V s"
    and "\<And>inp j. (inp, Loader j) \<in> set es \<Longrightarrow> (snd (loaded inp) \<Longrightarrow> 0 < expirationOnErr (cache s)) \<Longrightarrow> fst (loaded inp) \<in> V"
  shows "values_in V (dc_run es s)"
  using assms
proof (induction es s rule: dc_run.induct)
  case (2 inp who es s)
  have e: "expirationOnErr (cache (dc_step inp who s)) = expirationOnErr (cache s)"
    using dc_step_config [of inp who s] by (simp add: dc_config_def)
  have "values_in V (dc_step inp who s)"
    by (rule values_step [OF "2.prems"(1)]) (use "2.prems"(2) in auto)
  then have "values_in V (dc_run es (dc_step inp who s))"
    by (rule "2.IH") (use "2.prems"(2) in \<open>auto simp: e\<close>)
  then show ?case by simp
qed simp

text \<open>
  \<open>Get\<close> returns the initial data or a value some load returned; the value of a load that
  failed only when \<open>ExpirationOnErr\<close> is set.
\<close>

theorem Get_returns_loaded_data:
  assumes "i < n" "getters (dc_run es (dc_start c n)) ! i = GDone v"
  shows "v = dc_data c \<or> (\<exists>inp j. (inp, Loader j) \<in> set es \<and> fst (loaded inp) = v
    \<and> (if snd (loaded inp) then 0 < expirationOnErr c else True))"
proof -
  let ?V = "insert (dc_data c) {fst (loaded inp) | inp j. (inp, Loader j) \<in> set es
    \<and> (if snd (loaded inp) then 0 < expirationOnErr c else True)}"
  have "values_in ?V (dc_run es (dc_start c n))"
  proof (rule values_run)
    show "values_in ?V (dc_start c n)" by (auto simp: values_in_def dc_start_def)
  qed (auto simp: dc_start_def)
  moreover have "GDone v \<in> set (getters (dc_run es (dc_start c n)))"
    using assms nth_mem [of i "getters (dc_run es (dc_start c n))"] by (simp add: dc_run_length dc_start_def)
  ultimately have "v \<in> ?V" unfolding values_in_def by blast
  then show ?thesis by blast
qed

definition dc_demo :: "int DataCache" where
  "dc_demo = \<lparr>dc_data = 0, expiration = 50, expirationOnErr = 0, retryInterval = 10, waitTimeout = 3000000,
     initCutOffTime = 0, nextUpdateTime = 0\<rparr>"

definition dc_demo_run :: "(int dc_input \<times> actor) list" where
  "dc_demo_run = (let e = (\<lambda>t w. (\<lparr>clock = t, loaded = (42, False)\<rparr>, w)) in
     [e 5 (Getter 0), e 5 (Getter 0), e 5 (Getter 0), e 5 (Getter 0), e 6 (Loader 0), e 6 (Loader 0),
      e 6 (Loader 0), e 6 (Getter 0), e 6 (Getter 0)])"

theorem Get_returns_loaded_data_witness:
  "getters (dc_run dc_demo_run (dc_start dc_demo 1)) ! 0 = GDone 42
    \<and> (42 = dc_data dc_demo \<or> (\<exists>inp j. (inp, Loader j) \<in> set dc_demo_run \<and> fst (loaded inp) = 42))"
proof -
  have g: "getters (dc_run dc_demo_run (dc_start dc_demo 1)) ! 0 = GDone 42" by code_simp
  have "0 < (1 :: nat)" by simp
  from Get_returns_loaded_data [OF this g] g show ?thesis by blast
qed

subsection \<open>Waiting for the first data ends\<close>

definition legal_clock :: "int \<Rightarrow> bool" where
  "legal_clock t \<longleftrightarrow> 0 < t \<and> t < 2 ^ 62"

text \<open>Times that are kept by goroutines and by the cache are legal too.\<close>

fun getter_times :: "'a getter \<Rightarrow> bool" where
  "getter_times (GCheck now) = legal_clock now"
| "getter_times (GLock now) = legal_clock now"
| "getter_times (GWait now) = (0 < now)"
| "getter_times g = True"

fun loader_times :: "'a loader \<Rightarrow> bool" where
  "loader_times (LStore v e now) = legal_clock now"
| "loader_times l = True"

text \<open>
  Before the first call has taken the write lock nothing is due later than now and nobody
  waits; after it the cut-off time is positive and only moves down.
\<close>

definition time_inv :: "'a dc_sys \<Rightarrow> bool" where
  "time_inv s \<longleftrightarrow> list_all getter_times (getters s) \<and> list_all loader_times (loaders s)
     \<and> 0 \<le> waitTimeout (cache s) \<and> waitTimeout (cache s) \<le> 2 ^ 62 - MilliToNanoSecond
     \<and> 0 \<le> initCutOffTime (cache s) \<and> initCutOffTime (cache s) < 2 ^ 63 - MilliToNanoSecond
     \<and> (initCutOffTime (cache s) = 0 \<longrightarrow> nextUpdateTime (cache s) = 0 \<and> loaders s = []
          \<and> list_all (\<lambda>g. case g of GWait _ \<Rightarrow> False | GRead \<Rightarrow> False | GDone _ \<Rightarrow> False | _ \<Rightarrow> True) (getters s))"

lemma time_inv_step:
  assumes v: "time_inv s" and t: "legal_clock (clock inp)"
  shows "time_inv (dc_step inp who s)
    \<and> (initCutOffTime (cache s) \<noteq> 0 \<longrightarrow> initCutOffTime (cache (dc_step inp who s)) \<le> initCutOffTime (cache s)
        \<and> initCutOffTime (cache (dc_step inp who s)) \<noteq> 0)"
proof (cases who)
  case (Getter i)
  show ?thesis
  proof (cases "i < length (getters s)")
    case i: True
    then have gt: "getter_times (getters s ! i)" using v by (simp add: time_inv_def list_all_length)
    have nz: "initCutOffTime (cache s) = 0 \<Longrightarrow> (case getters s ! i of GWait _ \<Rightarrow> False | GRead \<Rightarrow> False | GDone _ \<Rightarrow> False | _ \<Rightarrow> True)"
      using v i by (simp add: time_inv_def list_all_length)
    show ?thesis
    proof (cases "getters s ! i")
      case (GLock now)
      with gt have now: "0 < now" "now < 2 ^ 62" by (simp_all add: legal_clock_def)
      then have "in_i64 (now + waitTimeout (cache s))" using v by (simp add: in_i64_def time_inv_def MilliToNanoSecond_def)
      then have w: "i64 (now + waitTimeout (cache s)) = now + waitTimeout (cache s)" by simp
      show ?thesis using GLock Getter i v gt now w
        by (auto simp: dc_step_def claim_update_def time_inv_def Let_def MilliToNanoSecond_def
            intro!: list_all_update)
    next
      case (GWait now)
      have "in_i64 (now + MilliToNanoSecond)" if "now \<le> initCutOffTime (cache s)"
        using that gt GWait v by (auto simp: in_i64_def time_inv_def MilliToNanoSecond_def)
      with GWait Getter i v gt nz show ?thesis
        by (auto simp: dc_step_def time_inv_def wait_turn_def MilliToNanoSecond_def intro!: list_all_update)
    qed (use Getter i v gt t nz in \<open>auto simp: dc_step_def time_inv_def legal_clock_def intro!: list_all_update\<close>)
  qed (use Getter v in \<open>simp add: dc_step_def\<close>)
next
  case (Loader j)
  show ?thesis
  proof (cases "j < length (loaders s)")
    case j: True
    then have lt: "loader_times (loaders s ! j)" and ne: "initCutOffTime (cache s) \<noteq> 0"
      using v by (auto simp: time_inv_def list_all_length)
    show ?thesis
      by (cases "loaders s ! j")
        (use Loader j v lt ne t in \<open>auto simp: dc_step_def time_inv_def store_loaded_def load_result_def
          Let_def legal_clock_def split: prod.splits intro!: list_all_update\<close>)
  qed (use Loader v in \<open>simp add: dc_step_def\<close>)
qed

text \<open>Own steps of goroutine \<open>i\<close> in a schedule.\<close>

fun own_steps :: "nat \<Rightarrow> ('a dc_input \<times> actor) list \<Rightarrow> nat" where
  "own_steps i [] = 0"
| "own_steps i ((inp, who) # es) = (if who = Getter i then 1 else 0) + own_steps i es"

definition legal_run :: "('a dc_input \<times> actor) list \<Rightarrow> bool" where
  "legal_run es \<longleftrightarrow> list_all (\<lambda>(inp, _). legal_clock (clock inp)) es"

lemma legal_run_simps [simp]:
  "legal_run []" "legal_run ((inp, who) # es) \<longleftrightarrow> legal_clock (clock inp) \<and> legal_run es"
  by (simp_all add: legal_run_def)

lemma time_inv_run: "time_inv s \<Longrightarrow> legal_run es \<Longrightarrow> time_inv (dc_run es s)"
  by (induction es s rule: dc_run.induct) (simp_all add: time_inv_step)

lemma waiting_ends:
  assumes "time_inv s" "legal_run es" "i < length (getters s)" "getters s ! i = GWait now"
    and "initCutOffTime (cache s) < now + int k * MilliToNanoSecond" "k < own_steps i es"
  shows "\<exists>es1 es2. es = es1 @ es2 \<and> own_steps i es1 \<le> k + 1 \<and> getters (dc_run es1 s) ! i = GRead"
  using assms
proof (induction es s arbitrary: now k rule: dc_run.induct)
  case (2 inp who es s)
  let ?s = "dc_step inp who s"
  have t: "legal_clock (clock inp)" "legal_run es" using "2.prems"(2) by simp_all
  note st = time_inv_step [OF "2.prems"(1) t(1), of who]
  have nz: "initCutOffTime (cache s) \<noteq> 0"
    using "2.prems"(1,3,4) by (auto simp: time_inv_def list_all_length)
  have len: "i < length (getters ?s)" using "2.prems"(3) dc_run_length [of "[(inp, who)]" s] by simp
  show ?case
  proof (cases "who = Getter i")
    case False
    then have "getters ?s ! i = getters s ! i"
      by (cases who) (auto simp: dc_step_def nth_list_update split: prod.splits)
    with "2.prems"(4) have "getters ?s ! i = GWait now" by simp
    from "2.IH" [OF _ t(2) len this, of k] st nz "2.prems"(5,6) False obtain es1 es2 where
      "es = es1 @ es2" "own_steps i es1 \<le> k + 1" "getters (dc_run es1 ?s) ! i = GRead" by auto
    with False show ?thesis by (intro exI [of _ "(inp, who) # es1"] exI [of _ es2]) simp
  next
    case True
    show ?thesis
    proof (cases "initCutOffTime (cache s) < now")
      case stop: True
      have "getters ?s ! i = GRead" using True stop "2.prems"(3,4) by (simp add: dc_step_def wait_turn_def)
      with True show ?thesis by (intro exI [of _ "[(inp, who)]"] exI [of _ es]) simp
    next
      case False
      then obtain k' where k: "k = Suc k'" using "2.prems"(5) by (cases k) auto
      have "0 < now" using "2.prems"(1,3,4) by (auto simp: time_inv_def list_all_length dest: spec [of _ i])
      with False "2.prems"(1) have "in_i64 (now + MilliToNanoSecond)"
        by (simp add: in_i64_def time_inv_def MilliToNanoSecond_def)
      then have g: "getters ?s ! i = GWait (now + MilliToNanoSecond)"
        using True False "2.prems"(3,4) by (simp add: dc_step_def wait_turn_def)
      have "initCutOffTime (cache ?s) < now + MilliToNanoSecond + int k' * MilliToNanoSecond"
        using st nz "2.prems"(5) k by (simp add: algebra_simps)
      moreover have "k' < own_steps i es" using "2.prems"(6) True k by simp
      ultimately obtain es1 es2 where
        "es = es1 @ es2" "own_steps i es1 \<le> k' + 1" "getters (dc_run es1 ?s) ! i = GRead"
        using "2.IH" [OF _ t(2) len g, of k'] st by auto
      with True k show ?thesis by (intro exI [of _ "(inp, who) # es1"] exI [of _ es2]) simp
    qed
  qed
qed simp

text \<open>
  C15. \<open>Get\<close> never waits for ever. In any state a new cache can reach under legal clocks, a
  caller that waits with its local time at \<open>now\<close> leaves the loop within one turn per
  millisecond left to the cut-off and two more, whatever the loader and the other callers do
  (no load may ever finish); the cut-off is at most \<open>WaitTimeout\<close> after a clock reading.
\<close>

theorem Get_wait_is_bounded:
  assumes c: "NewDataCache is_zero t0 opt = Return c" "legal_clock t0" "OptWaitTimeout opt * MilliToNanoSecond < 2 ^ 61"
      "- (2 ^ 61) < OptWaitTimeout opt * MilliToNanoSecond"
    and es: "legal_run es0" "legal_run es" and s: "s = dc_run es0 (dc_start c n)"
    and i: "i < n" "getters s ! i = GWait now"
    and k: "k = nat ((initCutOffTime (cache s) - now) div MilliToNanoSecond + 1)" "k < own_steps i es"
  shows "\<exists>es1 es2. es = es1 @ es2 \<and> own_steps i es1 \<le> k + 1 \<and> getters (dc_run es1 s) ! i = GRead"
proof -
  have "in_i64 (OptWaitTimeout opt * MilliToNanoSecond)" using c(3,4) by (simp add: in_i64_def)
  then have "0 \<le> waitTimeout c" "waitTimeout c < 2 ^ 61" "0 \<le> initCutOffTime c" "initCutOffTime c < 2 ^ 62" "nextUpdateTime c = 0"
    using c by (auto simp: NewDataCache_def init_cut_off_def Let_def legal_clock_def split: if_splits option.splits)
  then have "time_inv (dc_start c n)"
    by (auto simp: time_inv_def dc_start_def MilliToNanoSecond_def list_all_iff)
  then have inv: "time_inv s" unfolding s by (rule time_inv_run [OF _ es(1)])
  have len: "i < length (getters s)" using i(1) by (simp add: s dc_run_length dc_start_def)
  let ?d = "initCutOffTime (cache s) - now"
  have "?d < (?d div MilliToNanoSecond + 1) * MilliToNanoSecond"
    by (simp add: MilliToNanoSecond_def)
  also have "\<dots> \<le> int k * MilliToNanoSecond"
    using k(1) by (intro mult_right_mono) (auto simp: MilliToNanoSecond_def)
  finally have "initCutOffTime (cache s) < now + int k * MilliToNanoSecond" by simp
  from waiting_ends [OF inv es(2) len i(2) this k(2)] show ?thesis .
qed

definition dc_opt :: "int CacheInitOption" where
  "dc_opt = \<lparr>WithInitData = False, InitData = 0, OptExpiration = 50, OptExpirationOnErr = 0,
     OptRetryInterval = 0, OptWaitTimeout = 1\<rparr>"

theorem Get_wait_is_bounded_witness:
  defines "e \<equiv> (\<lparr>clock = 5, loaded = (0, True)\<rparr>, Getter 0)"
  shows "\<exists>c es1 es2. NewDataCache (\<lambda>v. Some (v = (0 :: int))) 7 dc_opt = Return c
    \<and> [e, e, e, e] = es1 @ es2 \<and> getters (dc_run (es1) (dc_run [e, e, e] (dc_start c 1))) ! 0 = GRead"
proof -
  obtain c where c: "NewDataCache (\<lambda>v. Some (v = (0 :: int))) 7 dc_opt = Return c"
    by (simp add: NewDataCache_def init_cut_off_def dc_opt_def Let_def)
  then have f: "waitTimeout c = 1000000" "initCutOffTime c = 0" "nextUpdateTime c = 0" "retryInterval c = 1000000000"
    by (auto simp: NewDataCache_def init_cut_off_def dc_opt_def Let_def MilliToNanoSecond_def
        DefaultRetryInterval_def in_i64_def)
  let ?s = "dc_run [e, e, e] (dc_start c 1)"
  have g: "getters ?s ! 0 = GWait 5" "initCutOffTime (cache ?s) = 1000005"
    using f by (simp_all add: e_def dc_start_def dc_step_def claim_update_def Let_def in_i64_def)
  have "\<exists>es1 es2. [e, e, e, e] = es1 @ es2 \<and> own_steps 0 es1 \<le> 2 + 1 \<and> getters (dc_run es1 ?s) ! 0 = GRead"
    by (rule Get_wait_is_bounded [OF c, of "[e, e, e]" _ _ 1 0 5])
      (use g in \<open>simp_all add: dc_opt_def legal_clock_def e_def MilliToNanoSecond_def\<close>)
  with c show ?thesis by blast
qed

text \<open>
  What one load does to the cache. A load that fails changes nothing unless
  \<open>ExpirationOnErr\<close> is set; otherwise the value it returned replaces the data (after a
  failure too, so the last good value is lost), the next load is due the expiration of the
  case after the time of completion, and waiting callers are released.
\<close>

theorem load_outcome:
  assumes "loader_step t1 (v, err) LLoading c = (l1, c1)" "loader_step t2 r2 l1 c1 = (l2, c2)"
    "loader_step t3 r3 l2 c2 = (l3, c3)"
  shows "l3 = LEnd \<and> c3 = (if err \<and> expirationOnErr c \<le> 0 then c
    else c\<lparr>dc_data := v, nextUpdateTime := i64 (t2 + (if err then expirationOnErr c else expiration c)),
           initCutOffTime := min t2 (initCutOffTime c)\<rparr>)"
  using assms by (auto simp: load_result_def store_loaded_def Let_def split: if_splits)

theorem load_outcome_witness:
  "dc_data (snd (loader_step 0 (0, True) (LStore 9 50 4) dc_demo)) = 9"
proof -
  have 1: "loader_step 1 (9, False) LLoading dc_demo = (LStamp 9 50, dc_demo)"
    by (simp add: load_result_def dc_demo_def)
  have 2: "loader_step 4 (0, True) (LStamp 9 50) dc_demo = (LStore 9 50 4, dc_demo)" by simp
  obtain l c where 3: "loader_step 0 (0, True) (LStore 9 50 4) dc_demo = (l, c)" by fastforce
  from load_outcome [OF 1 2 3] 3 show ?thesis by simp
qed

text \<open>
  The constructor: milliseconds become nanoseconds, a retry interval that is not positive
  becomes one second and a negative wait timeout zero. It panics exactly when there is no
  \<open>WithInitData\<close> and the initial data is a nil interface, on which \<open>reflect\<close> has no zero test.
\<close>

theorem NewDataCache_result:
  "NewDataCache is_zero now opt =
    (if \<not> WithInitData opt \<and> is_zero (InitData opt) = None
     then Panic (UserPanic ''reflect: call of reflect.Value.IsZero on zero Value'')
     else Return \<lparr>dc_data = InitData opt,
       expiration = i64 (OptExpiration opt * 1000000), expirationOnErr = i64 (OptExpirationOnErr opt * 1000000),
       retryInterval = (if 0 < i64 (OptRetryInterval opt * 1000000) then i64 (OptRetryInterval opt * 1000000) else 1000000000),
       waitTimeout = max 0 (i64 (OptWaitTimeout opt * 1000000)),
       initCutOffTime = (if WithInitData opt \<or> is_zero (InitData opt) = Some False then now else 0),
       nextUpdateTime = 0\<rparr>)"
  by (auto simp: NewDataCache_def init_cut_off_def Let_def MilliToNanoSecond_def DefaultRetryInterval_def
      split: option.splits)

end
