(* ===== verification/CacheMap.thy ===== *)
theory CacheMap
  imports DataCache
begin

text \<open>
  The keyed cache (\<open>src/datacache/datacachemap.go\<close>). Items live in a store by address, so
  that a goroutine can hold an item that has been evicted from the map. A call of \<open>Get\<close> or
  \<open>GetMany\<close>, a load and the eviction task are state machines whose steps are the code's
  critical sections; the item locks taken inside a section of the map's lock are part of that
  section. The order in which Go ranges over a map is an argument.
\<close>

section \<open>Items and options\<close>

type_synonym item_addr = nat

record 'v CacheItem =
  it_data :: "'v option"
  it_next :: int
  it_cutoff :: int
  it_evict :: int

record CacheMapOption =
  HasLoadDataBatch :: bool
  MExpiration :: int
  MExpirationOnErr :: int
  MEvictTimeout :: int
  MRetryInterval :: int
  MWaitTimeout :: int

record ('k, 'v) CacheMap =
  dataMap :: "'k \<rightharpoonup> item_addr"
  store :: "item_addr \<Rightarrow> 'v CacheItem"
  next_item :: item_addr
  loadDataBatch :: bool
  cm_expiration :: int
  cm_expirationOnErr :: int
  cm_retryInterval :: int
  cm_waitTimeout :: int
  cm_evictTimeout :: int
  zero_value :: 'v

text \<open>\<open>time.NewTicker\<close> panics on an interval that is not positive.\<close>

definition NewCacheMap :: "'v \<Rightarrow> CacheMapOption \<Rightarrow> ('k, 'v) CacheMap exec" where
  "NewCacheMap zero opt =
     (let expir = i64 (MExpiration opt * MilliToNanoSecond);
          evict0 = i64 (MEvictTimeout opt * MilliToNanoSecond);
          retry = i64 (MRetryInterval opt * MilliToNanoSecond);
          wait = i64 (MWaitTimeout opt * MilliToNanoSecond);
          evict = (if evict0 \<le> expir then i64 (expir * 2) else evict0)
      in if evict \<le> 0 then Panic NonPositiveInterval
         else Return
           \<lparr>dataMap = Map.empty,
            store = (\<lambda>_. \<lparr>it_data = None, it_next = 0, it_cutoff = 0, it_evict = 0\<rparr>),
            next_item = 0, loadDataBatch = HasLoadDataBatch opt,
            cm_expiration = expir,
            cm_expirationOnErr = i64 (MExpirationOnErr opt * MilliToNanoSecond),
            cm_retryInterval = (if retry \<le> 0 then DefaultRetryInterval else retry),
            cm_waitTimeout = (if wait \<le> 0 then 0 else wait),
            cm_evictTimeout = evict, zero_value = zero\<rparr>)"

section \<open>Critical sections\<close>

definition set_item :: "item_addr \<Rightarrow> 'v CacheItem \<Rightarrow> ('k, 'v) CacheMap \<Rightarrow> ('k, 'v) CacheMap" where
  "set_item a it c = c\<lparr>store := (store c)(a := it)\<rparr>"

definition alloc_item :: "'v CacheItem \<Rightarrow> ('k, 'v) CacheMap \<Rightarrow> item_addr \<times> ('k, 'v) CacheMap" where
  "alloc_item it c =
     (next_item c, c\<lparr>store := (store c)(next_item c := it), next_item := Suc (next_item c)\<rparr>)"

definition fresh_item :: "int \<Rightarrow> ('k, 'v) CacheMap \<Rightarrow> 'v CacheItem" where
  "fresh_item now c =
     \<lparr>it_data = None, it_next = i64 (now + cm_retryInterval c),
      it_cutoff = i64 (now + cm_waitTimeout c), it_evict = i64 (now + cm_evictTimeout c)\<rparr>"

text \<open>Under the map's write lock: the item of the key, a new one when it is still missing.\<close>

definition lookup_insert :: "'k \<Rightarrow> int \<Rightarrow> ('k, 'v) CacheMap \<Rightarrow> item_addr \<times> bool \<times> ('k, 'v) CacheMap" where
  "lookup_insert k now c = (case dataMap c k of
      Some a \<Rightarrow> (a, False, c)
    | None \<Rightarrow> (case alloc_item (fresh_item now c) c of
        (a, c') \<Rightarrow> (a, True, c'\<lparr>dataMap := (dataMap c')(k \<mapsto> a)\<rparr>)))"

text \<open>Under the item's write lock: whether this call starts the load.\<close>

definition claim_item :: "int \<Rightarrow> item_addr \<Rightarrow> ('k, 'v) CacheMap \<Rightarrow> bool \<times> ('k, 'v) CacheMap" where
  "claim_item now a c =
     (if it_next (store c a) < now
      then (True, set_item a ((store c a)\<lparr>it_next := i64 (now + cm_retryInterval c)\<rparr>) c)
      else (False, c))"

definition updateEvictTime :: "item_addr \<Rightarrow> int \<Rightarrow> ('k, 'v) CacheMap \<Rightarrow> ('k, 'v) CacheMap" where
  "updateEvictTime a now c =
     (let newEvictTime = i64 (now + cm_evictTimeout c) in
      if it_evict (store c a) < newEvictTime
      then set_item a ((store c a)\<lparr>it_evict := newEvictTime\<rparr>) c else c)"

definition read_item :: "item_addr \<Rightarrow> ('k, 'v) CacheMap \<Rightarrow> 'v" where
  "read_item a c = (case it_data (store c a) of None \<Rightarrow> zero_value c | Some v \<Rightarrow> v)"

text \<open>What a completed load writes, and the expiration of a load result, if it is kept.\<close>

definition store_item :: "item_addr \<Rightarrow> 'v \<Rightarrow> int \<Rightarrow> int \<Rightarrow> ('k, 'v) CacheMap \<Rightarrow> ('k, 'v) CacheMap" where
  "store_item a v expire now c =
     (let it = (store c a)\<lparr>it_data := Some v, it_next := i64 (now + expire)\<rparr>
      in set_item a (if now < it_cutoff it then it\<lparr>it_cutoff := now\<rparr> else it) c)"

definition load_expire :: "bool \<Rightarrow> ('k, 'v) CacheMap \<Rightarrow> int option" where
  "load_expire err c =
     (if err then if cm_expirationOnErr c \<le> 0 then None else Some (cm_expirationOnErr c)
      else Some (cm_expiration c))"

text \<open>Eviction: the scan under the read lock, the deletion under the write lock.\<close>

definition evict_scan :: "int \<Rightarrow> 'k list \<Rightarrow> ('k, 'v) CacheMap \<Rightarrow> 'k list" where
  "evict_scan now order c =
     filter (\<lambda>k. case dataMap c k of None \<Rightarrow> False | Some a \<Rightarrow> it_evict (store c a) < now) order"

definition evict_delete :: "'k list \<Rightarrow> ('k, 'v) CacheMap \<Rightarrow> ('k, 'v) CacheMap" where
  "evict_delete keys c = c\<lparr>dataMap := foldl (\<lambda>m k. m(k := None)) (dataMap c) keys\<rparr>"

section \<open>GetMany\<close>

text \<open>First pass, under the read lock: the data at hand and the keys to fetch.\<close>

fun many_scan ::
  "int \<Rightarrow> 'k list \<Rightarrow> ('k \<rightharpoonup> 'v) \<Rightarrow> 'k list \<Rightarrow> ('k, 'v) CacheMap
    \<Rightarrow> ('k \<rightharpoonup> 'v) \<times> 'k list \<times> ('k, 'v) CacheMap" where
  "many_scan now [] data uncached c = (data, uncached, c)"
| "many_scan now (k # ks) data uncached c = (case dataMap c k of
     Some a \<Rightarrow>
       (let c' = updateEvictTime a now c in
        many_scan now ks (data(k \<mapsto> read_item a c'))
          (if it_next (store c' a) < now then uncached @ [k] else uncached) c')
   | None \<Rightarrow> many_scan now ks data (uncached @ [k]) c)"

text \<open>An assignment to a key of \<open>unCachedDataMap\<close>.\<close>

definition put_assoc :: "'k \<Rightarrow> 'a \<Rightarrow> ('k \<times> 'a) list \<Rightarrow> ('k \<times> 'a) list" where
  "put_assoc k x xs =
     (if k \<in> set (map fst xs) then map (\<lambda>(k', y). (k', if k' = k then x else y)) xs
      else xs @ [(k, x)])"

text \<open>Second pass, under the write lock: the items this call loads, and whether one is new.\<close>

fun many_claim ::
  "int \<Rightarrow> 'k list \<Rightarrow> ('k \<times> item_addr) list \<Rightarrow> bool \<Rightarrow> ('k, 'v) CacheMap
    \<Rightarrow> ('k \<times> item_addr) list \<times> bool \<times> ('k, 'v) CacheMap" where
  "many_claim now [] todo hasNonExist c = (todo, hasNonExist, c)"
| "many_claim now (k # ks) todo hasNonExist c = (case dataMap c k of
     None \<Rightarrow> (case lookup_insert k now c of
       (a, _, c') \<Rightarrow> many_claim now ks (put_assoc k a todo) True c')
   | Some a \<Rightarrow> (case claim_item now a c of
       (True, c') \<Rightarrow> many_claim now ks (put_assoc k a todo) hasNonExist c'
     | (False, c') \<Rightarrow> many_claim now ks todo hasNonExist c'))"

text \<open>Third pass: the claimed items as they are after the wait.\<close>

fun many_read :: "('k \<times> item_addr) list \<Rightarrow> ('k \<rightharpoonup> 'v) \<Rightarrow> ('k, 'v) CacheMap \<Rightarrow> 'k \<rightharpoonup> 'v" where
  "many_read [] data c = data"
| "many_read ((k, a) # todo) data c = many_read todo (data(k \<mapsto> read_item a c)) c"

section \<open>Goroutines\<close>

datatype ('k, 'v) caller =
    CIdle
  | CLookup 'k int
  | CInsert 'k int
  | CCheck 'k int item_addr
  | CClaim 'k int item_addr
  | CWait 'k int item_addr
  | CEvict 'k int item_addr
  | CRead 'k item_addr
  | CDone 'k 'v
  | MScan "'k list" int
  | MClaim "'k list" int "'k \<rightharpoonup> 'v"
  | MSpawn "('k \<times> item_addr) list" bool int "'k \<rightharpoonup> 'v"
  | MWait item_addr "('k \<times> item_addr) list" int "'k \<rightharpoonup> 'v"
  | MRead "('k \<times> item_addr) list" "'k \<rightharpoonup> 'v"
  | MDone "'k \<rightharpoonup> 'v"

datatype ('k, 'v) fetch =
    FLoad 'k item_addr
  | FStamp 'k item_addr 'v int
  | FStore 'k item_addr 'v int int
  | BLoad "('k \<times> item_addr) list" item_addr
  | BStamp "('k \<times> item_addr) list" item_addr "'k \<rightharpoonup> 'v" int
  | BStore "('k \<times> item_addr) list" item_addr "'k \<rightharpoonup> 'v" int int
  | FEnd

datatype 'k cm_call = CallGet 'k | CallGetMany "'k list"

text \<open>
  The results of \<open>loadData\<close> and \<open>loadDataBatch\<close>, for the keys they are called with: a value
  or a map, with the error flag.
\<close>

record ('k, 'v) cm_input =
  cm_clock :: int
  cm_call :: "'k cm_call"
  cm_loaded :: "'k \<Rightarrow> 'v \<times> bool"
  cm_batch :: "'k list \<Rightarrow> ('k \<rightharpoonup> 'v) \<times> bool"
  cm_order :: "'k list"

definition start_get :: "('k, 'v) cm_input \<Rightarrow> ('k, 'v) caller" where
  "start_get inp = (case cm_call inp of
      CallGet k \<Rightarrow> CLookup k (cm_clock inp)
    | CallGetMany ks \<Rightarrow> MScan ks (cm_clock inp))"

text \<open>The loads a \<open>GetMany\<close> starts: one batch, or one per item; it waits only for new items.\<close>

definition many_spawn ::
  "('k \<times> item_addr) list \<Rightarrow> bool \<Rightarrow> int \<Rightarrow> ('k \<rightharpoonup> 'v) \<Rightarrow> ('k, 'v) CacheMap
    \<Rightarrow> ('k, 'v) caller \<times> ('k, 'v) CacheMap \<times> ('k, 'v) fetch list" where
  [simp]: "many_spawn todo hasNonExist now data c =
     (if todo = [] then (MRead todo data, c, [])
      else case alloc_item \<lparr>it_data = None, it_next = 0,
             it_cutoff = i64 (now + cm_waitTimeout c), it_evict = 0\<rparr> c of
        (status, c') \<Rightarrow>
          (if hasNonExist then MWait status todo now data else MRead todo data, c',
           if loadDataBatch c then [BLoad todo status] else map (\<lambda>(k, a). FLoad k a) todo))"

fun caller_step ::
  "('k, 'v) cm_input \<Rightarrow> ('k, 'v) caller \<Rightarrow> ('k, 'v) CacheMap
    \<Rightarrow> ('k, 'v) caller \<times> ('k, 'v) CacheMap \<times> ('k, 'v) fetch list" where
  "caller_step inp CIdle c = (start_get inp, c, [])"
| "caller_step inp (CLookup k now) c = (case dataMap c k of
     Some a \<Rightarrow> (CCheck k now a, c, []) | None \<Rightarrow> (CInsert k now, c, []))"
| "caller_step inp (CInsert k now) c = (case lookup_insert k now c of
     (a, fresh, c') \<Rightarrow> (CCheck k now a, c', if fresh then [FLoad k a] else []))"
| "caller_step inp (CCheck k now a) c =
     (if it_next (store c a) < now then CClaim k now a else CWait k now a, c, [])"
| "caller_step inp (CClaim k now a) c = (case claim_item now a c of
     (start, c') \<Rightarrow> (CWait k now a, c', if start then [FLoad k a] else []))"
| "caller_step inp (CWait k now a) c = ((case wait_turn (it_cutoff (store c a)) now of
     None \<Rightarrow> CEvict k now a | Some now' \<Rightarrow> CWait k now' a), c, [])"
| "caller_step inp (CEvict k now a) c = (CRead k a, updateEvictTime a now c, [])"
| "caller_step inp (CRead k a) c = (CDone k (read_item a c), c, [])"
| "caller_step inp (CDone k v) c = (start_get inp, c, [])"
| "caller_step inp (MScan ks now) c = (case many_scan now ks Map.empty [] c of
     (data, uncached, c') \<Rightarrow>
       (if uncached = [] then MDone data else MClaim uncached now data, c', []))"
| "caller_step inp (MClaim ks now data) c = (case many_claim now ks [] False c of
     (todo, hasNonExist, c') \<Rightarrow> (MSpawn todo hasNonExist now data, c', []))"
| "caller_step inp (MSpawn todo hasNonExist now data) c = many_spawn todo hasNonExist now data c"
| "caller_step inp (MWait status todo now data) c = ((case wait_turn (it_cutoff (store c status)) now of
     None \<Rightarrow> MRead todo data | Some now' \<Rightarrow> MWait status todo now' data), c, [])"
| "caller_step inp (MRead todo data) c = (MDone (many_read todo data c), c, [])"
| "caller_step inp (MDone data) c = (start_get inp, c, [])"

text \<open>Reading a key that a Go map lacks gives the zero value.\<close>

definition batch_value :: "('k, 'v) CacheMap \<Rightarrow> ('k \<rightharpoonup> 'v) \<Rightarrow> 'k \<Rightarrow> 'v" where
  "batch_value c data k = (case data k of None \<Rightarrow> zero_value c | Some v \<Rightarrow> v)"

fun fetch_step ::
  "('k, 'v) cm_input \<Rightarrow> ('k, 'v) fetch \<Rightarrow> ('k, 'v) CacheMap \<Rightarrow> ('k, 'v) fetch \<times> ('k, 'v) CacheMap" where
  "fetch_step inp (FLoad k a) c = (case cm_loaded inp k of (v, err) \<Rightarrow>
     (case load_expire err c of None \<Rightarrow> (FEnd, c) | Some e \<Rightarrow> (FStamp k a v e, c)))"
| "fetch_step inp (FStamp k a v e) c = (FStore k a v e (cm_clock inp), c)"
| "fetch_step inp (FStore k a v e now) c = (FEnd, store_item a v e now c)"
| "fetch_step inp (BLoad todo status) c = (case cm_batch inp (map fst todo) of (data, err) \<Rightarrow>
     (case load_expire err c of None \<Rightarrow> (FEnd, c) | Some e \<Rightarrow> (BStamp todo status data e, c)))"
| "fetch_step inp (BStamp todo status data e) c = (BStore todo status data e (cm_clock inp), c)"
| "fetch_step inp (BStore ((k, a) # todo) status data e now) c =
     (BStore todo status data e now,
      store_item a (batch_value c data k) e now c)"
| "fetch_step inp (BStore [] status data e now) c =
     (FEnd, set_item status ((store c status)\<lparr>it_cutoff := now\<rparr>) c)"
| "fetch_step inp FEnd c = (FEnd, c)"

datatype 'k evictor = EWait | EDelete "'k list"

fun evict_step :: "('k, 'v) cm_input \<Rightarrow> 'k evictor \<Rightarrow> ('k, 'v) CacheMap \<Rightarrow> 'k evictor \<times> ('k, 'v) CacheMap" where
  "evict_step inp EWait c = (EDelete (evict_scan (cm_clock inp) (cm_order inp) c), c)"
| "evict_step inp (EDelete keys) c = (EWait, evict_delete keys c)"

section \<open>The system\<close>

record ('k, 'v) cm_sys =
  cmap :: "('k, 'v) CacheMap"
  callers :: "('k, 'v) caller list"
  fetches :: "('k, 'v) fetch list"
  evictor :: "'k evictor"

datatype cm_actor = Caller nat | Fetcher nat | Evictor

definition cm_step :: "('k, 'v) cm_input \<Rightarrow> cm_actor \<Rightarrow> ('k, 'v) cm_sys \<Rightarrow> ('k, 'v) cm_sys" where
  "cm_step inp who s = (case who of
      Caller i \<Rightarrow>
        if i < length (callers s)
        then case caller_step inp (callers s ! i) (cmap s) of (g, c, fs) \<Rightarrow>
          s\<lparr>cmap := c, callers := (callers s)[i := g], fetches := fetches s @ fs\<rparr>
        else s
    | Fetcher j \<Rightarrow>
        if j < length (fetches s)
        then case fetch_step inp (fetches s ! j) (cmap s) of (f, c) \<Rightarrow>
          s\<lparr>cmap := c, fetches := (fetches s)[j := f]\<rparr>
        else s
    | Evictor \<Rightarrow> (case evict_step inp (evictor s) (cmap s) of (e, c) \<Rightarrow> s\<lparr>cmap := c, evictor := e\<rparr>))"

definition cm_start :: "('k, 'v) CacheMap \<Rightarrow> nat \<Rightarrow> ('k, 'v) cm_sys" where
  "cm_start c n = \<lparr>cmap = c, callers = replicate n CIdle, fetches = [], evictor = EWait\<rparr>"

fun cm_run :: "(('k, 'v) cm_input \<times> cm_actor) list \<Rightarrow> ('k, 'v) cm_sys \<Rightarrow> ('k, 'v) cm_sys" where
  "cm_run [] s = s"
| "cm_run ((inp, who) # es) s = cm_run es (cm_step inp who s)"

section \<open>Every item belongs to one key\<close>

text \<open>
  \<open>K\<close> gives the key an item was made for (\<open>None\<close> for the status item of a batch), \<open>P k v\<close>
  says that \<open>v\<close> may be shown for \<open>k\<close>.
\<close>

definition map_ok :: "(item_addr \<Rightarrow> 'k option) \<Rightarrow> ('k \<Rightarrow> 'v \<Rightarrow> bool) \<Rightarrow> ('k, 'v) CacheMap \<Rightarrow> bool" where
  "map_ok K P c \<longleftrightarrow>
     (\<forall>k a. dataMap c k = Some a \<longrightarrow> a < next_item c \<and> K a = Some k)
     \<and> (\<forall>a k v. a < next_item c \<longrightarrow> K a = Some k \<longrightarrow> it_data (store c a) = Some v \<longrightarrow> P k v)
     \<and> (\<forall>k. P k (zero_value c))"

definition agree :: "nat \<Rightarrow> (item_addr \<Rightarrow> 'k option) \<Rightarrow> (item_addr \<Rightarrow> 'k option) \<Rightarrow> bool" where
  "agree n K K' \<longleftrightarrow> (\<forall>a < n. K' a = K a)"

definition item_for :: "(item_addr \<Rightarrow> 'k option) \<Rightarrow> ('k, 'v) CacheMap \<Rightarrow> 'k \<Rightarrow> item_addr \<Rightarrow> bool" where
  "item_for K c k a \<longleftrightarrow> a < next_item c \<and> K a = Some k"

definition todo_ok :: "(item_addr \<Rightarrow> 'k option) \<Rightarrow> ('k, 'v) CacheMap \<Rightarrow> ('k \<times> item_addr) list \<Rightarrow> bool" where
  "todo_ok K c todo \<longleftrightarrow> (\<forall>(k, a) \<in> set todo. item_for K c k a)"

definition data_ok :: "('k \<Rightarrow> 'v \<Rightarrow> bool) \<Rightarrow> ('k \<rightharpoonup> 'v) \<Rightarrow> bool" where
  "data_ok P data \<longleftrightarrow> (\<forall>k v. data k = Some v \<longrightarrow> P k v)"

text \<open>A status item belongs to no key and holds no data.\<close>

definition status_ok :: "(item_addr \<Rightarrow> 'k option) \<Rightarrow> ('k, 'v) CacheMap \<Rightarrow> item_addr \<Rightarrow> bool" where
  "status_ok K c a \<longleftrightarrow> a < next_item c \<and> K a = None"

fun caller_ok :: "(item_addr \<Rightarrow> 'k option) \<Rightarrow> ('k \<Rightarrow> 'v \<Rightarrow> bool) \<Rightarrow> ('k, 'v) CacheMap \<Rightarrow> ('k, 'v) caller \<Rightarrow> bool" where
  "caller_ok K P c (CCheck k now a) = item_for K c k a"
| "caller_ok K P c (CClaim k now a) = item_for K c k a"
| "caller_ok K P c (CWait k now a) = item_for K c k a"
| "caller_ok K P c (CEvict k now a) = item_for K c k a"
| "caller_ok K P c (CRead k a) = item_for K c k a"
| "caller_ok K P c (CDone k v) = P k v"
| "caller_ok K P c (MClaim ks now data) = data_ok P data"
| "caller_ok K P c (MSpawn todo b now data) = (todo_ok K c todo \<and> data_ok P data)"
| "caller_ok K P c (MWait st todo now data) = (status_ok K c st \<and> todo_ok K c todo \<and> data_ok P data)"
| "caller_ok K P c (MRead todo data) = (todo_ok K c todo \<and> data_ok P data)"
| "caller_ok K P c (MDone data) = data_ok P data"
| "caller_ok K P c g = True"

fun fetch_ok :: "(item_addr \<Rightarrow> 'k option) \<Rightarrow> ('k \<Rightarrow> 'v \<Rightarrow> bool) \<Rightarrow> ('k, 'v) CacheMap \<Rightarrow> ('k, 'v) fetch \<Rightarrow> bool" where
  "fetch_ok K P c (FLoad k a) = item_for K c k a"
| "fetch_ok K P c (FStamp k a v e) = (item_for K c k a \<and> P k v)"
| "fetch_ok K P c (FStore k a v e now) = (item_for K c k a \<and> P k v)"
| "fetch_ok K P c (BLoad todo st) = (status_ok K c st \<and> todo_ok K c todo \<and> loadDataBatch c)"
| "fetch_ok K P c (BStamp todo st data e) = (status_ok K c st \<and> todo_ok K c todo \<and> loadDataBatch c
     \<and> (\<forall>(k, a) \<in> set todo. P k (batch_value c data k)))"
| "fetch_ok K P c (BStore todo st data e now) = (status_ok K c st \<and> todo_ok K c todo \<and> loadDataBatch c
     \<and> (\<forall>(k, a) \<in> set todo. P k (batch_value c data k)))"
| "fetch_ok K P c FEnd = True"

text \<open>Steps that leave keys, data and the configuration alone.\<close>

definition cm_frame :: "('k, 'v) CacheMap \<Rightarrow> ('k, 'v) CacheMap \<Rightarrow> bool" where
  "cm_frame c c' \<longleftrightarrow> next_item c \<le> next_item c' \<and> zero_value c' = zero_value c
     \<and> loadDataBatch c' = loadDataBatch c \<and> cm_expirationOnErr c' = cm_expirationOnErr c"

lemma cm_frame_refl [simp]: "cm_frame c c"
  by (simp add: cm_frame_def)

lemma cm_frame_trans: "cm_frame c c' \<Longrightarrow> cm_frame c' c'' \<Longrightarrow> cm_frame c c''"
  by (simp add: cm_frame_def)

lemma agree_refl [simp]: "agree n K K"
  by (simp add: agree_def)

lemma agree_trans: "agree n K K' \<Longrightarrow> agree n' K' K'' \<Longrightarrow> n \<le> n' \<Longrightarrow> agree n K K''"
  by (simp add: agree_def)

lemma item_for_mono: "item_for K c k a \<Longrightarrow> agree (next_item c) K K' \<Longrightarrow> cm_frame c c' \<Longrightarrow> item_for K' c' k a"
  by (auto simp: item_for_def agree_def cm_frame_def)

lemma todo_ok_mono: "todo_ok K c todo \<Longrightarrow> agree (next_item c) K K' \<Longrightarrow> cm_frame c c' \<Longrightarrow> todo_ok K' c' todo"
  by (auto simp: todo_ok_def intro: item_for_mono)

lemma status_ok_mono: "status_ok K c a \<Longrightarrow> agree (next_item c) K K' \<Longrightarrow> cm_frame c c' \<Longrightarrow> status_ok K' c' a"
  by (auto simp: status_ok_def agree_def cm_frame_def)

lemma batch_value_frame: "cm_frame c c' \<Longrightarrow> batch_value c' = batch_value c"
  by (simp add: batch_value_def cm_frame_def fun_eq_iff split: option.splits)

lemma caller_ok_mono: "caller_ok K P c g \<Longrightarrow> agree (next_item c) K K' \<Longrightarrow> cm_frame c c' \<Longrightarrow> caller_ok K' P c' g"
  by (cases g) (auto intro: item_for_mono todo_ok_mono status_ok_mono)

lemma fetch_ok_mono: "fetch_ok K P c f \<Longrightarrow> agree (next_item c) K K' \<Longrightarrow> cm_frame c c' \<Longrightarrow> fetch_ok K' P c' f"
  by (cases f) (auto intro: item_for_mono todo_ok_mono status_ok_mono simp: batch_value_frame cm_frame_def)

subsection \<open>The critical sections keep it\<close>

lemma map_ok_times:
  assumes "map_ok K P c" "it_data it = it_data (store c a)"
  shows "map_ok K P (set_item a it c)"
  using assms by (auto simp: map_ok_def set_item_def)

lemma set_item_frame [simp]: "cm_frame c (set_item a it c)" "dataMap (set_item a it c) = dataMap c"
  "next_item (set_item a it c) = next_item c"
  by (simp_all add: set_item_def cm_frame_def)

lemma updateEvictTime_ok:
  assumes "map_ok K P c"
  shows "map_ok K P (updateEvictTime a now c)" "cm_frame c (updateEvictTime a now c)"
    "dataMap (updateEvictTime a now c) = dataMap c" "next_item (updateEvictTime a now c) = next_item c"
  using assms by (auto simp: updateEvictTime_def Let_def intro: map_ok_times)

lemma claim_item_ok:
  assumes "map_ok K P c" "claim_item now a c = (b, c')"
  shows "map_ok K P c'" "cm_frame c c'" "dataMap c' = dataMap c" "next_item c' = next_item c"
  using assms by (auto simp: claim_item_def intro: map_ok_times split: if_splits)

lemma store_item_ok:
  assumes "map_ok K P c" "K a = Some k" "P k v"
  shows "map_ok K P (store_item a v e now c)" "cm_frame c (store_item a v e now c)"
  using assms by (auto simp: store_item_def map_ok_def set_item_def cm_frame_def Let_def)

lemma read_item_ok: "map_ok K P c \<Longrightarrow> item_for K c k a \<Longrightarrow> P k (read_item a c)"
  by (auto simp: read_item_def item_for_def map_ok_def split: option.splits)

lemma map_ok_lookup: "map_ok K P c \<Longrightarrow> dataMap c k = Some a \<Longrightarrow> item_for K c k a"
  by (simp add: map_ok_def item_for_def)

text \<open>A new item, for a key or as a status.\<close>

lemma alloc_item_ok:
  assumes m: "map_ok K P c" and a: "alloc_item it c = (a, c')" and d: "it_data it = None"
  shows "map_ok (K(a := ko)) P c'" "agree (next_item c) K (K(a := ko))" "cm_frame c c'"
    "a < next_item c'" "dataMap c' = dataMap c" "next_item c \<le> a"
proof -
  have na: "a = next_item c" "c' = c\<lparr>store := (store c)(a := it), next_item := Suc a\<rparr>"
    using a by (auto simp: alloc_item_def)
  have "a \<noteq> b" if "dataMap c k = Some b" for k b using m that na by (auto simp: map_ok_def)
  then show "map_ok (K(a := ko)) P c'"
    using m d na by (fastforce simp: map_ok_def less_Suc_eq)
qed (use a in \<open>auto simp: alloc_item_def agree_def cm_frame_def\<close>)

lemma lookup_insert_ok:
  assumes m: "map_ok K P c" and l: "lookup_insert k now c = (a, fresh, c')"
  obtains K' where "map_ok K' P c'" "agree (next_item c) K K'" "cm_frame c c'" "item_for K' c' k a"
proof (cases "dataMap c k")
  case None
  obtain b d where b: "alloc_item (fresh_item now c) c = (b, d)" by fastforce
  have "it_data (fresh_item now c) = None" by (simp add: fresh_item_def)
  note ok = alloc_item_ok [OF m b this]
  have c': "a = b" "c' = d\<lparr>dataMap := (dataMap d)(k \<mapsto> b)\<rparr>"
    using l None b by (auto simp: lookup_insert_def)
  have "map_ok (K(b := Some k)) P c'" using ok(1) [of "Some k"] ok(4) c' by (auto simp: map_ok_def)
  moreover have "cm_frame c c'" using ok(3) c' by (simp add: cm_frame_def)
  moreover have "item_for (K(b := Some k)) c' k a" using ok(4) c' by (simp add: item_for_def)
  ultimately show ?thesis using that ok(2) [of "Some k"] by blast
next
  case (Some b)
  with l m have "a = b" "c' = c" "item_for K c k b" by (auto simp: lookup_insert_def intro: map_ok_lookup)
  with m that show ?thesis by fastforce
qed

lemma many_scan_ok:
  assumes "map_ok K P c" "data_ok P data" "many_scan now ks data uncached c = (data', un', c')"
  shows "map_ok K P c' \<and> cm_frame c c' \<and> data_ok P data'"
  using assms
proof (induction ks arbitrary: data uncached c)
  case (Cons k ks)
  show ?case
  proof (cases "dataMap c k")
    case None
    with Cons show ?thesis by simp
  next
    case (Some a)
    let ?c = "updateEvictTime a now c"
    note u = updateEvictTime_ok [OF Cons.prems(1), of a now]
    have "P k (read_item a ?c)"
      by (rule read_item_ok [OF u(1)]) (use map_ok_lookup [OF u(1)] Some u in simp)
    then have "data_ok P (data(k \<mapsto> read_item a ?c))" using Cons.prems(2) by (simp add: data_ok_def)
    moreover have "many_scan now ks (data(k \<mapsto> read_item a ?c))
        (if it_next (store ?c a) < now then uncached @ [k] else uncached) ?c = (data', un', c')"
      using Cons.prems(3) Some by (simp add: Let_def)
    ultimately show ?thesis using Cons.IH [OF u(1)] cm_frame_trans [OF u(2)] by blast
  qed
qed simp

lemma todo_ok_put: "todo_ok K c todo \<Longrightarrow> item_for K c k a \<Longrightarrow> todo_ok K c (put_assoc k a todo)"
  by (auto simp: todo_ok_def put_assoc_def)

lemma many_claim_ok:
  assumes "map_ok K P c" "todo_ok K c todo" "many_claim now ks todo b c = (todo', b', c')"
  shows "\<exists>K'. map_ok K' P c' \<and> agree (next_item c) K K' \<and> cm_frame c c' \<and> todo_ok K' c' todo'"
  using assms
proof (induction ks arbitrary: todo b c K)
  case Nil
  then show ?case by fastforce
next
  case (Cons k ks)
  have step: ?case if one: "map_ok K1 P c1" "agree (next_item c) K K1" "cm_frame c c1" "todo_ok K1 c1 t1"
    "many_claim now ks t1 b1 c1 = (todo', b', c')" for K1 c1 t1 b1
  proof -
    obtain K2 where "map_ok K2 P c'" "agree (next_item c1) K1 K2" "cm_frame c1 c'" "todo_ok K2 c' todo'"
      using Cons.IH [OF one(1,4,5)] by blast
    with one show ?thesis by (meson agree_trans cm_frame_def cm_frame_trans)
  qed
  show ?case
  proof (cases "dataMap c k")
    case None
    obtain a f c1 where l: "lookup_insert k now c = (a, f, c1)" by (metis prod_cases3)
    obtain K1 where K1: "map_ok K1 P c1" "agree (next_item c) K K1" "cm_frame c c1" "item_for K1 c1 k a"
      using lookup_insert_ok [OF Cons.prems(1) l] .
    have "todo_ok K1 c1 (put_assoc k a todo)"
      using todo_ok_mono [OF Cons.prems(2) K1(2,3)] K1(4) by (rule todo_ok_put)
    with step [OF K1(1-3)] Cons.prems(3) None l show ?thesis by simp
  next
    case (Some a)
    obtain f c1 where l: "claim_item now a c = (f, c1)" by fastforce
    note u = claim_item_ok [OF Cons.prems(1) l]
    have i: "item_for K c1 k a" using map_ok_lookup [OF u(1)] u(3) Some by simp
    have t: "todo_ok K c1 todo" using todo_ok_mono [OF Cons.prems(2) agree_refl u(2)] .
    from step [OF u(1) agree_refl u(2)] t todo_ok_put [OF t i] Cons.prems(3) Some l show ?thesis
      by (cases f) auto
  qed
qed

lemma many_read_ok:
  "map_ok K P c \<Longrightarrow> todo_ok K c todo \<Longrightarrow> data_ok P data \<Longrightarrow> data_ok P (many_read todo data c)"
proof (induction todo data c rule: many_read.induct)
  case (2 k a todo data c)
  have t: "item_for K c k a" "todo_ok K c todo" using "2.prems"(2) by (simp_all add: todo_ok_def)
  have "data_ok P (data(k \<mapsto> read_item a c))"
    using "2.prems"(3) read_item_ok [OF "2.prems"(1) t(1)] by (simp add: data_ok_def)
  with "2.IH" "2.prems"(1) t(2) show ?case unfolding many_read.simps by blast
qed simp

lemma foldl_remove: "foldl (\<lambda>m k. m(k := None)) m keys k = (if k \<in> set keys then None else m k)"
  by (induction keys arbitrary: m) auto

lemma evict_delete_ok:
  assumes "map_ok K P c"
  shows "map_ok K P (evict_delete keys c) \<and> cm_frame c (evict_delete keys c)"
  using assms by (auto simp: map_ok_def evict_delete_def cm_frame_def foldl_remove split: if_splits)

subsection \<open>Every step keeps it\<close>

definition cm_ok :: "(item_addr \<Rightarrow> 'k option) \<Rightarrow> ('k \<Rightarrow> 'v \<Rightarrow> bool) \<Rightarrow> ('k, 'v) cm_sys \<Rightarrow> bool" where
  "cm_ok K P s \<longleftrightarrow> map_ok K P (cmap s) \<and> list_all (caller_ok K P (cmap s)) (callers s)
     \<and> list_all (fetch_ok K P (cmap s)) (fetches s)"

text \<open>The results the environment gives are ones that may be shown.\<close>

definition input_ok :: "('k \<Rightarrow> 'v \<Rightarrow> bool) \<Rightarrow> int \<Rightarrow> ('k, 'v) cm_input \<Rightarrow> bool" where
  "input_ok P onErr inp \<longleftrightarrow>
     (\<forall>k v err. cm_loaded inp k = (v, err) \<longrightarrow> (err \<longrightarrow> 0 < onErr) \<longrightarrow> P k v)
     \<and> (\<forall>ks m err k v. cm_batch inp ks = (m, err) \<longrightarrow> (err \<longrightarrow> 0 < onErr) \<longrightarrow> m k = Some v \<longrightarrow> P k v)"

lemma load_expire_Some: "load_expire err c = Some e \<Longrightarrow> err \<Longrightarrow> 0 < cm_expirationOnErr c"
  by (auto simp: load_expire_def split: if_splits)

definition step_ok :: "(item_addr \<Rightarrow> 'k option) \<Rightarrow> ('k \<Rightarrow> 'v \<Rightarrow> bool) \<Rightarrow> ('k, 'v) CacheMap \<Rightarrow> ('k, 'v) CacheMap
    \<Rightarrow> ('k, 'v) caller \<Rightarrow> ('k, 'v) fetch list \<Rightarrow> bool" where
  "step_ok K P c c' g fs \<longleftrightarrow> (\<exists>K'. map_ok K' P c' \<and> agree (next_item c) K K' \<and> cm_frame c c'
     \<and> caller_ok K' P c' g \<and> list_all (fetch_ok K' P c') fs)"

lemma step_okI:
  "map_ok K' P c' \<Longrightarrow> agree (next_item c) K K' \<Longrightarrow> cm_frame c c' \<Longrightarrow> caller_ok K' P c' g
    \<Longrightarrow> list_all (fetch_ok K' P c') fs \<Longrightarrow> step_ok K P c c' g fs"
  unfolding step_ok_def by blast

lemma step_ok_same: "map_ok K P c \<Longrightarrow> caller_ok K P c g \<Longrightarrow> list_all (fetch_ok K P c) fs \<Longrightarrow> step_ok K P c c g fs"
  by (rule step_okI) simp_all

lemma start_get_ok [simp]: "caller_ok K P c (start_get inp)"
  by (simp add: start_get_def split: cm_call.split)

lemma caller_step_ok:
  assumes m: "map_ok K P c" and g: "caller_ok K P c g" and st: "caller_step inp g c = (g', c', fs)"
  shows "step_ok K P c c' g' fs"
proof (cases g)
  case (CLookup k now)
  with m st show ?thesis by (auto intro!: step_ok_same simp: map_ok_lookup split: option.splits)
next
  case (CInsert k now)
  obtain a f d where l: "lookup_insert k now c = (a, f, d)" by (metis prod_cases3)
  obtain K' where "map_ok K' P d" "agree (next_item c) K K'" "cm_frame c d" "item_for K' d k a"
    using lookup_insert_ok [OF m l] .
  with CInsert st l show ?thesis by (auto intro!: step_okI [of K'])
next
  case (CClaim k now a)
  obtain b d where l: "claim_item now a c = (b, d)" by fastforce
  note u = claim_item_ok [OF m l]
  have "item_for K d k a" using g CClaim u(2) by (auto intro: item_for_mono)
  with CClaim st l u show ?thesis by (auto intro!: step_okI [of K])
next
  case (CEvict k now a)
  note u = updateEvictTime_ok [OF m, of a now]
  have "item_for K (updateEvictTime a now c) k a" using g CEvict u(2) by (auto intro: item_for_mono)
  with CEvict st u show ?thesis by (auto intro!: step_okI [of K])
next
  case (CRead k a)
  have "P k (read_item a c)" using read_item_ok [OF m] g CRead by simp
  with m CRead st show ?thesis by (auto intro!: step_ok_same)
next
  case (MScan ks now)
  obtain data un d where l: "many_scan now ks Map.empty [] c = (data, un, d)" by (metis prod_cases3)
  have "data_ok P Map.empty" by (simp add: data_ok_def)
  from many_scan_ok [OF m this l] MScan st l show ?thesis by (auto intro!: step_okI [of K])
next
  case (MClaim ks now data)
  obtain todo b d where l: "many_claim now ks [] False c = (todo, b, d)" by (metis prod_cases3)
  have "todo_ok K c []" by (simp add: todo_ok_def)
  from many_claim_ok [OF m this l] obtain K' where
    "map_ok K' P d" "agree (next_item c) K K'" "cm_frame c d" "todo_ok K' d todo" by blast
  with MClaim g st l show ?thesis by (auto intro!: step_okI [of K'])
next
  case (MSpawn todo b now data)
  show ?thesis
  proof (cases "todo = []")
    case True
    with MSpawn m g st show ?thesis by (auto intro!: step_ok_same)
  next
    case False
    obtain a d where l: "alloc_item \<lparr>it_data = None, it_next = 0,
        it_cutoff = i64 (now + cm_waitTimeout c), it_evict = 0\<rparr> c = (a, d)" by fastforce
    let ?K = "K(a := None)"
    have u: "map_ok ?K P d" "agree (next_item c) K ?K" "cm_frame c d" "a < next_item d"
      using alloc_item_ok [OF m l] by simp_all
    have t: "todo_ok ?K d todo" using todo_ok_mono [OF _ u(2,3)] g MSpawn by simp
    have s: "status_ok ?K d a" using u(4) by (simp add: status_ok_def)
    have "list_all (fetch_ok ?K P d) (map (\<lambda>(k, a). FLoad k a) todo)"
      using t by (auto simp: list_all_iff todo_ok_def)
    with MSpawn False g st l u t s show ?thesis
      by (auto intro!: step_okI [of ?K] simp: cm_frame_def)
  qed
next
  case (MRead todo data)
  have "data_ok P (many_read todo data c)" using many_read_ok [OF m] g MRead by simp
  with m MRead st show ?thesis by (auto intro!: step_ok_same)
qed (use m g st in \<open>auto intro!: step_ok_same split: option.splits if_splits\<close>)

lemma fetch_step_ok:
  assumes m: "map_ok K P c" and f: "fetch_ok K P c f" and i: "input_ok P (cm_expirationOnErr c) inp"
    and st: "fetch_step inp f c = (f', c')"
  shows "map_ok K P c'" "cm_frame c c'" "fetch_ok K P c' f'" "dataMap c' = dataMap c"
proof -
  have z: "P k (zero_value c)" for k using m by (simp add: map_ok_def)
  have "map_ok K P c' \<and> cm_frame c c' \<and> fetch_ok K P c' f' \<and> dataMap c' = dataMap c"
  proof (cases f)
    case (FLoad k a)
    obtain v err where b: "cm_loaded inp k = (v, err)" by fastforce
    show ?thesis
    proof (cases "load_expire err c")
      case (Some e)
      then have "err \<longrightarrow> 0 < cm_expirationOnErr c" by (blast intro: load_expire_Some)
      with i b have "P k v" unfolding input_ok_def by blast
      with FLoad m f st b Some show ?thesis by auto
    qed (use FLoad m f st b in auto)
  next
    case (FStore k a v e now)
    with f st store_item_ok [OF m, of a k v e now] show ?thesis
      by (auto simp: item_for_def store_item_def Let_def)
  next
    case (BLoad todo status)
    obtain data err where b: "cm_batch inp (map fst todo) = (data, err)" by fastforce
    show ?thesis
    proof (cases "load_expire err c")
      case (Some e)
      then have "err \<longrightarrow> 0 < cm_expirationOnErr c" by (blast intro: load_expire_Some)
      with i b have "data k = Some v \<Longrightarrow> P k v" for k v unfolding input_ok_def by blast
      with z have "P k (batch_value c data k)" for k by (simp add: batch_value_def split: option.splits)
      with BLoad m f st b Some show ?thesis by auto
    qed (use BLoad m f st b in auto)
  next
    case (BStore todo status data e now)
    show ?thesis
    proof (cases todo)
      case Nil
      with BStore st have c: "c' = set_item status ((store c status)\<lparr>it_cutoff := now\<rparr>) c" "f' = FEnd" by auto
      show ?thesis unfolding c by (auto intro: map_ok_times [OF m])
    next
      case (Cons x xs)
      obtain k a where x: "x = (k, a)" by fastforce
      let ?v = "batch_value c data k"
      have f2: "item_for K c k a" "P k ?v" "status_ok K c status" "todo_ok K c xs" "loadDataBatch c"
        "\<forall>(k, a) \<in> set xs. P k (batch_value c data k)"
        using f BStore Cons x by (simp_all add: todo_ok_def)
      note u = store_item_ok [OF m, of a k ?v e now]
      have u2: "map_ok K P c'" "cm_frame c c'" "dataMap c' = dataMap c" "f' = BStore xs status data e now"
        using u f2 st BStore Cons x by (auto simp: item_for_def store_item_def Let_def)
      moreover have "fetch_ok K P c' f'" unfolding u2(4)
        using f2 u2(2) batch_value_frame [OF u2(2)] status_ok_mono [OF _ agree_refl u2(2)]
          todo_ok_mono [OF _ agree_refl u2(2)] by (simp add: cm_frame_def)
      ultimately show ?thesis by simp
    qed
  qed (use m f st in auto)
  then show "map_ok K P c'" "cm_frame c c'" "fetch_ok K P c' f'" "dataMap c' = dataMap c" by simp_all
qed

lemma list_all_mono': "list_all P xs \<Longrightarrow> (\<And>x. P x \<Longrightarrow> Q x) \<Longrightarrow> list_all Q xs"
  by (auto simp: list_all_iff)

lemma cm_step_ok:
  assumes s: "cm_ok K P s" and i: "input_ok P (cm_expirationOnErr (cmap s)) inp"
  shows "\<exists>K'. cm_ok K' P (cm_step inp who s) \<and> agree (next_item (cmap s)) K K'
    \<and> cm_frame (cmap s) (cmap (cm_step inp who s))"
proof -
  have m: "map_ok K P (cmap s)" and cs: "list_all (caller_ok K P (cmap s)) (callers s)"
    and fs: "list_all (fetch_ok K P (cmap s)) (fetches s)" using s by (simp_all add: cm_ok_def)
  have lift: "list_all (caller_ok K' P c') (callers s)" "list_all (fetch_ok K' P c') (fetches s)"
    if "agree (next_item (cmap s)) K K'" "cm_frame (cmap s) c'" for K' c'
    using list_all_mono' [OF cs] caller_ok_mono [OF _ that] list_all_mono' [OF fs] fetch_ok_mono [OF _ that]
    by blast+
  show ?thesis
  proof (cases who)
    case (Caller n)
    show ?thesis
    proof (cases "n < length (callers s)")
      case True
      obtain g c new where st: "caller_step inp (callers s ! n) (cmap s) = (g, c, new)" by (metis prod_cases3)
      have "caller_ok K P (cmap s) (callers s ! n)" using cs True by (simp add: list_all_length)
      from caller_step_ok [OF m this st] obtain K' where K':
        "map_ok K' P c" "agree (next_item (cmap s)) K K'" "cm_frame (cmap s) c" "caller_ok K' P c g"
        "list_all (fetch_ok K' P c) new" unfolding step_ok_def by blast
      with Caller True st lift [OF K'(2,3)] show ?thesis
        by (intro exI [of _ K']) (simp add: cm_step_def cm_ok_def list_all_update)
    qed (use Caller s in \<open>auto simp: cm_step_def\<close>)
  next
    case (Fetcher n)
    show ?thesis
    proof (cases "n < length (fetches s)")
      case True
      obtain f c where st: "fetch_step inp (fetches s ! n) (cmap s) = (f, c)" by fastforce
      have "fetch_ok K P (cmap s) (fetches s ! n)" using fs True by (simp add: list_all_length)
      note u = fetch_step_ok [OF m this i st]
      with Fetcher True st lift [OF agree_refl u(2)] show ?thesis
        by (intro exI [of _ K]) (simp add: cm_step_def cm_ok_def list_all_update)
    qed (use Fetcher s in \<open>auto simp: cm_step_def\<close>)
  next
    case Evictor
    obtain e c where st: "evict_step inp (evictor s) (cmap s) = (e, c)" by fastforce
    have u: "map_ok K P c" "cm_frame (cmap s) c"
      using st m evict_delete_ok [OF m] by (cases "evictor s"; auto)+
    with Evictor st lift [OF agree_refl u(2)] show ?thesis
      by (intro exI [of _ K]) (simp add: cm_step_def cm_ok_def)
  qed
qed

lemma cm_run_ok:
  assumes "cm_ok K P s" "\<And>inp who. (inp, who) \<in> set es \<Longrightarrow> input_ok P (cm_expirationOnErr (cmap s)) inp"
  shows "\<exists>K'. cm_ok K' P (cm_run es s)"
  using assms
proof (induction es s arbitrary: K rule: cm_run.induct)
  case (2 inp who es s)
  have "input_ok P (cm_expirationOnErr (cmap s)) inp" by (rule "2.prems"(2) [of inp who]) simp
  from cm_step_ok [OF "2.prems"(1) this] obtain K' where K': "cm_ok K' P (cm_step inp who s)"
    "cm_frame (cmap s) (cmap (cm_step inp who s))" by blast
  have "\<exists>K''. cm_ok K'' P (cm_run es (cm_step inp who s))"
    by (rule "2.IH" [OF K'(1)]) (use K'(2) "2.prems"(2) in \<open>auto simp: cm_frame_def\<close>)
  then show ?case by simp
qed auto

lemma cm_run_length: "length (callers (cm_run es s)) = length (callers s)"
proof (induction es s rule: cm_run.induct)
  case (2 inp who es s)
  have "length (callers (cm_step inp who s)) = length (callers s)"
    by (auto simp: cm_step_def split: cm_actor.splits prod.splits)
  with 2 show ?case by simp
qed simp

text \<open>What a finished call shows for a key.\<close>

fun shows_value :: "('k, 'v) caller \<Rightarrow> 'k \<Rightarrow> 'v \<Rightarrow> bool" where
  "shows_value (CDone k' v') k v = (k' = k \<and> v' = v)"
| "shows_value (MDone data) k v = (data k = Some v)"
| "shows_value g k v = False"

definition source_value :: "int \<Rightarrow> ('k, 'v) cm_input \<Rightarrow> 'k \<Rightarrow> 'v \<Rightarrow> bool" where
  "source_value onErr inp k v \<longleftrightarrow>
     (\<exists>err. cm_loaded inp k = (v, err) \<and> (err \<longrightarrow> 0 < onErr))
     \<or> (\<exists>ks m err. cm_batch inp ks = (m, err) \<and> (err \<longrightarrow> 0 < onErr) \<and> m k = Some v)"

text \<open>
  C16. No value is ever shown under the wrong key. In every interleaving of \<open>Get\<close>, \<open>GetMany\<close>,
  single and batch loads and evictions, what a call shows for a key is the zero value or a
  value that the loader, or the batch loader, gave for that very key (of a failed load only
  when \<open>ExpirationOnErr\<close> is set).
\<close>

theorem cache_shows_own_values:
  assumes "dataMap c = Map.empty" "i < n" "shows_value (callers (cm_run es (cm_start c n)) ! i) k v"
  shows "v = zero_value c \<or> (\<exists>inp who. (inp, who) \<in> set es \<and> source_value (cm_expirationOnErr c) inp k v)"
proof -
  let ?P = "\<lambda>k v. v = zero_value c \<or> (\<exists>inp who. (inp, who) \<in> set es \<and> source_value (cm_expirationOnErr c) inp k v)"
  let ?s = "cm_run es (cm_start c n)"
  have "cm_ok (\<lambda>_. None) ?P (cm_start c n)"
    by (simp add: cm_ok_def cm_start_def map_ok_def assms(1) list_all_iff)
  moreover have "input_ok ?P (cm_expirationOnErr (cmap (cm_start c n))) inp" if "(inp, who) \<in> set es" for inp who
    using that unfolding input_ok_def source_value_def cm_start_def by (simp, blast)
  ultimately obtain K where "cm_ok K ?P ?s" using cm_run_ok by blast
  then have "caller_ok K ?P (cmap ?s) (callers ?s ! i)"
    using assms(2) by (simp add: cm_ok_def list_all_length cm_run_length cm_start_def)
  with assms(3) show ?thesis by (cases "callers ?s ! i") (auto simp: data_ok_def)
qed

definition cm_opt :: "CacheMapOption" where
  "cm_opt = \<lparr>HasLoadDataBatch = False, MExpiration = 50, MExpirationOnErr = 0, MEvictTimeout = 0,
     MRetryInterval = 0, MWaitTimeout = 1\<rparr>"

definition cm_demo :: "(string, int) CacheMap" where
  "cm_demo = \<lparr>dataMap = Map.empty,
     store = (\<lambda>_. \<lparr>it_data = None, it_next = 0, it_cutoff = 0, it_evict = 0\<rparr>),
     next_item = 0, loadDataBatch = False, cm_expiration = 50000000, cm_expirationOnErr = 0,
     cm_retryInterval = 1000000000, cm_waitTimeout = 1000000, cm_evictTimeout = 100000000, zero_value = 0\<rparr>"

definition cm_demo_run :: "((string, int) cm_input \<times> cm_actor) list" where
  "cm_demo_run = (let e = (\<lambda>t w. (\<lparr>cm_clock = t, cm_call = CallGet ''a'', cm_loaded = (\<lambda>_. (42, False)),
       cm_batch = (\<lambda>_. (Map.empty, True)), cm_order = []\<rparr>, w)) in
     [e 5 (Caller 0), e 5 (Caller 0), e 5 (Caller 0), e 6 (Fetcher 0), e 7 (Fetcher 0), e 8 (Fetcher 0),
      e 8 (Caller 0), e 8 (Caller 0), e 8 (Caller 0), e 8 (Caller 0), e 8 (Caller 0)])"

lemma cm_demo_shows: "case callers (cm_run cm_demo_run (cm_start cm_demo 1)) ! 0 of CDone k v \<Rightarrow> k = ''a'' \<and> v = 42 | _ \<Rightarrow> False"
  by code_simp

theorem cache_shows_own_values_witness:
  "\<exists>inp who. (inp, who) \<in> set cm_demo_run \<and> source_value 0 inp ''a'' 42"
proof -
  have "shows_value (callers (cm_run cm_demo_run (cm_start cm_demo 1)) ! 0) ''a'' 42"
    using cm_demo_shows by (auto split: caller.splits)
  moreover have "dataMap cm_demo = Map.empty" "zero_value cm_demo = 0" "cm_expirationOnErr cm_demo = 0"
    by (simp_all add: cm_demo_def)
  ultimately show ?thesis
    using cache_shows_own_values [of cm_demo 0 1 cm_demo_run "''a''" 42] by auto
qed

section \<open>Which keys GetMany answers\<close>

lemma updateEvictTime_next [simp]: "it_next (store (updateEvictTime a now c) b) = it_next (store c b)"
  by (simp add: updateEvictTime_def set_item_def Let_def)

lemma updateEvictTime_map [simp]: "dataMap (updateEvictTime a now c) = dataMap c"
  by (simp add: updateEvictTime_def Let_def)

text \<open>A key is due when it has no item or one whose next update time has passed.\<close>

definition due_key :: "int \<Rightarrow> ('k, 'v) CacheMap \<Rightarrow> 'k \<Rightarrow> bool" where
  "due_key now c k \<longleftrightarrow> (case dataMap c k of None \<Rightarrow> True | Some a \<Rightarrow> it_next (store c a) < now)"

lemma due_key_evict [simp]: "due_key now (updateEvictTime a t c) k = due_key now c k"
  by (simp add: due_key_def split: option.split)

lemma many_scan_keys:
  assumes "many_scan now ks data uncached c = (data', un, c')"
  shows "dom data' = dom data \<union> {k \<in> set ks. dataMap c k \<noteq> None}
    \<and> set un = set uncached \<union> {k \<in> set ks. due_key now c k}
    \<and> dataMap c' = dataMap c \<and> (\<forall>k. due_key now c' k = due_key now c k)"
  using assms
proof (induction ks arbitrary: data uncached c)
  case (Cons k ks)
  show ?case
  proof (cases "dataMap c k")
    case None
    with Cons.prems have "many_scan now ks data (uncached @ [k]) c = (data', un, c')" by simp
    from Cons.IH [OF this] None show ?thesis by (auto simp: due_key_def)
  next
    case (Some a)
    let ?c = "updateEvictTime a now c"
    from Cons.prems Some have "many_scan now ks (data(k \<mapsto> read_item a ?c))
        (if it_next (store c a) < now then uncached @ [k] else uncached) ?c = (data', un, c')"
      by (simp add: Let_def)
    moreover have "due_key now c k \<longleftrightarrow> it_next (store c a) < now" using Some by (simp add: due_key_def)
    ultimately show ?thesis using Cons.IH Some by (fastforce split: if_splits)
  qed
qed simp

lemma put_assoc_keys [simp]: "fst ` set (put_assoc k x xs) = insert k (fst ` set xs)"
  by (force simp: put_assoc_def image_iff)

definition items_apart :: "('k, 'v) CacheMap \<Rightarrow> bool" where
  "items_apart c \<longleftrightarrow> (\<forall>k a. dataMap c k = Some a \<longrightarrow> a < next_item c)
     \<and> (\<forall>k k' a. dataMap c k = Some a \<longrightarrow> dataMap c k' = Some a \<longrightarrow> k = k')"

lemma map_ok_apart: "map_ok K P c \<Longrightarrow> items_apart c"
  unfolding map_ok_def items_apart_def by (metis option.inject)

text \<open>Claiming one key does not make another due or not due.\<close>

lemma lookup_insert_apart:
  assumes "items_apart c" "dataMap c k = None" "lookup_insert k now c = (a, b, c')"
  shows "items_apart c' \<and> (\<forall>k'. k' \<noteq> k \<longrightarrow> due_key t c' k' = due_key t c k')"
proof -
  have c': "c' = c\<lparr>store := (store c)(next_item c := fresh_item now c), next_item := Suc (next_item c),
      dataMap := (dataMap c)(k \<mapsto> next_item c)\<rparr>"
    using assms(2,3) by (auto simp: lookup_insert_def alloc_item_def)
  have lt: "b < next_item c" if "dataMap c x = Some b" for x b using assms(1) that unfolding items_apart_def by blast
  have inj: "x = y" if "dataMap c x = Some b" "dataMap c y = Some b" for x y b
    using assms(1) that unfolding items_apart_def by blast
  have "items_apart c'" by (auto simp: items_apart_def c' dest: lt inj split: if_splits)
  moreover have "due_key t c' k' = due_key t c k'" if "k' \<noteq> k" for k'
  proof (cases "dataMap c k'")
    case (Some a)
    then have "a \<noteq> next_item c" using assms(1) unfolding items_apart_def by blast
    with Some that show ?thesis by (simp add: c' due_key_def)
  qed (use that in \<open>simp add: c' due_key_def\<close>)
  ultimately show ?thesis by blast
qed

lemma claim_item_apart:
  assumes "items_apart c" "dataMap c k = Some a" "claim_item now a c = (b, c')"
  shows "items_apart c' \<and> (\<forall>k'. k' \<noteq> k \<longrightarrow> due_key t c' k' = due_key t c k')"
proof -
  have "items_apart c'" using assms by (auto simp: claim_item_def items_apart_def split: if_splits)
  moreover have "due_key t c' k' = due_key t c k'" if "k' \<noteq> k" for k'
  proof (cases "dataMap c k'")
    case (Some a')
    with assms(1,2) that have "a' \<noteq> a" unfolding items_apart_def by blast
    with Some assms(3) show ?thesis by (auto simp: claim_item_def due_key_def set_item_def split: if_splits)
  qed (use assms(3) in \<open>auto simp: claim_item_def due_key_def split: if_splits\<close>)
  ultimately show ?thesis by blast
qed

lemma many_claim_keys:
  assumes "items_apart c" "many_claim now ks todo b c = (todo', b', c')"
  shows "fst ` set todo' = fst ` set todo \<union> {k \<in> set ks. due_key now c k \<and> k \<notin> fst ` set todo}"
  using assms
proof (induction ks arbitrary: todo b c)
  case (Cons k ks)
  show ?case
  proof (cases "dataMap c k")
    case None
    obtain a f c1 where l: "lookup_insert k now c = (a, f, c1)" by (metis prod_cases3)
    with Cons.prems(2) None have m: "many_claim now ks (put_assoc k a todo) True c1 = (todo', b', c')" by simp
    note u = lookup_insert_apart [OF Cons.prems(1) None l, of now]
    from Cons.IH [OF _ m] u None show ?thesis by (auto simp: due_key_def)
  next
    case (Some a)
    obtain f c1 where l: "claim_item now a c = (f, c1)" by fastforce
    note u = claim_item_apart [OF Cons.prems(1) Some l, of now]
    have d: "due_key now c k = f" using Some l by (auto simp: due_key_def claim_item_def split: if_splits)
    show ?thesis
    proof (cases f)
      case True
      with Cons.prems(2) Some l have m: "many_claim now ks (put_assoc k a todo) b c1 = (todo', b', c')" by simp
      from Cons.IH [OF _ m] u d True show ?thesis by auto
    next
      case False
      then have "c1 = c" using l by (auto simp: claim_item_def split: if_splits)
      with Cons.prems(2) Some l False have m: "many_claim now ks todo b c = (todo', b', c')" by simp
      from Cons.IH [OF Cons.prems(1) m] d False show ?thesis by auto
    qed
  qed
qed auto

lemma many_read_dom: "dom (many_read todo data c) = dom data \<union> fst ` set todo"
proof (induction todo arbitrary: data)
  case (Cons x todo)
  obtain k a where "x = (k, a)" by fastforce
  then have "dom (many_read (x # todo) data c) = dom (data(k \<mapsto> read_item a c)) \<union> fst ` set todo"
    by (simp only: many_read.simps Cons.IH)
  with \<open>x = (k, a)\<close> show ?case by auto
qed simp

text \<open>
  Exactly which keys \<open>GetMany\<close> answers. The first pass runs on the cache \<open>c\<close>, the second,
  under the write lock, on \<open>c2\<close>, the third on \<open>c3\<close>, as other goroutines left it. A key of
  the request is answered when it had an item in the first pass or is due in the second. With
  nothing in between that is every key; but a key that another goroutine inserts between the two
  locks is missing from the result, and is not waited for.
\<close>

theorem GetMany_keys:
  assumes "many_scan now ks Map.empty [] c = (data, un, c1)" "items_apart c2"
    and "many_claim now un [] False c2 = (todo, b, c2')"
  shows "dom (many_read todo data c3) = {k \<in> set ks. k \<in> dom (dataMap c) \<or> due_key now c2 k}
    \<and> (if c2 = c1 then dom (many_read todo data c3) = set ks else True)"
proof -
  note s = many_scan_keys [OF assms(1)]
  have nd: "dataMap c k = None \<Longrightarrow> due_key now c k" for k by (simp add: due_key_def)
  have "dom (many_read todo data c3) = {k \<in> set ks. dataMap c k \<noteq> None \<or> (due_key now c k \<and> due_key now c2 k)}"
    using s many_claim_keys [OF assms(2,3)] by (auto simp: many_read_dom)
  also have "\<dots> = {k \<in> set ks. dataMap c k \<noteq> None \<or> due_key now c2 k}" using nd by auto
  finally have e: "dom (many_read todo data c3) = {k \<in> set ks. dataMap c k \<noteq> None \<or> due_key now c2 k}" .
  moreover have "{k \<in> set ks. dataMap c k \<noteq> None \<or> due_key now c2 k} = set ks" if "c2 = c1"
    using s nd that by auto
  ultimately show ?thesis by (simp add: domIff)
qed

text \<open>The missing key of the interleaving, on a concrete cache.\<close>

theorem GetMany_keys_witness:
  "\<exists>c2. dom (many_read [] (Map.empty :: string \<rightharpoonup> int) c2) = {k \<in> {''a''}. k \<in> dom (dataMap cm_demo) \<or> due_key 7 c2 k}
    \<and> \<not> due_key 7 c2 ''a''"
proof -
  obtain a b c2 where l: "lookup_insert ''a'' 6 cm_demo = (a, b, c2)" by (metis prod_cases3)
  then have c2: "dataMap c2 ''a'' = Some 0" "\<not> due_key 7 c2 ''a''" "items_apart c2"
    by (auto simp: lookup_insert_def cm_demo_def alloc_item_def due_key_def fresh_item_def items_apart_def
        in_i64_def split: if_splits)
  have 1: "many_scan 7 [''a''] Map.empty [] cm_demo = (Map.empty, [''a''], cm_demo)" by (simp add: cm_demo_def)
  have 2: "many_claim 7 [''a''] [] False c2 = ([], False, c2)"
    using c2 by (simp add: claim_item_def due_key_def)
  from GetMany_keys [OF 1 c2(3) 2, of c2] c2(2) show ?thesis by auto
qed

section \<open>Eviction and construction\<close>

text \<open>
  What an eviction run removes: exactly the keys whose evict time had passed when the map
  was scanned, from the map \<open>c2\<close> as it is when the write lock is taken. The evict time is not
  read again, so an item that a \<open>Get\<close> has refreshed in between, or that was evicted and
  created anew, is removed all the same.
\<close>

theorem evict_removes_scanned:
  "dataMap (evict_delete (evict_scan now order c) c2) k =
    (if k \<in> set order \<and> (case dataMap c k of None \<Rightarrow> False | Some a \<Rightarrow> it_evict (store c a) < now)
     then None else dataMap c2 k)"
  by (simp add: evict_delete_def evict_scan_def foldl_remove)

text \<open>
  The constructor panics exactly when neither the expiration nor the evict timeout is
  positive, on the interval of the ticker. Otherwise the evict timeout is positive and larger
  than the expiration, the retry interval positive and the map empty.
\<close>

theorem NewCacheMap_result:
  assumes "in_i64 (MExpiration opt * 2000000)" "in_i64 (MEvictTimeout opt * 1000000)"
  shows "if MExpiration opt \<le> 0 \<and> MEvictTimeout opt \<le> 0
    then NewCacheMap zero opt = (Panic NonPositiveInterval :: ('k, 'v) CacheMap exec)
    else \<exists>c :: ('k, 'v) CacheMap. NewCacheMap zero opt = Return c
      \<and> 0 < cm_evictTimeout c \<and> cm_expiration c < cm_evictTimeout c
      \<and> cm_expiration c = MExpiration opt * 1000000 \<and> 0 < cm_retryInterval c \<and> 0 \<le> cm_waitTimeout c
      \<and> dataMap c = Map.empty"
proof -
  have "in_i64 (MExpiration opt * 1000000)" using assms(1) by (auto simp: in_i64_def)
  then have e: "i64 (MExpiration opt * 1000000) = MExpiration opt * 1000000"
    "i64 (MEvictTimeout opt * 1000000) = MEvictTimeout opt * 1000000"
    "i64 (MExpiration opt * 1000000 * 2) = MExpiration opt * 2000000"
    using assms by (simp_all add: mult.assoc)
  show ?thesis
    unfolding NewCacheMap_def MilliToNanoSecond_def DefaultRetryInterval_def Let_def e by auto
qed

theorem NewCacheMap_result_witness:
  defines "opt \<equiv> \<lparr>HasLoadDataBatch = False, MExpiration = 0, MExpirationOnErr = 0, MEvictTimeout = 0,
     MRetryInterval = 0, MWaitTimeout = 0\<rparr>"
  shows "NewCacheMap (0 :: int) opt = (Panic NonPositiveInterval :: (string, int) CacheMap exec)"
proof -
  have "in_i64 (MExpiration opt * 2000000)" "in_i64 (MEvictTimeout opt * 1000000)"
    by (simp_all add: opt_def in_i64_def)
  from NewCacheMap_result [OF this, of "0 :: int", where ?'k = string] show ?thesis by (simp add: opt_def)
qed

section \<open>Waiting in GetMany\<close>

text \<open>Without a batch loader nothing changes the cut-off of a status item.\<close>

lemma set_item_cutoff: "b \<noteq> a \<Longrightarrow> store (set_item a it c) b = store c b"
  by (simp add: set_item_def)

lemma updateEvictTime_cutoff [simp]: "it_cutoff (store (updateEvictTime a now c) b) = it_cutoff (store c b)"
  by (simp add: updateEvictTime_def set_item_def Let_def)

lemma claim_item_cutoff: "claim_item now a c = (f, c') \<Longrightarrow> it_cutoff (store c' b) = it_cutoff (store c b)"
  by (auto simp: claim_item_def set_item_def split: if_splits)

lemma lookup_insert_cutoff:
  "lookup_insert k now c = (a, f, c') \<Longrightarrow> b < next_item c \<Longrightarrow>
    it_cutoff (store c' b) = it_cutoff (store c b) \<and> next_item c \<le> next_item c'"
  by (auto simp: lookup_insert_def alloc_item_def split: option.splits)

lemma many_scan_cutoff:
  "many_scan now ks data un c = (data', un', c') \<Longrightarrow> it_cutoff (store c' b) = it_cutoff (store c b)"
  by (induction ks arbitrary: data un c) (auto simp: Let_def split: option.splits)

lemma many_claim_cutoff:
  "many_claim now ks todo h c = (todo', h', c') \<Longrightarrow> b < next_item c \<Longrightarrow> it_cutoff (store c' b) = it_cutoff (store c b)"
proof (induction ks arbitrary: todo h c)
  case (Cons k ks)
  show ?case
  proof (cases "dataMap c k")
    case None
    obtain a f c1 where l: "lookup_insert k now c = (a, f, c1)" by (metis prod_cases3)
    with Cons.prems(1) None have "many_claim now ks (put_assoc k a todo) True c1 = (todo', h', c')" by simp
    from Cons.IH [OF this] lookup_insert_cutoff [OF l Cons.prems(2)] Cons.prems(2) show ?thesis by simp
  next
    case (Some a)
    obtain f c1 where l: "claim_item now a c = (f, c1)" by fastforce
    then have "next_item c1 = next_item c" by (auto simp: claim_item_def split: if_splits)
    moreover obtain t where "many_claim now ks t h c1 = (todo', h', c')"
      using Cons.prems(1) Some l by (cases f) auto
    ultimately show ?thesis using Cons.IH Cons.prems(2) claim_item_cutoff [OF l] by simp
  qed
qed simp

lemma caller_step_cutoff:
  assumes "caller_step inp g c = (g', c', fs)" "b < next_item c"
  shows "it_cutoff (store c' b) = it_cutoff (store c b)"
proof (cases g)
  case (CInsert k now)
  with assms show ?thesis by (auto dest: lookup_insert_cutoff split: prod.splits)
next
  case (CClaim k now a)
  with assms show ?thesis by (auto dest: claim_item_cutoff split: prod.splits)
next
  case (MScan ks now)
  with assms show ?thesis by (auto dest: many_scan_cutoff split: prod.splits)
next
  case (MClaim ks now data)
  with assms show ?thesis by (auto dest: many_claim_cutoff split: prod.splits)
next
  case (MSpawn todo h now data)
  with assms show ?thesis by (auto simp: alloc_item_def split: if_splits)
qed (use assms in \<open>auto split: option.splits if_splits\<close>)

lemma fetch_step_cutoff:
  assumes "fetch_step inp f c = (f', c')" "fetch_ok K P c f" "\<not> loadDataBatch c" "K b = None"
  shows "it_cutoff (store c' b) = it_cutoff (store c b)"
  using assms
  by (cases f) (auto simp: item_for_def store_item_def set_item_def Let_def split: prod.splits option.splits)

lemma cm_step_cutoff:
  assumes "cm_ok K P s" "\<not> loadDataBatch (cmap s)" "b < next_item (cmap s)" "K b = None"
  shows "it_cutoff (store (cmap (cm_step inp who s)) b) = it_cutoff (store (cmap s) b)"
proof (cases who)
  case (Caller i)
  then show ?thesis using assms(3)
    by (auto simp: cm_step_def dest: caller_step_cutoff split: prod.splits)
next
  case (Fetcher j)
  show ?thesis
  proof (cases "j < length (fetches s)")
    case True
    then have "fetch_ok K P (cmap s) (fetches s ! j)" using assms(1) by (simp add: cm_ok_def list_all_length)
    with True Fetcher assms show ?thesis
      by (auto simp: cm_step_def dest: fetch_step_cutoff split: prod.splits)
  qed (use Fetcher in \<open>simp add: cm_step_def\<close>)
next
  case Evictor
  then show ?thesis by (cases "evictor s") (auto simp: cm_step_def evict_delete_def)
qed

lemma cm_run_cutoff:
  assumes "cm_ok K (\<lambda>_ _. True) s" "\<not> loadDataBatch (cmap s)" "b < next_item (cmap s)" "K b = None"
  shows "it_cutoff (store (cmap (cm_run es s)) b) = it_cutoff (store (cmap s) b)"
  using assms
proof (induction es s arbitrary: K rule: cm_run.induct)
  case (2 inp who es s)
  have "input_ok (\<lambda>_ _. True) (cm_expirationOnErr (cmap s)) inp" by (simp add: input_ok_def)
  from cm_step_ok [OF "2.prems"(1) this] obtain K' where K': "cm_ok K' (\<lambda>_ _. True) (cm_step inp who s)"
    "agree (next_item (cmap s)) K K'" "cm_frame (cmap s) (cmap (cm_step inp who s))" by blast
  have "it_cutoff (store (cmap (cm_run es (cm_step inp who s))) b) = it_cutoff (store (cmap (cm_step inp who s)) b)"
    by (rule "2.IH" [OF K'(1)]) (use K'(2,3) "2.prems" in \<open>auto simp: cm_frame_def agree_def\<close>)
  with cm_step_cutoff [OF "2.prems"] show ?case by simp
qed simp

text \<open>
  Without a batch loader a \<open>GetMany\<close> that created an item waits out the whole
  \<open>WaitTimeout\<close>: in every reachable state, the cut-off its loop reads stays what it is
  whatever happens next, loads that complete included.
\<close>

theorem GetMany_ignores_single_loads:
  assumes "dataMap c = Map.empty" "\<not> loadDataBatch c" "s = cm_run es0 (cm_start c n)" "i < n"
    and "callers s ! i = MWait status todo now data"
  shows "it_cutoff (store (cmap (cm_run es s)) status) = it_cutoff (store (cmap s) status)"
proof -
  have k0: "cm_ok (\<lambda>_. None) (\<lambda>_ _. True) (cm_start c n)"
    by (simp add: cm_ok_def cm_start_def map_ok_def assms(1) list_all_iff)
  have "\<exists>K. cm_ok K (\<lambda>_ _. True) s \<and> loadDataBatch (cmap s) = loadDataBatch c" if "cm_ok K0 (\<lambda>_ _. True) s0"
    "loadDataBatch (cmap s0) = loadDataBatch c" "s = cm_run es0 s0" for K0 s0
    using that
  proof (induction es0 s0 arbitrary: K0 rule: cm_run.induct)
    case (2 inp who es s0)
    have "input_ok (\<lambda>_ _. True) (cm_expirationOnErr (cmap s0)) inp" by (simp add: input_ok_def)
    from cm_step_ok [OF "2.prems"(1) this] "2.IH" "2.prems" show ?case
      by (metis cm_frame_def cm_run.simps(2))
  qed auto
  from this [OF k0 _ assms(3)] obtain K where K: "cm_ok K (\<lambda>_ _. True) s" "loadDataBatch (cmap s) = loadDataBatch c"
    by (auto simp: cm_start_def)
  have "caller_ok K (\<lambda>_ _. True) (cmap s) (callers s ! i)"
    using K(1) assms(3,4) by (simp add: cm_ok_def list_all_length cm_run_length cm_start_def)
  with assms(5) have "status < next_item (cmap s)" "K status = None" by (simp_all add: status_ok_def)
  with cm_run_cutoff [OF K(1)] K(2) assms(2) show ?thesis by simp
qed

definition many_input :: "(string, int) cm_input" where
  "many_input = \<lparr>cm_clock = 5, cm_call = CallGetMany [''a''], cm_loaded = (\<lambda>_. (42, False)),
     cm_batch = (\<lambda>_. (Map.empty, True)), cm_order = []\<rparr>"

theorem GetMany_ignores_single_loads_witness:
  defines "s \<equiv> cm_run (replicate 4 (many_input, Caller 0)) (cm_start cm_demo 1)"
  shows "it_cutoff (store (cmap (cm_run (replicate 3 (many_input, Fetcher 0)) s)) 1) = it_cutoff (store (cmap s) 1)"
proof -
  have "case callers s ! 0 of MWait status todo now data \<Rightarrow> status = 1 | _ \<Rightarrow> False"
    unfolding s_def by code_simp
  then obtain todo now data where w: "callers s ! 0 = MWait 1 todo now data" by (auto split: caller.splits)
  have "dataMap cm_demo = Map.empty" "\<not> loadDataBatch cm_demo" by (simp_all add: cm_demo_def)
  from GetMany_ignores_single_loads [OF this s_def [THEN meta_eq_to_obj_eq] _ w] show ?thesis by simp
qed

end
