(* ===== verification/Health.thy ===== *)
theory Health
  imports Prelude "HOL-Library.Sublist"
begin

text \<open>
  The health check runner (\<open>src/health/runner.go\<close>): one check, the concurrent checks of
  one cycle, and the runner that starts cycles, keeps the last status and reports changes. The
  check functions, the clock and the comparison of two error values are arguments.
\<close>

section \<open>Status\<close>

definition StateUnknown :: int where "StateUnknown = 0"
definition StateHealthy :: int where "StateHealthy = 1"
definition StateUnhealthy :: int where "StateUnhealthy = 2"

lemmas state_defs = StateUnknown_def StateHealthy_def StateUnhealthy_def

record 'e Status =
  State :: int
  Error :: "'e option"
  Source :: string

text \<open>
  Go compares interface values with \<open>==\<close>, which panics when both hold the same type and that
  type cannot be compared; \<open>err_eq\<close> is \<open>None\<close> then.
\<close>

definition Status_Equal :: "('e \<Rightarrow> 'e \<Rightarrow> bool option) \<Rightarrow> 'e Status \<Rightarrow> 'e Status \<Rightarrow> bool exec" where
  "Status_Equal err_eq s d =
     (if State s \<noteq> State d then Return False
      else case (Error s, Error d) of
        (None, None) \<Rightarrow> Return (Source s = Source d)
      | (Some a, Some b) \<Rightarrow> (case err_eq a b of
          None \<Rightarrow> Panic (UserPanic ''comparing uncomparable type'')
        | Some eq \<Rightarrow> Return (eq \<and> Source s = Source d))
      | _ \<Rightarrow> Return False)"

section \<open>One check\<close>

text \<open>What the \<open>select\<close> of a check sees first: the result of the function or the deadline.\<close>

datatype 'e outcome = CheckNil | CheckErr 'e | DeadlineFirst

definition unary_Check :: "string \<Rightarrow> 'e outcome \<Rightarrow> 'e Status" where
  "unary_Check name r = (case r of
      CheckNil \<Rightarrow> \<lparr>State = StateHealthy, Error = None, Source = []\<rparr>
    | CheckErr e \<Rightarrow> \<lparr>State = StateUnhealthy, Error = Some e, Source = name\<rparr>
    | DeadlineFirst \<Rightarrow> \<lparr>State = StateUnknown, Error = None, Source = name\<rparr>)"

definition DefaultInterval :: int where "DefaultInterval = 5000000000"
definition DefaultTimeout :: int where "DefaultTimeout = 1000000000"

text \<open>The time a check has: the deadline of the context if there is one.\<close>

definition check_deadline :: "int option \<Rightarrow> int \<Rightarrow> int" where
  "check_deadline ctx now = (case ctx of Some d \<Rightarrow> d | None \<Rightarrow> now + DefaultTimeout)"

section \<open>The checks of a cycle\<close>

text \<open>
  The goroutines of a cycle share \<open>finalStatus\<close> without a lock: the test of its state and
  the assignment are two steps. An assignment of the whole struct is one step.
\<close>

datatype 'e chk = ChkRead "'e Status" | ChkWrite "'e Status" | ChkDone

definition healthy0 :: "'e Status" where
  "healthy0 = \<lparr>State = StateHealthy, Error = None, Source = []\<rparr>"

definition chk_start :: "'e Status \<Rightarrow> 'e chk" where
  "chk_start st =
     (if State st \<noteq> StateHealthy
      then if State st = StateUnhealthy then ChkWrite st else ChkRead st
      else ChkDone)"

fun chk_step :: "'e chk \<Rightarrow> 'e Status \<Rightarrow> 'e chk \<times> 'e Status" where
  "chk_step (ChkRead st) final =
     (if State final = StateHealthy then (ChkWrite st, final) else (ChkDone, final))"
| "chk_step (ChkWrite st) final = (ChkDone, st)"
| "chk_step ChkDone final = (ChkDone, final)"

text \<open>A run of the goroutines in the order given by a list of indices.\<close>

fun composite_run :: "nat list \<Rightarrow> 'e chk list \<times> 'e Status \<Rightarrow> 'e chk list \<times> 'e Status" where
  "composite_run [] x = x"
| "composite_run (i # is) (cs, final) =
     (if i < length cs
      then case chk_step (cs ! i) final of (c, final') \<Rightarrow> composite_run is (cs[i := c], final')
      else composite_run is (cs, final))"

definition composite_start :: "'e Status list \<Rightarrow> 'e chk list \<times> 'e Status" where
  "composite_start sts = (map chk_start sts, healthy0)"

definition all_finished :: "'e chk list \<Rightarrow> bool" where
  "all_finished cs = list_all (\<lambda>c. case c of ChkDone \<Rightarrow> True | _ \<Rightarrow> False) cs"

text \<open>The aggregation as it is meant: each result is merged in one go.\<close>

definition merge_status :: "'e Status \<Rightarrow> 'e Status \<Rightarrow> 'e Status" where
  "merge_status final st =
     (if State st \<noteq> StateHealthy \<and> (State st = StateUnhealthy \<or> State final = StateHealthy)
      then st else final)"

definition known_state :: "'e Status \<Rightarrow> bool" where
  "known_state st \<longleftrightarrow> State st \<in> {StateUnknown, StateHealthy, StateUnhealthy}"

lemma unary_Check_known: "known_state (unary_Check name r)"
  by (simp add: known_state_def unary_Check_def split: outcome.split)

lemma unary_states:
  "State (unary_Check name r) = StateUnhealthy \<longleftrightarrow> (case r of CheckErr _ \<Rightarrow> True | _ \<Rightarrow> False)"
  "State (unary_Check name r) = StateHealthy \<longleftrightarrow> r = CheckNil"
  by (auto simp: unary_Check_def state_defs split: outcome.split)

subsection \<open>Merging is independent of the order\<close>

definition worst_state :: "'e Status list \<Rightarrow> int" where
  "worst_state sts =
     (if list_ex (\<lambda>st. State st = StateUnhealthy) sts then StateUnhealthy
      else if list_all (\<lambda>st. State st = StateHealthy) sts then StateHealthy else StateUnknown)"

lemma merge_fold:
  "list_all known_state sts \<Longrightarrow> known_state acc \<Longrightarrow>
    State (foldl merge_status acc sts) = worst_state (acc # sts)"
  by (induction sts arbitrary: acc)
    (auto simp: merge_status_def worst_state_def known_state_def state_defs list_ex_iff list_all_iff)

text \<open>
  Merging the results of a cycle one by one gives the worst of them whatever the order in
  which the checks finish: unhealthy if any check failed, else unknown if any timed out, else
  healthy.
\<close>

theorem merge_is_worst:
  assumes "mset sts' = mset (map (\<lambda>(name, r). unary_Check name r) checks)"
  shows "State (foldl merge_status healthy0 sts') =
    (if list_ex (\<lambda>(_, r). case r of CheckErr _ \<Rightarrow> True | _ \<Rightarrow> False) checks then StateUnhealthy
     else if list_all (\<lambda>(_, r). r = CheckNil) checks then StateHealthy else StateUnknown)"
proof -
  have s: "set sts' = (\<lambda>(name, r). unary_Check name r) ` set checks"
    using mset_eq_setD [OF assms] by simp
  then have "list_all known_state sts'" by (auto simp: list_all_iff unary_Check_known)
  moreover have "known_state healthy0" by (simp add: known_state_def healthy0_def)
  ultimately have "State (foldl merge_status healthy0 sts') = worst_state (healthy0 # sts')"
    by (rule merge_fold)
  also have "\<dots> = worst_state (map (\<lambda>(name, r). unary_Check name r) checks)"
    using s by (auto simp: worst_state_def healthy0_def state_defs list_ex_iff list_all_iff)
  also have "\<dots> = (if list_ex (\<lambda>(_, r). case r of CheckErr _ \<Rightarrow> True | _ \<Rightarrow> False) checks then StateUnhealthy
     else if list_all (\<lambda>(_, r). r = CheckNil) checks then StateHealthy else StateUnknown)"
    by (simp add: worst_state_def list_ex_iff list_all_iff split_def unary_states)
  finally show ?thesis .
qed

theorem merge_is_worst_witness:
  "State (foldl merge_status healthy0 [unary_Check ''db'' DeadlineFirst, unary_Check ''mq'' (CheckErr (3::nat))])
    = StateUnhealthy"
  using merge_is_worst [of "[unary_Check ''db'' DeadlineFirst, unary_Check ''mq'' (CheckErr (3::nat))]"
      "[(''mq'', CheckErr (3::nat)), (''db'', DeadlineFirst)]"] by simp

subsection \<open>What the race can and cannot do\<close>

definition race_inv :: "'e Status list \<Rightarrow> 'e chk list \<times> 'e Status \<Rightarrow> bool" where
  "race_inv sts x \<longleftrightarrow> length (fst x) = length sts
     \<and> (\<forall>i < length sts. fst x ! i \<in> {ChkRead (sts ! i), ChkWrite (sts ! i), ChkDone}
          \<and> (fst x ! i = ChkDone \<or> State (sts ! i) \<noteq> StateHealthy)
          \<and> (State (snd x) = StateHealthy \<and> State (sts ! i) \<noteq> StateHealthy \<longrightarrow> fst x ! i \<noteq> ChkDone))
     \<and> (snd x = healthy0 \<or> (snd x \<in> set sts \<and> State (snd x) \<noteq> StateHealthy))"

lemma race_start: "race_inv sts (composite_start sts)"
  by (auto simp: race_inv_def composite_start_def chk_start_def)

lemma race_step:
  assumes v: "race_inv sts (cs, f)" and i: "i < length cs" and st: "chk_step (cs ! i) f = (c, f')"
  shows "race_inv sts (cs[i := c], f')"
proof -
  have i': "i < length sts" using v i by (simp add: race_inv_def)
  then have m: "sts ! i \<in> set sts" by simp
  show ?thesis
  proof (cases "cs ! i")
    case (ChkRead s)
    with v i' have "s = sts ! i" "State s \<noteq> StateHealthy" by (auto simp: race_inv_def)
    with ChkRead v i st show ?thesis
      by (auto simp: race_inv_def nth_list_update split: if_splits)
  next
    case (ChkWrite s)
    with v i' have "s = sts ! i" "State s \<noteq> StateHealthy" by (auto simp: race_inv_def)
    with ChkWrite v i st m show ?thesis by (auto simp: race_inv_def nth_list_update)
  next
    case ChkDone
    then have "cs[i := ChkDone] = cs" by (metis list_update_id)
    with ChkDone v st show ?thesis by simp
  qed
qed

lemma race_run: "race_inv sts x \<Longrightarrow> race_inv sts (composite_run is x)"
proof (induction "is" x rule: composite_run.induct)
  case (2 i "is" cs f)
  show ?case
  proof (cases "i < length cs")
    case True
    obtain c f' where st: "chk_step (cs ! i) f = (c, f')" by fastforce
    from "2.IH"(1) [OF True st [symmetric]] race_step [OF "2.prems" True st] True st show ?thesis by simp
  qed (use 2 in simp)
qed simp

text \<open>
  C37. A cycle reports healthy exactly when every check is healthy, and what it reports is the
  result of one of the checks, whatever the interleaving of the reads and writes of the shared
  status.
\<close>

theorem composite_never_hides_failure:
  assumes "composite_run is (composite_start sts) = (cs, final)" "all_finished cs"
  shows "(State final = StateHealthy \<longleftrightarrow> list_all (\<lambda>st. State st = StateHealthy) sts)
    \<and> final \<in> insert healthy0 (set sts)"
proof -
  have v: "race_inv sts (cs, final)" using race_run [OF race_start [of sts]] assms(1) by metis
  then have d: "cs ! i = ChkDone" if "i < length sts" for i
    using assms(2) that by (auto simp: all_finished_def list_all_length race_inv_def split: chk.splits)
  have "State final \<noteq> StateHealthy" if "i < length sts" "State (sts ! i) \<noteq> StateHealthy" for i
    using v d that by (auto simp: race_inv_def)
  moreover have "State final = StateHealthy" if "list_all (\<lambda>st. State st = StateHealthy) sts"
    using v that by (auto simp: race_inv_def healthy0_def list_all_iff)
  ultimately have "State final = StateHealthy \<longleftrightarrow> list_all (\<lambda>st. State st = StateHealthy) sts"
    by (auto simp: list_all_length)
  with v show ?thesis by (auto simp: race_inv_def)
qed

theorem composite_never_hides_failure_witness:
  "State (snd (composite_run [0, 0, 1] (composite_start
     [unary_Check ''a'' DeadlineFirst, unary_Check ''b'' (CheckNil :: nat outcome)]))) \<noteq> StateHealthy"
proof -
  let ?sts = "[unary_Check ''a'' DeadlineFirst, unary_Check ''b'' (CheckNil :: nat outcome)]"
  obtain cs f where r: "composite_run [0, 0, 1] (composite_start ?sts) = (cs, f)" by fastforce
  then have "all_finished cs"
    by (auto simp: composite_start_def chk_start_def unary_Check_def state_defs healthy0_def all_finished_def)
  from composite_never_hides_failure [OF r this] r show ?thesis
    by (simp add: unary_Check_def state_defs)
qed

text \<open>
  An unhealthy result can be lost: when a check that timed out has read the shared status
  before a failing check writes it, and writes after it, the cycle reports unknown.
\<close>

theorem composite_loses_unhealthy:
  "composite_run [0, 1, 0] (composite_start [unary_Check slow DeadlineFirst, unary_Check bad (CheckErr e)])
    = ([ChkDone, ChkDone], unary_Check slow DeadlineFirst)
   \<and> State (foldl merge_status healthy0 [unary_Check slow DeadlineFirst, unary_Check bad (CheckErr e)]) = StateUnhealthy"
  by (simp add: composite_start_def chk_start_def unary_Check_def state_defs healthy0_def merge_status_def)

section \<open>The runner\<close>

record runOptions =
  opt_name :: string
  interval :: int
  timeout :: int
  panicOnError :: bool

definition default_options :: runOptions where
  "default_options = \<lparr>opt_name = [], interval = DefaultInterval, timeout = DefaultTimeout, panicOnError = False\<rparr>"

datatype RunOption = WithName string | WithCheckInterval int | WithCheckTimeout int | WithPanicOnError bool

fun apply_option :: "RunOption \<Rightarrow> runOptions \<Rightarrow> runOptions" where
  "apply_option (WithName n) opts = opts\<lparr>opt_name := n\<rparr>"
| "apply_option (WithCheckInterval d) opts = opts\<lparr>interval := d\<rparr>"
| "apply_option (WithCheckTimeout d) opts = opts\<lparr>timeout := d\<rparr>"
| "apply_option (WithPanicOnError b) opts = opts\<lparr>panicOnError := b\<rparr>"

definition applyOptions :: "RunOption list \<Rightarrow> runOptions" where
  "applyOptions options = foldl (\<lambda>opts o'. apply_option o' opts) default_options options"

text \<open>
  \<open>published\<close> and \<open>consumed\<close> are the statuses the runner has made its last one and those the
  consumer has taken from the report channel, oldest first.
\<close>

record 'e runner =
  opts :: runOptions
  stop_closed :: bool
  checks :: "string list"
  lastStatus :: "'e Status"
  runningCheckCycle :: bool
  reportChan :: "'e Status list"
  published :: "'e Status list"
  consumed :: "'e Status list"

definition NewRunner :: "RunOption list \<Rightarrow> 'e runner" where
  "NewRunner options =
     \<lparr>opts = applyOptions options, stop_closed = False, checks = [],
      lastStatus = \<lparr>State = StateUnknown, Error = None, Source = []\<rparr>,
      runningCheckCycle = False, reportChan = [], published = [], consumed = []\<rparr>"

definition AddCheck :: "string \<Rightarrow> 'e runner \<Rightarrow> 'e runner" where
  "AddCheck name r = r\<lparr>checks := checks r @ [name]\<rparr>"

definition StopRunner :: "'e runner \<Rightarrow> 'e runner exec" where
  "StopRunner r =
     (if stop_closed r then Panic (UserPanic ''close of closed channel'')
      else Return (r\<lparr>stop_closed := True\<rparr>))"

text \<open>The end of a cycle: what it does with the status of its checks.\<close>

definition publish :: "('e \<Rightarrow> 'e \<Rightarrow> bool option) \<Rightarrow> 'e Status \<Rightarrow> 'e runner \<Rightarrow> 'e runner exec" where
  "publish err_eq status r = exec_bind (Status_Equal err_eq status (lastStatus r)) (\<lambda>same.
     if same then Return r
     else if State status \<noteq> StateHealthy \<and> State status \<noteq> StateUnknown \<and> panicOnError (opts r)
     then Panic (UserPanic ''health_check_error'')
     else Return (r\<lparr>lastStatus := status, published := published r @ [status],
       reportChan := (if length (reportChan r) < 1 then reportChan r @ [status] else reportChan r)\<rparr>))"

text \<open>A cycle: the compare-and-swap, the checks, the report, the release.\<close>

datatype 'e cycle = CycleTry | CycleChecking | CyclePublish "'e Status" | CycleRelease | CycleEnd | CycleSkipped

datatype loop = LoopNotStarted | LoopRunning | LoopStopped

record 'e health_sys =
  rn :: "'e runner"
  cycles :: "'e cycle list"
  hloop :: loop
  crashed :: bool

text \<open>
  Events: the client calls \<open>Start\<close> (its own cycle, then the loop), the ticker fires, the loop
  sees the stop channel, the consumer receives, goroutine \<open>i\<close> moves (with the status its
  checks give), a check function of cycle \<open>i\<close> panics. A ticker of no positive interval never fires.
\<close>

datatype 'e health_event = StartCall | LoopStart | Tick | SeeStop | StopCall | Consume | Move nat "'e Status" | CheckPanics nat

definition cycle_move :: "('e \<Rightarrow> 'e \<Rightarrow> bool option) \<Rightarrow> nat \<Rightarrow> 'e Status \<Rightarrow> 'e health_sys \<Rightarrow> 'e health_sys" where
  "cycle_move err_eq i st s = (case cycles s ! i of
      CycleTry \<Rightarrow>
        if runningCheckCycle (rn s) then s\<lparr>cycles := (cycles s)[i := CycleSkipped]\<rparr>
        else s\<lparr>rn := (rn s)\<lparr>runningCheckCycle := True\<rparr>, cycles := (cycles s)[i := CycleChecking]\<rparr>
    | CycleChecking \<Rightarrow> s\<lparr>cycles := (cycles s)[i := CyclePublish st]\<rparr>
    | CyclePublish status \<Rightarrow> (case publish err_eq status (rn s) of
          Panic _ \<Rightarrow> s\<lparr>crashed := True\<rparr>
        | Return r \<Rightarrow> s\<lparr>rn := r, cycles := (cycles s)[i := CycleRelease]\<rparr>)
    | CycleRelease \<Rightarrow>
        s\<lparr>rn := (rn s)\<lparr>runningCheckCycle := False\<rparr>, cycles := (cycles s)[i := CycleEnd]\<rparr>
    | CycleEnd \<Rightarrow> s
    | CycleSkipped \<Rightarrow> s)"

text \<open>The panic of a check function is logged and raised again, in a goroutine of its own that may
  outlive the deadline and the cycle.\<close>

definition check_panics :: "nat \<Rightarrow> 'e health_sys \<Rightarrow> 'e health_sys" where
  "check_panics i s = (if i < length (cycles s) \<and> cycles s ! i \<notin> {CycleTry, CycleSkipped} then s\<lparr>crashed := True\<rparr> else s)"

definition health_step :: "('e \<Rightarrow> 'e \<Rightarrow> bool option) \<Rightarrow> 'e health_event \<Rightarrow> 'e health_sys \<Rightarrow> 'e health_sys" where
  "health_step err_eq ev s =
     (if crashed s then s
      else case ev of
        StartCall \<Rightarrow> s\<lparr>cycles := cycles s @ [CycleTry]\<rparr>
      | LoopStart \<Rightarrow> if hloop s = LoopNotStarted then s\<lparr>hloop := LoopRunning\<rparr> else s
      | Tick \<Rightarrow> if hloop s = LoopRunning \<and> 0 < interval (opts (rn s)) then s\<lparr>cycles := cycles s @ [CycleTry]\<rparr> else s
      | SeeStop \<Rightarrow> if hloop s = LoopRunning \<and> stop_closed (rn s) then s\<lparr>hloop := LoopStopped\<rparr> else s
      | StopCall \<Rightarrow> (case StopRunner (rn s) of
            Panic _ \<Rightarrow> s\<lparr>crashed := True\<rparr> | Return r \<Rightarrow> s\<lparr>rn := r\<rparr>)
      | Consume \<Rightarrow> (case reportChan (rn s) of
            [] \<Rightarrow> s
          | st # rest \<Rightarrow> s\<lparr>rn := (rn s)\<lparr>reportChan := rest, consumed := consumed (rn s) @ [st]\<rparr>\<rparr>)
      | Move i st \<Rightarrow> if i < length (cycles s) then cycle_move err_eq i st s else s
      | CheckPanics i \<Rightarrow> check_panics i s)"

definition health_start :: "'e runner \<Rightarrow> 'e health_sys" where
  "health_start r = \<lparr>rn = r, cycles = [], hloop = LoopNotStarted, crashed = False\<rparr>"

definition health_run :: "('e \<Rightarrow> 'e \<Rightarrow> bool option) \<Rightarrow> 'e health_event list \<Rightarrow> 'e health_sys \<Rightarrow> 'e health_sys" where
  "health_run err_eq evs s = foldl (\<lambda>s ev. health_step err_eq ev s) s evs"

definition in_cycle :: "'e cycle \<Rightarrow> bool" where
  "in_cycle c = (case c of CycleTry \<Rightarrow> False | CycleEnd \<Rightarrow> False | CycleSkipped \<Rightarrow> False | _ \<Rightarrow> True)"

definition no_status :: "'e Status" where
  "no_status = \<lparr>State = StateUnknown, Error = None, Source = []\<rparr>"

definition cycles_inside :: "'e cycle list \<Rightarrow> int" where
  "cycles_inside cs = sum_list (map (\<lambda>c. if in_cycle c then 1 else 0) cs)"

definition runner_inv :: "('e \<Rightarrow> 'e \<Rightarrow> bool option) \<Rightarrow> 'e health_sys \<Rightarrow> bool" where
  "runner_inv err_eq s \<longleftrightarrow>
     cycles_inside (cycles s) = (if runningCheckCycle (rn s) then 1 else 0)
     \<and> length (reportChan (rn s)) \<le> 1
     \<and> subseq (consumed (rn s) @ reportChan (rn s)) (published (rn s))
     \<and> lastStatus (rn s) = last (no_status # published (rn s))
     \<and> successively (\<lambda>a b. Status_Equal err_eq b a = Return False) (no_status # published (rn s))"

lemma cycles_inside_update:
  "i < length cs \<Longrightarrow> cycles_inside (cs[i := c]) =
    cycles_inside cs - (if in_cycle (cs ! i) then 1 else 0) + (if in_cycle c then 1 else 0)"
  unfolding cycles_inside_def by (rule sum_list_map_update)

lemma cycles_inside_snoc [simp]: "cycles_inside (cs @ [CycleTry]) = cycles_inside cs"
  by (simp add: cycles_inside_def in_cycle_def)

lemma cycles_inside_nonneg: "0 \<le> cycles_inside cs"
  unfolding cycles_inside_def by (rule sum_list_nonneg) auto

lemma cycles_inside_member: "i < length cs \<Longrightarrow> in_cycle (cs ! i) \<Longrightarrow> 1 \<le> cycles_inside cs"
  using cycles_inside_update [of i cs CycleEnd] cycles_inside_nonneg [of "cs[i := CycleEnd]"]
  by (simp add: in_cycle_def)

lemma publish_inv:
  assumes "publish err_eq st r = Return r'"
  shows "r' = r \<or> (Status_Equal err_eq st (lastStatus r) = Return False \<and> lastStatus r' = st
    \<and> published r' = published r @ [st] \<and> consumed r' = consumed r \<and> runningCheckCycle r' = runningCheckCycle r
    \<and> (reportChan r' = reportChan r \<or> (reportChan r = [] \<and> reportChan r' = [st])))"
  using assms by (auto simp: publish_def split: if_splits)

lemma move_inv:
  assumes v: "runner_inv err_eq s" and i: "i < length (cycles s)"
  shows "runner_inv err_eq (cycle_move err_eq i st s)"
proof (cases "cycles s ! i")
  case (CyclePublish status)
  show ?thesis
  proof (cases "publish err_eq status (rn s)")
    case (Panic p)
    with CyclePublish v show ?thesis by (simp add: cycle_move_def runner_inv_def)
  next
    case (Return r)
    have c: "cycles_inside ((cycles s)[i := CycleRelease]) = cycles_inside (cycles s)"
      using CyclePublish cycles_inside_update [OF i] by (simp add: in_cycle_def)
    from publish_inv [OF Return] show ?thesis
    proof
      assume "r = rn s"
      with v c Return CyclePublish show ?thesis by (simp add: cycle_move_def runner_inv_def)
    next
      assume r: "Status_Equal err_eq status (lastStatus (rn s)) = Return False \<and> lastStatus r = status
        \<and> published r = published (rn s) @ [status] \<and> consumed r = consumed (rn s)
        \<and> runningCheckCycle r = runningCheckCycle (rn s)
        \<and> (reportChan r = reportChan (rn s) \<or> (reportChan (rn s) = [] \<and> reportChan r = [status]))"
      have "subseq (consumed r @ reportChan r) (published r)"
        using v r by (auto simp: runner_inv_def intro: list_emb_append2 list_emb_append_mono)
      moreover have "successively (\<lambda>a b. Status_Equal err_eq b a = Return False) ((no_status # published (rn s)) @ [status])"
        using v r unfolding successively_append_iff by (simp add: runner_inv_def)
      ultimately show ?thesis
        using v c r Return CyclePublish by (auto simp: cycle_move_def runner_inv_def)
    qed
  qed
next
  case CycleRelease
  with v cycles_inside_member [OF i] cycles_inside_update [OF i] show ?thesis
    by (auto simp: cycle_move_def runner_inv_def in_cycle_def split: if_splits)
qed (use v cycles_inside_update [OF i] in \<open>auto simp: cycle_move_def runner_inv_def in_cycle_def\<close>)

lemma health_step_inv:
  assumes v: "runner_inv err_eq s"
  shows "runner_inv err_eq (health_step err_eq ev s)"
proof (cases ev)
  case (Move i st)
  with v show ?thesis by (auto simp: health_step_def intro: move_inv)
next
  case Consume
  with v show ?thesis by (cases "reportChan (rn s)") (auto simp: health_step_def runner_inv_def)
qed (use v in \<open>auto simp: health_step_def runner_inv_def StopRunner_def check_panics_def\<close>)

lemma health_run_inv: "runner_inv err_eq s \<Longrightarrow> runner_inv err_eq (health_run err_eq evs s)"
  unfolding health_run_def by (induction evs arbitrary: s) (simp_all add: health_step_inv)

lemma runner_inv_AddChecks:
  "runner_inv err_eq (health_start r) \<Longrightarrow> runner_inv err_eq (health_start (fold AddCheck names r))"
proof (induction names arbitrary: r)
  case (Cons n ns)
  from Cons.prems have "runner_inv err_eq (health_start (AddCheck n r))"
    by (simp add: runner_inv_def health_start_def AddCheck_def)
  from Cons.IH [OF this] show ?case by simp
qed simp

text \<open>
  C36. In every interleaving of the calls of \<open>Start\<close> and \<open>Stop\<close>, of ticks and of the steps
  of the cycles: at most one cycle runs its checks at a time, the last status is the one
  published last, each published status differs from the one before, and what the consumer
  gets from the report channel, in that order, is a subsequence of what was published.
\<close>

theorem runner_cycles_exclusive:
  fixes err_eq :: "'e \<Rightarrow> 'e \<Rightarrow> bool option" and evs names options
  defines "s \<equiv> health_run err_eq evs (health_start (fold AddCheck names (NewRunner options)))"
  shows "length (filter in_cycle (cycles s)) \<le> 1
    \<and> lastStatus (rn s) = last (no_status # published (rn s))
    \<and> successively (\<lambda>a b. Status_Equal err_eq b a = Return False) (no_status # published (rn s))
    \<and> subseq (consumed (rn s) @ reportChan (rn s)) (published (rn s)) \<and> length (reportChan (rn s)) \<le> 1"
proof -
  have "runner_inv err_eq (health_start (NewRunner options))"
    by (simp add: runner_inv_def health_start_def NewRunner_def cycles_inside_def no_status_def)
  then have "runner_inv err_eq (health_start (fold AddCheck names (NewRunner options)))"
    by (rule runner_inv_AddChecks)
  then have v: "runner_inv err_eq s" unfolding s_def by (rule health_run_inv)
  have "cycles_inside xs = int (length (filter in_cycle xs))" for xs :: "'e cycle list"
    by (induction xs) (auto simp: cycles_inside_def)
  with v show ?thesis by (auto simp: runner_inv_def split: if_splits)
qed

text \<open>
  The end of a cycle, on every branch: a status equal to the last one changes nothing, a
  failure panics when the runner is told to, and comparing two error values of a type that Go
  cannot compare panics as well.
\<close>

theorem publish_outcomes:
  "publish err_eq st r =
    (if State st = State (lastStatus r)
        \<and> (case (Error st, Error (lastStatus r)) of (Some a, Some b) \<Rightarrow> err_eq a b = None | _ \<Rightarrow> False)
     then Panic (UserPanic ''comparing uncomparable type'')
     else if Status_Equal err_eq st (lastStatus r) = Return True then Return r
     else if State st \<notin> {StateHealthy, StateUnknown} \<and> panicOnError (opts r)
     then Panic (UserPanic ''health_check_error'')
     else Return (r\<lparr>lastStatus := st, published := published r @ [st],
       reportChan := (if reportChan r = [] then [st] else reportChan r)\<rparr>))"
  by (auto simp: publish_def Status_Equal_def split: option.splits if_splits)

end
