(* ===== verification/HealthServer.thy ===== *)
theory HealthServer
  imports Health
begin

text \<open>
  The gRPC health service (\<open>src/health/service.go\<close>): the answer to \<open>Check\<close>, the streams of
  \<open>Watch\<close> with their status channels, and the goroutine that broadcasts the reports of the
  runner. The lock is held across several sends, so its holder is part of the state.
\<close>

section \<open>Responses\<close>

datatype ServingStatus = UNKNOWN | SERVING | NOT_SERVING | SERVICE_UNKNOWN

definition fillProtoStatus :: "'e Status \<Rightarrow> ServingStatus" where
  "fillProtoStatus status =
     (if State status = StateHealthy then SERVING
      else if State status = StateUnhealthy then NOT_SERVING else SERVICE_UNKNOWN)"

definition hs_Check :: "'e runner \<Rightarrow> ServingStatus" where
  "hs_Check r = fillProtoStatus (lastStatus r)"

section \<open>Removing a watcher's channel\<close>

text \<open>
  The loop ranges over the indices of the slice as it was at the start (\<open>range\<close> evaluates
  its operand once), while its body shortens the slice; an index past the new length panics.
\<close>

fun remove_loop :: "nat list \<Rightarrow> 'c \<Rightarrow> 'c list \<Rightarrow> 'c list \<times> go_panic option" where
  "remove_loop [] ch chs = (chs, None)"
| "remove_loop (i # is) ch chs =
     (if length chs \<le> i then (chs, Some IndexOutOfRange)
      else if chs ! i = ch then remove_loop is ch (take i chs @ drop (i + 1) chs)
      else remove_loop is ch chs)"

definition removeStatusChan :: "'c \<Rightarrow> 'c list \<Rightarrow> 'c list \<times> go_panic option" where
  "removeStatusChan ch chs = remove_loop [0..<length chs] ch chs"

lemma remove_loop_past:
  assumes "ch \<notin> set chs" "n = length chs" "k \<le> n"
  shows "remove_loop [k..<Suc n] ch chs = (chs, Some IndexOutOfRange)"
  using assms(3)
proof (induction "n - k" arbitrary: k)
  case 0
  with assms(2) show ?case by simp
next
  case (Suc d)
  then have "k < n" by simp
  then have "[k..<Suc n] = k # [Suc k..<Suc n]" by (simp add: upt_conv_Cons)
  moreover have "chs ! k \<noteq> ch" using \<open>k < n\<close> assms(1,2) nth_mem by metis
  moreover have "remove_loop [Suc k..<Suc n] ch chs = (chs, Some IndexOutOfRange)"
    by (rule Suc.hyps(1)) (use Suc \<open>k < n\<close> in auto)
  ultimately show ?case using \<open>k < n\<close> assms(2) by simp
qed

lemma remove_loop_skip:
  assumes "ch \<notin> set pre" "list_all (\<lambda>j. j < length pre) js"
  shows "remove_loop (js @ is) ch (pre @ post) = remove_loop is ch (pre @ post)"
  using assms(2)
proof (induction js)
  case (Cons j js)
  then have "j < length pre" "pre ! j \<noteq> ch" using assms(1) nth_mem by auto
  with Cons show ?case by (simp add: nth_append)
qed simp

text \<open>
  C40. \<open>removeStatusChan\<close> returns only for the watcher that subscribed last. With the
  channel last in the slice it is removed; with any other position it is removed too, but the
  loop then runs past the end of the shortened slice and panics with an index out of range.
\<close>

theorem removeStatusChan_result:
  assumes "distinct (pre @ ch # post)"
  shows "removeStatusChan ch (pre @ ch # post)
    = (pre @ post, if post = [] then None else Some IndexOutOfRange)"
proof -
  have nin: "ch \<notin> set pre" "ch \<notin> set post" using assms by auto
  let ?n = "length pre"
  have "[0..<length (pre @ ch # post)] = [0..<?n] @ ?n # [Suc ?n..<Suc ?n + length post]"
    using upt_add_eq_append [of 0 ?n "Suc (length post)"] by (simp add: upt_conv_Cons del: upt_Suc)
  then have "removeStatusChan ch (pre @ ch # post)
      = remove_loop (?n # [Suc ?n..<Suc ?n + length post]) ch (pre @ ch # post)"
    unfolding removeStatusChan_def using remove_loop_skip [OF nin(1)] by (simp add: list_all_iff)
  also have "\<dots> = remove_loop [Suc ?n..<Suc ?n + length post] ch (pre @ post)" by simp
  also have "\<dots> = (pre @ post, if post = [] then None else Some IndexOutOfRange)"
  proof (cases post)
    case (Cons x xs)
    have "remove_loop [Suc ?n..<Suc (length (pre @ post))] ch (pre @ post) = (pre @ post, Some IndexOutOfRange)"
      by (rule remove_loop_past) (use nin Cons in auto)
    with Cons show ?thesis by simp
  qed simp
  finally show ?thesis .
qed

theorem removeStatusChan_result_witness:
  "removeStatusChan (1 :: nat) [0, 1] = ([0], None) \<and> removeStatusChan (0 :: nat) [0, 1] = ([1], Some IndexOutOfRange)"
  using removeStatusChan_result [of "[0 :: nat]" 1 "[]"] removeStatusChan_result [of "[]" "0 :: nat" "[1]"] by simp

section \<open>The server\<close>

datatype holder = Free | ByBroadcaster | ByWatcher nat

datatype 'e broadcaster = BReceive | BLock "'e Status" | BSend "'e Status" "nat list"

text \<open>A watcher subscribes, receives, sends to its stream and unsubscribes; channels are numbers.\<close>

datatype 'e watcher =
    WSubscribe
  | WReceive nat
  | WSend nat "'e Status"
  | WRemove nat
  | WReturned
  | WPanicked

record 'e server =
  reports :: "'e Status list"
  last_status :: "'e Status"
  statusChans :: "nat list"
  buffers :: "nat \<Rightarrow> 'e Status list"
  chan_closed :: "nat \<Rightarrow> bool"
  next_chan :: nat
  lock :: holder
  bc :: "'e broadcaster"
  watchers :: "'e watcher list"
  sent :: "(nat \<times> ServingStatus) list"

text \<open>Each channel has room for one status.\<close>

definition push_status :: "nat \<Rightarrow> 'e Status \<Rightarrow> 'e server \<Rightarrow> 'e server" where
  "push_status c st s = s\<lparr>buffers := (buffers s)(c := buffers s c @ [st])\<rparr>"

definition broadcaster_step :: "'e server \<Rightarrow> 'e server option" where
  "broadcaster_step s = (case bc s of
      BReceive \<Rightarrow> (case reports s of [] \<Rightarrow> None | st # rest \<Rightarrow> Some (s\<lparr>reports := rest, bc := BLock st\<rparr>))
    | BLock st \<Rightarrow> if lock s = Free
        then Some (s\<lparr>lock := ByBroadcaster, bc := BSend st (statusChans s)\<rparr>) else None
    | BSend st [] \<Rightarrow> Some (s\<lparr>lock := Free, bc := BReceive\<rparr>)
    | BSend st (c # cs) \<Rightarrow> if buffers s c = []
        then Some ((push_status c st s)\<lparr>bc := BSend st cs\<rparr>) else None)"

text \<open>\<open>newStatusChan\<close>: under the lock, a new channel that starts with the current status.\<close>

definition newStatusChan :: "'e server \<Rightarrow> nat \<times> 'e server" where
  "newStatusChan s = (let c = next_chan s in
     (c, s\<lparr>next_chan := Suc c, statusChans := statusChans s @ [c],
           buffers := (buffers s)(c := [last_status s])\<rparr>))"

definition watcher_step :: "bool \<Rightarrow> nat \<Rightarrow> 'e server \<Rightarrow> 'e server option" where
  "watcher_step send_ok i s = (case watchers s ! i of
      WSubscribe \<Rightarrow> if lock s = Free
        then case newStatusChan s of (c, s') \<Rightarrow> Some (s'\<lparr>watchers := (watchers s')[i := WReceive c]\<rparr>)
        else None
    | WReceive c \<Rightarrow> (case buffers s c of
        [] \<Rightarrow> if chan_closed s c then Some (s\<lparr>watchers := (watchers s)[i := WRemove c]\<rparr>) else None
      | st # rest \<Rightarrow> Some (s\<lparr>buffers := (buffers s)(c := rest), watchers := (watchers s)[i := WSend c st]\<rparr>))
    | WSend c st \<Rightarrow> if send_ok
        then Some (s\<lparr>sent := sent s @ [(i, fillProtoStatus st)], watchers := (watchers s)[i := WReceive c]\<rparr>)
        else Some (s\<lparr>watchers := (watchers s)[i := WRemove c]\<rparr>)
    | WRemove c \<Rightarrow> if lock s = Free
        then case removeStatusChan c (statusChans s) of
            (chs, Some _) \<Rightarrow> Some (s\<lparr>statusChans := chs, watchers := (watchers s)[i := WPanicked]\<rparr>)
          | (chs, None) \<Rightarrow> Some (s\<lparr>statusChans := chs, chan_closed := (chan_closed s)(c := True),
              watchers := (watchers s)[i := WReturned]\<rparr>)
        else None
    | WReturned \<Rightarrow> None
    | WPanicked \<Rightarrow> None)"

text \<open>The runner reports a status; a goroutine moves. An event that cannot happen changes nothing.\<close>

datatype 'e server_event = Report "'e Status" | BMove | WMove nat bool

definition server_step :: "'e server_event \<Rightarrow> 'e server \<Rightarrow> 'e server" where
  "server_step ev s = (case ev of
      Report st \<Rightarrow> s\<lparr>reports := reports s @ [st], last_status := st\<rparr>
    | BMove \<Rightarrow> (case broadcaster_step s of None \<Rightarrow> s | Some s' \<Rightarrow> s')
    | WMove i ok \<Rightarrow> if i < length (watchers s)
        then case watcher_step ok i s of None \<Rightarrow> s | Some s' \<Rightarrow> s' else s)"

definition server_run :: "'e server_event list \<Rightarrow> 'e server \<Rightarrow> 'e server" where
  "server_run evs s = foldl (\<lambda>s ev. server_step ev s) s evs"

definition NewServer :: "'e Status \<Rightarrow> nat \<Rightarrow> 'e server" where
  "NewServer st n =
     \<lparr>reports = [], last_status = st, statusChans = [], buffers = (\<lambda>_. []), chan_closed = (\<lambda>_. False),
      next_chan = 0, lock = Free, bc = BReceive, watchers = replicate n WSubscribe, sent = []\<rparr>"

section \<open>A lock that is never released\<close>

text \<open>
  The broadcaster holds the lock and waits for room in channel \<open>c\<close>, whose only reader has
  left its receive loop and waits for the lock.
\<close>

definition broadcast_stuck :: "nat \<Rightarrow> 'e Status \<Rightarrow> nat list \<Rightarrow> 'e server \<Rightarrow> bool" where
  "broadcast_stuck c st cs s \<longleftrightarrow> bc s = BSend st (c # cs) \<and> lock s = ByBroadcaster \<and> buffers s c \<noteq> []
     \<and> list_all (\<lambda>w. case w of WReceive d \<Rightarrow> d \<noteq> c | WSend d _ \<Rightarrow> d \<noteq> c | _ \<Rightarrow> True) (watchers s)"

lemma broadcast_stuck_step:
  assumes v: "broadcast_stuck c st cs s"
  shows "broadcast_stuck c st cs (server_step ev s) \<and> statusChans (server_step ev s) = statusChans s"
proof (cases ev)
  case (WMove i ok)
  show ?thesis
  proof (cases "i < length (watchers s)")
    case True
    then have w: "case watchers s ! i of WReceive d \<Rightarrow> d \<noteq> c | WSend d _ \<Rightarrow> d \<noteq> c | _ \<Rightarrow> True"
      using v by (simp add: broadcast_stuck_def list_all_length)
    show ?thesis
      by (cases "watchers s ! i")
        (use WMove True v w in \<open>auto simp: server_step_def watcher_step_def broadcast_stuck_def
          split: list.splits intro!: list_all_update\<close>)
  qed (use WMove v in \<open>simp add: server_step_def\<close>)
qed (use v in \<open>auto simp: server_step_def broadcaster_step_def broadcast_stuck_def\<close>)

text \<open>
  C18. A watcher whose stream fails can stop the service. When it has left its loop while its
  channel is full and the broadcaster holds the lock to send to it, that stays so for ever, in
  every continuation: nothing is broadcast any more, nobody subscribes, nobody is removed.
\<close>

theorem failed_watcher_blocks_server:
  assumes "broadcast_stuck c st cs s"
  shows "broadcast_stuck c st cs (server_run evs s) \<and> statusChans (server_run evs s) = statusChans s"
  using assms unfolding server_run_def
  by (induction evs arbitrary: s) (simp_all add: broadcast_stuck_step)

definition stuck_run :: "nat server_event list" where
  "stuck_run = (let st = (\<lambda>x. \<lparr>State = 2, Error = Some x, Source = []\<rparr>) in
     [WMove 0 True, WMove 0 True, Report (st 1), BMove, BMove, BMove, BMove, Report (st 2), BMove,
      WMove 0 False, BMove])"

theorem failed_watcher_blocks_server_witness:
  "statusChans (server_run [BMove, WMove 0 True, BMove] (server_run stuck_run (NewServer healthy0 1))) = [0]"
proof -
  have "bc (server_run stuck_run (NewServer healthy0 1)) = BSend \<lparr>State = 2, Error = Some 2, Source = []\<rparr> [0]"
    "lock (server_run stuck_run (NewServer healthy0 1)) = ByBroadcaster"
    "buffers (server_run stuck_run (NewServer healthy0 1)) 0 \<noteq> []"
    "watchers (server_run stuck_run (NewServer healthy0 1)) = [WRemove 0]"
    "statusChans (server_run stuck_run (NewServer healthy0 1)) = [0]"
    by code_simp+
  then have "broadcast_stuck 0 \<lparr>State = 2, Error = Some 2, Source = []\<rparr> [] (server_run stuck_run (NewServer healthy0 1))"
    by (simp add: broadcast_stuck_def)
  from failed_watcher_blocks_server [OF this, of "[BMove, WMove 0 True, BMove]"] show ?thesis
    using \<open>statusChans (server_run stuck_run (NewServer healthy0 1)) = [0]\<close> by simp
qed

end
