(* ===== verification/Errors.thy ===== *)
theory Errors
  imports Prelude "HOL-Library.AList"
begin

text \<open>
  The error type (\<open>src/errors/error.go\<close>): errors are objects that are shared and updated in
  place, so they live in a heap; a cause is another error of the package or a foreign one.
  Foreign errors (their text, and their gRPC status if they have one), \<open>structpb.NewStruct\<close> and
  \<open>Status.WithDetails\<close> are arguments. The two recursions over causes are \<open>option\<close> valued,
  \<open>None\<close> being a call that does not return. Typed nil pointers are not modelled.
\<close>

section \<open>Errors and statuses\<close>

type_synonym err_addr = nat

datatype 'f err_value = NoError | Own err_addr | Foreign 'f

datatype 's pbError = PbError (pb_error: string) (pb_detail: "'s option") (pb_cause: "'s pbError option")

record 's grpc_status =
  st_code :: nat
  st_message :: string
  st_details :: "'s pbError list"

definition InvalidCode :: int where "InvalidCode = - 1"
definition codes_OK :: nat where "codes_OK = 0"
definition codes_Unknown :: nat where "codes_Unknown = 2"

record ('f, 'v, 's) Error =
  message :: string
  code :: int
  cause :: "'f err_value"
  detail :: "(string \<times> 'v) list option"
  grpcStatus :: "'s grpc_status option"

record ('f, 'v, 's) err_heap =
  errs :: "err_addr \<Rightarrow> ('f, 'v, 's) Error"
  next_err :: err_addr

text \<open>The environment: what the package calls, and its debug flag.\<close>

record ('f, 'v, 's) err_env =
  foreign_text :: "'f \<Rightarrow> string"
  foreign_status :: "'f \<Rightarrow> 's grpc_status option"
  foreign_is :: "'f \<Rightarrow> 'f err_value \<Rightarrow> bool"
  NewStruct :: "(string \<times> 'v) list \<Rightarrow> 's option"
  WithDetails :: "'s grpc_status \<Rightarrow> 's pbError \<Rightarrow> 's grpc_status option"
  grpcDebugMode :: bool

definition SetGRPCDebugMode :: "bool \<Rightarrow> ('f, 'v, 's) err_env \<Rightarrow> ('f, 'v, 's) err_env" where
  "SetGRPCDebugMode enable env = env\<lparr>grpcDebugMode := enable\<rparr>"

section \<open>Construction and updates\<close>

definition alloc_err :: "('f, 'v, 's) Error \<Rightarrow> ('f, 'v, 's) err_heap \<Rightarrow> err_addr \<times> ('f, 'v, 's) err_heap" where
  "alloc_err e H = (next_err H, \<lparr>errs = (errs H)(next_err H := e), next_err = Suc (next_err H)\<rparr>)"

definition New :: "string \<Rightarrow> ('f, 'v, 's) err_heap \<Rightarrow> err_addr \<times> ('f, 'v, 's) err_heap" where
  "New msg = alloc_err \<lparr>message = msg, code = InvalidCode, cause = NoError, detail = None, grpcStatus = None\<rparr>"

definition Wrap :: "'f err_value \<Rightarrow> string \<Rightarrow> ('f, 'v, 's) err_heap \<Rightarrow> err_addr \<times> ('f, 'v, 's) err_heap" where
  "Wrap e msg = alloc_err \<lparr>message = msg, code = InvalidCode, cause = e, detail = None, grpcStatus = None\<rparr>"

definition set_err :: "err_addr \<Rightarrow> ('f, 'v, 's) Error \<Rightarrow> ('f, 'v, 's) err_heap \<Rightarrow> ('f, 'v, 's) err_heap" where
  "set_err a e H = H\<lparr>errs := (errs H)(a := e)\<rparr>"

definition WithCode :: "int \<Rightarrow> err_addr \<Rightarrow> ('f, 'v, 's) err_heap \<Rightarrow> ('f, 'v, 's) err_heap" where
  "WithCode c a H = set_err a ((errs H a)\<lparr>grpcStatus := None, code := c\<rparr>) H"

text \<open>\<open>codes.Code\<close> is a \<open>uint32\<close>.\<close>

definition WithGRPCCode :: "32 word \<Rightarrow> err_addr \<Rightarrow> ('f, 'v, 's) err_heap \<Rightarrow> ('f, 'v, 's) err_heap" where
  "WithGRPCCode c a H = set_err a ((errs H a)\<lparr>grpcStatus := None, code := uint c\<rparr>) H"

definition With :: "string \<Rightarrow> 'v \<Rightarrow> err_addr \<Rightarrow> ('f, 'v, 's) err_heap \<Rightarrow> ('f, 'v, 's) err_heap" where
  "With key v a H = set_err a ((errs H a)\<lparr>grpcStatus := None,
     detail := Some (AList.update key v (case detail (errs H a) of None \<Rightarrow> [] | Some d \<Rightarrow> d))\<rparr>) H"

definition Message :: "err_addr \<Rightarrow> ('f, 'v, 's) err_heap \<Rightarrow> string" where
  "Message a H = message (errs H a)"

definition Code :: "err_addr \<Rightarrow> ('f, 'v, 's) err_heap \<Rightarrow> int" where
  "Code a H = code (errs H a)"

definition Cause :: "err_addr \<Rightarrow> ('f, 'v, 's) err_heap \<Rightarrow> 'f err_value" where
  "Cause a H = cause (errs H a)"

definition Unwrap :: "err_addr \<Rightarrow> ('f, 'v, 's) err_heap \<Rightarrow> 'f err_value" where
  "Unwrap a H = cause (errs H a)"

section \<open>Text, details, log fields and gRPC status\<close>

partial_function (option) Error_text ::
  "('f, 'v, 's) err_env \<Rightarrow> ('f, 'v, 's) err_heap \<Rightarrow> err_addr \<Rightarrow> string option" where
  "Error_text env H a = (case cause (errs H a) of
      NoError \<Rightarrow> Some (message (errs H a))
    | Foreign f \<Rightarrow> Some (message (errs H a) @ '': '' @ foreign_text env f)
    | Own b \<Rightarrow> Option.bind (Error_text env H b) (\<lambda>t. Some (message (errs H a) @ '': '' @ t)))"

partial_function (option) detailProto ::
  "('f, 'v, 's) err_env \<Rightarrow> ('f, 'v, 's) err_heap \<Rightarrow> err_addr \<Rightarrow> 's pbError option" where
  "detailProto env H a =
     (let d = (case detail (errs H a) of None \<Rightarrow> None | Some fs \<Rightarrow> NewStruct env fs) in
      if grpcDebugMode env then (case cause (errs H a) of
          NoError \<Rightarrow> Some (PbError (message (errs H a)) d None)
        | Foreign f \<Rightarrow> Some (PbError (message (errs H a)) d (Some (PbError (foreign_text env f) None None)))
        | Own b \<Rightarrow> Option.bind (detailProto env H b) (\<lambda>c.
            Some (PbError (message (errs H a)) d (Some c))))
      else Some (PbError (message (errs H a)) d None))"

text \<open>
  The events of a logger: \<open>log.Err\<close> and \<open>log.Interface\<close>. The fields of the cause come
  first, then its own, in the order Go ranges over the map.
\<close>

datatype 'v log_entry = Err string | Interface string 'v

definition detail_entries :: "('f, 'v, 's) Error \<Rightarrow> 'v log_entry list" where
  "detail_entries e = (case detail e of None \<Rightarrow> [] | Some d \<Rightarrow> map (\<lambda>(k, v). Interface k v) d)"

partial_function (option) addDetailToLogger ::
  "('f, 'v, 's) err_heap \<Rightarrow> err_addr \<Rightarrow> 'v log_entry list \<Rightarrow> 'v log_entry list option" where
  "addDetailToLogger H a log =
     Option.bind (case cause (errs H a) of Own b \<Rightarrow> addDetailToLogger H b log | _ \<Rightarrow> Some log)
       (\<lambda>l. Some (l @ detail_entries (errs H a)))"

definition Log ::
  "('f, 'v, 's) err_env \<Rightarrow> ('f, 'v, 's) err_heap \<Rightarrow> err_addr \<Rightarrow> 'v log_entry list \<Rightarrow> 'v log_entry list option" where
  "Log env H a log = (case Error_text env H a of
      None \<Rightarrow> None | Some t \<Rightarrow> addDetailToLogger H a (log @ [Err t]))"

text \<open>\<open>codes.Code(e.code)\<close> keeps the low 32 bits.\<close>

definition code_of :: "int \<Rightarrow> nat" where
  "code_of c = (if c = InvalidCode then codes_Unknown else nat (c mod 2 ^ 32))"

definition own_status ::
  "('f, 'v, 's) err_env \<Rightarrow> ('f, 'v, 's) err_heap \<Rightarrow> err_addr \<Rightarrow> 's grpc_status option" where
  "own_status env H a = (case detailProto env H a of
      None \<Rightarrow> None
    | Some d \<Rightarrow>
        (let st = \<lparr>st_code = code_of (code (errs H a)), st_message = message (errs H a), st_details = []\<rparr>
         in case WithDetails env st d of Some st' \<Rightarrow> Some st' | None \<Rightarrow> Some st))"

definition cache_status :: "err_addr \<Rightarrow> 's grpc_status \<Rightarrow> ('f, 'v, 's) err_heap \<Rightarrow> ('f, 'v, 's) err_heap" where
  "cache_status a st H = set_err a ((errs H a)\<lparr>grpcStatus := Some st\<rparr>) H"

definition build_status ::
  "('f, 'v, 's) err_env \<Rightarrow> ('f, 'v, 's) err_heap \<Rightarrow> err_addr \<Rightarrow> ('s grpc_status \<times> ('f, 'v, 's) err_heap) option" where
  "build_status env H a = (case own_status env H a of None \<Rightarrow> None | Some st \<Rightarrow> Some (st, cache_status a st H))"

partial_function (option) GRPCStatus ::
  "('f, 'v, 's) err_env \<Rightarrow> ('f, 'v, 's) err_heap \<Rightarrow> err_addr \<Rightarrow> ('s grpc_status \<times> ('f, 'v, 's) err_heap) option" where
  "GRPCStatus env H a = (case grpcStatus (errs H a) of
      Some st \<Rightarrow> Some (st, H)
    | None \<Rightarrow>
        if code (errs H a) = InvalidCode then (case cause (errs H a) of
            Own b \<Rightarrow> Option.bind (GRPCStatus env H b) (\<lambda>(st, H'). Some (st, cache_status a st H'))
          | Foreign f \<Rightarrow> (case foreign_status env f of
              Some st \<Rightarrow> Some (st, cache_status a st H) | None \<Rightarrow> build_status env H a)
          | NoError \<Rightarrow> build_status env H a)
        else build_status env H a)"

text \<open>\<open>errors.Is\<close>: the causes are unwrapped until one is the target.\<close>

partial_function (option) Is ::
  "('f, 'v, 's) err_env \<Rightarrow> ('f, 'v, 's) err_heap \<Rightarrow> 'f err_value \<Rightarrow> 'f err_value \<Rightarrow> bool option" where
  "Is env H err target = (if target = NoError then Some (err = NoError) else (case err of
      NoError \<Rightarrow> Some False
    | Foreign f \<Rightarrow> Some (foreign_is env f target)
    | Own a \<Rightarrow> if err = target then Some True else Is env H (cause (errs H a)) target))"

definition Unwrap_error :: "('f \<Rightarrow> 'f err_value) \<Rightarrow> ('f, 'v, 's) err_heap \<Rightarrow> 'f err_value \<Rightarrow> 'f err_value" where
  "Unwrap_error foreign_unwrap H err = (case err of
      NoError \<Rightarrow> NoError | Own a \<Rightarrow> Unwrap a H | Foreign f \<Rightarrow> foreign_unwrap f)"

definition LogError ::
  "('f, 'v, 's) err_env \<Rightarrow> ('f, 'v, 's) err_heap \<Rightarrow> 'f err_value \<Rightarrow> 'v log_entry list \<Rightarrow> 'v log_entry list option" where
  "LogError env H err log = (case err of
      NoError \<Rightarrow> Some log
    | Foreign f \<Rightarrow> Some (log @ [Err (foreign_text env f)])
    | Own a \<Rightarrow> Log env H a log)"

declare Error_text.simps [code] detailProto.simps [code] addDetailToLogger.simps [code]
  GRPCStatus.simps [code] Is.simps [code]

section \<open>Well-formed heaps\<close>

text \<open>A cause is set once, at construction, so it is older than the error.\<close>

definition wf_errs :: "('f, 'v, 's) err_heap \<Rightarrow> bool" where
  "wf_errs H \<longleftrightarrow> list_all (\<lambda>a. case cause (errs H a) of Own b \<Rightarrow> b < a | _ \<Rightarrow> True) [0..<next_err H]"

lemma wf_errsD: "wf_errs H \<Longrightarrow> a < next_err H \<Longrightarrow> cause (errs H a) = Own b \<Longrightarrow> b < a"
  by (auto simp: wf_errs_def list_all_iff split: err_value.splits)

lemma set_err_same_cause:
  "wf_errs H \<Longrightarrow> cause e = cause (errs H a) \<Longrightarrow> wf_errs (set_err a e H)"
  by (auto simp: wf_errs_def set_err_def list_all_iff)

lemma wf_updates:
  assumes "wf_errs H"
  shows "wf_errs (WithCode c a H)" "wf_errs (WithGRPCCode w a H)" "wf_errs (With k v a H)"
    "wf_errs (cache_status a st H)"
  using assms by (auto simp: WithCode_def WithGRPCCode_def With_def cache_status_def intro: set_err_same_cause)

lemma wf_alloc:
  assumes "wf_errs H" "\<And>b. cause e = Own b \<Longrightarrow> b < next_err H" "alloc_err e H = (a, H')"
  shows "wf_errs H'"
  using assms by (auto simp: wf_errs_def alloc_err_def list_all_iff less_Suc_eq split: err_value.splits if_splits)

text \<open>The chain of errors of the package below an error, outermost first, and how it ends.\<close>

function err_chain :: "('f, 'v, 's) err_heap \<Rightarrow> err_addr \<Rightarrow> err_addr list \<times> 'f option" where
  "err_chain H a = (case cause (errs H a) of
      NoError \<Rightarrow> ([a], None)
    | Foreign f \<Rightarrow> ([a], Some f)
    | Own b \<Rightarrow> if b < a then (a # fst (err_chain H b), snd (err_chain H b)) else ([a], None))"
  by auto
termination by (relation "measure snd") auto

declare err_chain.simps [simp del]

lemma err_chain_Own: "cause (errs H a) = Own b \<Longrightarrow> b < a \<Longrightarrow>
    err_chain H a = (a # fst (err_chain H b), snd (err_chain H b))"
  by (subst err_chain.simps) simp

lemma err_chain_end:
  "cause (errs H a) = NoError \<Longrightarrow> err_chain H a = ([a], None)"
  "cause (errs H a) = Foreign f \<Longrightarrow> err_chain H a = ([a], Some f)"
  by (subst err_chain.simps, simp)+

text \<open>Induction along the causes of a well-formed heap.\<close>

lemma cause_induct [consumes 2, case_names step]:
  assumes "wf_errs H" "a < next_err H"
    and "\<And>a. a < next_err H \<Longrightarrow> (\<And>b. cause (errs H a) = Own b \<Longrightarrow> b < a \<and> b < next_err H \<and> P b) \<Longrightarrow> P a"
  shows "P a"
  using assms(2)
proof (induction a rule: less_induct)
  case (less a)
  show ?case
  proof (rule assms(3) [OF less.prems])
    fix b assume "cause (errs H a) = Own b"
    then have "b < a" by (rule wf_errsD [OF assms(1) less.prems])
    with less show "b < a \<and> b < next_err H \<and> P b" by simp
  qed
qed

section \<open>What the recursions compute\<close>

abbreviation chain_texts ::
  "('f, 'v, 's) err_env \<Rightarrow> ('f, 'v, 's) err_heap \<Rightarrow> err_addr \<Rightarrow> string list" where
  "chain_texts env H a \<equiv> map (\<lambda>b. message (errs H b)) (fst (err_chain H a)) @
     (case snd (err_chain H a) of None \<Rightarrow> [] | Some f \<Rightarrow> [foreign_text env f])"

lemma err_chain_ne [simp]: "fst (err_chain H a) \<noteq> []"
  by (subst err_chain.simps) (auto split: err_value.splits)

lemma err_chain_hd: "fst (err_chain H a) = a # tl (fst (err_chain H a))"
  by (subst err_chain.simps, subst (2) err_chain.simps) (auto split: err_value.splits)

text \<open>The details of a chain, nested outermost first.\<close>

definition own_detail :: "('f, 'v, 's) err_env \<Rightarrow> ('f, 'v, 's) Error \<Rightarrow> 's option" where
  "own_detail env e = (case detail e of None \<Rightarrow> None | Some fs \<Rightarrow> NewStruct env fs)"

fun nested_details ::
  "('f, 'v, 's) err_env \<Rightarrow> ('f, 'v, 's) err_heap \<Rightarrow> err_addr list \<Rightarrow> 'f option \<Rightarrow> 's pbError option" where
  "nested_details env H [] e = (case e of None \<Rightarrow> None | Some f \<Rightarrow> Some (PbError (foreign_text env f) None None))"
| "nested_details env H (b # bs) e =
     Some (PbError (message (errs H b)) (own_detail env (errs H b)) (nested_details env H bs e))"

text \<open>
  The errors \<open>GRPCStatus\<close> asks, outermost first: it goes on to the cause as long as the
  error has neither a cached status nor a code.
\<close>

definition decides :: "('f, 'v, 's) Error \<Rightarrow> bool" where
  "decides e \<longleftrightarrow> grpcStatus e \<noteq> None \<or> code e \<noteq> InvalidCode"

fun asked_errors :: "('f, 'v, 's) err_heap \<Rightarrow> err_addr list \<Rightarrow> err_addr list" where
  "asked_errors H [] = []"
| "asked_errors H (b # bs) = (if decides (errs H b) then [b] else b # asked_errors H bs)"

definition last_status ::
  "('f, 'v, 's) err_env \<Rightarrow> ('f, 'v, 's) err_heap \<Rightarrow> err_addr \<Rightarrow> 's grpc_status option" where
  "last_status env H d = (case grpcStatus (errs H d) of
      Some st \<Rightarrow> Some st
    | None \<Rightarrow> (case (if code (errs H d) = InvalidCode then cause (errs H d) else NoError) of
        Foreign f \<Rightarrow> (case foreign_status env f of Some st \<Rightarrow> Some st | None \<Rightarrow> own_status env H d)
      | _ \<Rightarrow> own_status env H d))"

lemma cache_status_same [simp]:
  "grpcStatus (errs H a) = Some st \<Longrightarrow> cache_status a st H = H"
  by (simp add: cache_status_def set_err_def fun_upd_idem)

lemma detailProto_spec:
  assumes "wf_errs H" "a < next_err H"
  shows "detailProto env H a = (if grpcDebugMode env
      then nested_details env H (fst (err_chain H a)) (snd (err_chain H a))
      else Some (PbError (message (errs H a)) (own_detail env (errs H a)) None))"
  using assms
proof (induction rule: cause_induct)
  case (step a)
  show ?case
  proof (cases "cause (errs H a)")
    case (Own b)
    have "nested_details env H (fst (err_chain H b)) (snd (err_chain H b)) \<noteq> None"
      by (subst err_chain_hd) simp
    then obtain n where "nested_details env H (fst (err_chain H b)) (snd (err_chain H b)) = Some n"
      by blast
    with Own step show ?thesis
      by (subst detailProto.simps) (auto simp: err_chain_Own own_detail_def Let_def)
  qed (subst detailProto.simps; simp add: err_chain_end own_detail_def Let_def)+
qed

lemma own_status_total:
  assumes "wf_errs H" "a < next_err H"
  obtains st where "own_status env H a = Some st"
proof -
  have "\<exists>d. detailProto env H a = Some d"
    unfolding detailProto_spec [OF assms] by (subst err_chain_hd) simp
  then have "own_status env H a \<noteq> None" by (auto simp: own_status_def Let_def split: option.splits)
  then show thesis using that by blast
qed

lemma last_status_total:
  assumes "wf_errs H" "a < next_err H"
  obtains st where "last_status env H a = Some st"
proof -
  obtain st where "own_status env H a = Some st" by (rule own_status_total [OF assms])
  then have "last_status env H a \<noteq> None"
    by (auto simp: last_status_def split: option.splits err_value.splits)
  then show thesis using that by blast
qed

lemma addDetailToLogger_spec:
  assumes "wf_errs H" "a < next_err H"
  shows "addDetailToLogger H a log =
    Some (log @ concat (map (\<lambda>b. detail_entries (errs H b)) (rev (fst (err_chain H a)))))"
  using assms
proof (induction rule: cause_induct)
  case (step a)
  then show ?case
    by (cases "cause (errs H a)") (subst addDetailToLogger.simps; auto simp: err_chain_end err_chain_Own)+
qed

lemma Error_text_spec:
  assumes "wf_errs H" "a < next_err H"
  shows "Error_text env H a = Some (Join '': '' (chain_texts env H a))"
  using assms
proof (induction rule: cause_induct)
  case (step a)
  then show ?case
    by (cases "cause (errs H a)")
      (subst Error_text.simps; auto simp: err_chain_end err_chain_Own Join_Cons)+
qed

lemma GRPCStatus_spec:
  assumes "wf_errs H" "a < next_err H"
  obtains st where
    "last_status env H (last (asked_errors H (fst (err_chain H a)))) = Some st"
    "GRPCStatus env H a = Some (st, foldr (\<lambda>b. cache_status b st) (asked_errors H (fst (err_chain H a))) H)"
  using assms
proof (induction arbitrary: thesis rule: cause_induct)
  case (step a)
  let ?e = "errs H a"
  obtain l where l: "last_status env H a = Some l" by (rule last_status_total [OF assms(1) step.hyps])
  show ?case
  proof (cases "decides ?e \<or> (\<forall>b. cause ?e \<noteq> Own b)")
    case True
    then have asked: "asked_errors H (fst (err_chain H a)) = [a]"
      by (cases "cause ?e") (subst err_chain_hd; auto simp: err_chain_end)+
    have "GRPCStatus env H a = Some (l, cache_status a l H)"
      using True l
      by (subst GRPCStatus.simps) (auto simp: last_status_def decides_def build_status_def
          split: option.splits err_value.splits if_splits)
    with step.prems l asked show thesis by auto
  next
    case False
    then obtain b where b: "cause ?e = Own b" by blast
    with step.hyps step.IH have "b < a" by blast
    with False b have asked: "asked_errors H (fst (err_chain H a)) = a # asked_errors H (fst (err_chain H b))"
      by (simp add: err_chain_Own)
    have ne: "asked_errors H (fst (err_chain H b)) \<noteq> []" by (subst err_chain_hd) simp
    from step.IH [OF b] obtain st where
      "last_status env H (last (asked_errors H (fst (err_chain H b)))) = Some st"
      "GRPCStatus env H b = Some (st, foldr (\<lambda>b. cache_status b st) (asked_errors H (fst (err_chain H b))) H)"
      by metis
    moreover from this have "GRPCStatus env H a = Some (st, cache_status a st
        (foldr (\<lambda>b. cache_status b st) (asked_errors H (fst (err_chain H b))) H))"
      using False b by (subst GRPCStatus.simps) (simp add: decides_def)
    ultimately show thesis using asked ne by (intro step.prems [of st]) simp_all
  qed
qed

text \<open>An error with a code and no cached status answers with that code.\<close>

lemma coded_status:
  assumes "wf_errs H" "a < next_err H" "grpcStatus (errs H a) = None" "code (errs H a) = c" "c \<noteq> InvalidCode"
    and "\<And>st d st'. WithDetails env st d = Some st' \<Longrightarrow> st_code st' = st_code st"
  shows "map_option (\<lambda>r. st_code (fst r)) (GRPCStatus env H a) = Some (nat (c mod 2 ^ 32))"
proof -
  obtain st where st: "own_status env H a = Some st" by (rule own_status_total [OF assms(1,2)])
  then have "st_code st = code_of c"
    using assms(4,6) by (auto simp: own_status_def Let_def split: option.splits)
  moreover have "GRPCStatus env H a = Some (st, cache_status a st H)"
    using assms(3-5) st by (subst GRPCStatus.simps) (simp add: build_status_def)
  ultimately show ?thesis using assms(5) by (simp add: code_of_def)
qed

section \<open>Programs over errors\<close>

text \<open>A sequence of calls of a client; a call on an error that does not exist is no call.\<close>

datatype ('f, 'v, 's) err_op =
    OpNew string
  | OpWrap "'f err_value" string
  | OpWithCode int err_addr
  | OpWithGRPCCode "32 word" err_addr
  | OpWith string 'v err_addr
  | OpGRPCStatus "('f, 'v, 's) err_env" err_addr

definition err_exists :: "('f, 'v, 's) err_heap \<Rightarrow> 'f err_value \<Rightarrow> bool" where
  "err_exists H e \<longleftrightarrow> (case e of Own a \<Rightarrow> a < next_err H | _ \<Rightarrow> True)"

fun err_step :: "('f, 'v, 's) err_op \<Rightarrow> ('f, 'v, 's) err_heap \<Rightarrow> ('f, 'v, 's) err_heap" where
  "err_step (OpNew msg) H = snd (New msg H)"
| "err_step (OpWrap e msg) H = (if err_exists H e then snd (Wrap e msg H) else H)"
| "err_step (OpWithCode c a) H = (if a < next_err H then WithCode c a H else H)"
| "err_step (OpWithGRPCCode c a) H = (if a < next_err H then WithGRPCCode c a H else H)"
| "err_step (OpWith k v a) H = (if a < next_err H then With k v a H else H)"
| "err_step (OpGRPCStatus env a) H =
     (if a < next_err H then (case GRPCStatus env H a of None \<Rightarrow> H | Some (_, H') \<Rightarrow> H') else H)"

definition no_error :: "('f, 'v, 's) Error" where
  "no_error = \<lparr>message = [], code = 0, cause = NoError, detail = None, grpcStatus = None\<rparr>"

definition run_errs :: "('f, 'v, 's) err_op list \<Rightarrow> ('f, 'v, 's) err_heap" where
  "run_errs ops = fold err_step ops \<lparr>errs = (\<lambda>_. no_error), next_err = 0\<rparr>"

lemma wf_foldr_cache: "wf_errs H \<Longrightarrow> wf_errs (foldr (\<lambda>b. cache_status b st) bs H)"
  by (induction bs) (auto intro: wf_updates)

lemma wf_err_step: "wf_errs H \<Longrightarrow> wf_errs (err_step op H)"
proof (cases op)
  case (OpNew msg)
  assume "wf_errs H"
  then show ?thesis unfolding OpNew err_step.simps New_def
    by (rule wf_alloc [OF _ _ surjective_pairing]) simp
next
  case (OpWrap e msg)
  assume "wf_errs H"
  then show ?thesis unfolding OpWrap err_step.simps Wrap_def
    by (auto simp: err_exists_def intro: wf_alloc [OF _ _ surjective_pairing] split: err_value.splits)
next
  case (OpGRPCStatus env a)
  assume wf: "wf_errs H"
  show ?thesis
  proof (cases "a < next_err H")
    case True
    obtain st bs where "GRPCStatus env H a = Some (st, foldr (\<lambda>b. cache_status b st) bs H)"
      by (rule GRPCStatus_spec [OF wf True])
    then show ?thesis using True wf by (simp add: OpGRPCStatus wf_foldr_cache)
  qed (simp add: OpGRPCStatus wf)
qed (auto intro: wf_updates)

lemma wf_run_errs: "wf_errs (run_errs ops)"
proof -
  have "wf_errs H \<Longrightarrow> wf_errs (fold err_step ops H)" for H :: "('a, 'b, 'c) err_heap"
    by (induction ops arbitrary: H) (simp_all add: wf_err_step)
  then show ?thesis by (simp add: run_errs_def wf_errs_def)
qed

section \<open>Properties\<close>

text \<open>
  C26. Whatever sequence of \<open>New\<close>, \<open>Wrap\<close>, \<open>WithCode\<close>, \<open>WithGRPCCode\<close>,
  \<open>With\<close> and \<open>GRPCStatus\<close> calls built the errors, causes never form a cycle, so
  \<open>Error\<close> returns for every error: the messages from the outermost error to the root
  cause, joined by a colon.
\<close>

theorem Error_joins_messages:
  assumes "a < next_err (run_errs ops)"
  shows "Error_text env (run_errs ops) a = Some (Join '': '' (chain_texts env (run_errs ops) a))"
  by (rule Error_text_spec [OF wf_run_errs assms])

text \<open>
  C23. \<open>GRPCStatus\<close> returns. The status is that of the first error of the chain that has a
  cached status or a code; if none has, that of the foreign root cause if it is a gRPC error, and
  otherwise a new one of the last error; every error asked caches it and nothing else changes.
\<close>

theorem GRPCStatus_of_chain:
  fixes ops :: "('f, 'v, 's) err_op list"
  defines "H \<equiv> run_errs ops"
  defines "asked a \<equiv> asked_errors H (fst (err_chain H a))"
  assumes "a < next_err H"
  shows "case last_status env H (last (asked a)) of None \<Rightarrow> False
    | Some st \<Rightarrow> GRPCStatus env H a = Some (st, foldr (\<lambda>b. cache_status b st) (asked a) H)"
proof -
  from assms(3) show ?thesis unfolding H_def asked_def
    by (rule GRPCStatus_spec [OF wf_run_errs, where env = env]) simp
qed

text \<open>
  The details an error puts into its status: in debug mode the whole chain, nested; otherwise
  the error's own message and fields, and nothing of its causes.
\<close>

theorem detailProto_hides_causes:
  assumes "a < next_err (run_errs ops)"
  shows "detailProto env (run_errs ops) a = (if grpcDebugMode env
      then nested_details env (run_errs ops) (fst (err_chain (run_errs ops) a)) (snd (err_chain (run_errs ops) a))
      else Some (PbError (message (errs (run_errs ops) a)) (own_detail env (errs (run_errs ops) a)) None))"
  by (rule detailProto_spec [OF wf_run_errs assms])

text \<open>
  A code set on an error is visible in the error's own next status, cut to 32 bits (so a
  code that is a multiple of \<open>2 ^ 32\<close> gives OK), whatever was cached before.
\<close>

theorem WithCode_sets_status_code:
  assumes "a < next_err (run_errs ops)" "c \<noteq> InvalidCode"
    and "\<And>st d st'. WithDetails env st d = Some st' \<Longrightarrow> st_code st' = st_code st"
  shows "map_option (\<lambda>r. st_code (fst r)) (GRPCStatus env (WithCode c a (run_errs ops)) a)
    = Some (nat (c mod 2 ^ 32))"
proof -
  have "wf_errs (WithCode c a (run_errs ops))" by (intro wf_updates wf_run_errs)
  from coded_status [OF this _ _ _ assms(2,3), of a] assms(1) show ?thesis
    by (simp add: WithCode_def set_err_def)
qed

text \<open>
  A status is cached per error: after \<open>GRPCStatus\<close>, a code set on the error itself
  drops its cache, while one set on any other error, a cause included, leaves the answer as it was.
\<close>

theorem status_cache_is_per_error:
  assumes "GRPCStatus env H a = Some (st, H')"
  shows "grpcStatus (errs (WithCode c b H') a) = (if b = a then None else Some st)"
proof -
  have "grpcStatus (errs H' a) = Some st"
    using assms by (subst (asm) GRPCStatus.simps)
      (auto simp: build_status_def cache_status_def set_err_def bind_eq_Some_conv
        split: option.splits if_splits err_value.splits)
  then show ?thesis by (simp add: WithCode_def set_err_def)
qed

section \<open>Concrete runs\<close>

definition sample_env :: "bool \<Rightarrow> (unit, unit, unit) err_env" where
  "sample_env debug = \<lparr>foreign_text = (\<lambda>_. ''EOF''), foreign_status = (\<lambda>_. None), foreign_is = (\<lambda>f t. t = Foreign f),
     NewStruct = (\<lambda>_. Some ()), WithDetails = (\<lambda>st d. if st_code st = codes_OK then None else Some (st\<lparr>st_details := [d]\<rparr>)),
     grpcDebugMode = debug\<rparr>"

definition sample_ops :: "(unit, unit, unit) err_op list" where
  "sample_ops = [OpWrap (Foreign ()) ''read'', OpWithCode 5 0, OpWrap (Own 0) ''load'']"

lemma sample_exists: "1 < next_err (run_errs sample_ops)"
  by code_simp

theorem Error_joins_messages_witness:
  "Error_text (sample_env False) (run_errs sample_ops) 1 = Some ''load: read: EOF''"
  unfolding Error_joins_messages [OF sample_exists] by code_simp

theorem GRPCStatus_of_chain_witness:
  "map_option (\<lambda>(st, H). (st_code st, st_message st, grpcStatus (errs H 1) = Some st))
     (GRPCStatus (sample_env False) (run_errs sample_ops) 1) = Some (5, ''read'', True)"
  (is "map_option ?f (?G 1) = _")
proof -
  have "map_option ?f (case last_status (sample_env False) (run_errs sample_ops)
      (last (asked_errors (run_errs sample_ops) (fst (err_chain (run_errs sample_ops) 1)))) of
      None \<Rightarrow> None | Some st \<Rightarrow> Some (st, foldr (\<lambda>b. cache_status b st)
        (asked_errors (run_errs sample_ops) (fst (err_chain (run_errs sample_ops) 1))) (run_errs sample_ops)))
    = Some (5, ''read'', True)"
    by code_simp
  then show ?thesis using GRPCStatus_of_chain [OF sample_exists, of "sample_env False"]
    by (auto split: option.splits)
qed

theorem detailProto_hides_causes_witness:
  "detailProto (sample_env False) (run_errs sample_ops) 1 = Some (PbError ''load'' None None)
   \<and> detailProto (sample_env True) (run_errs sample_ops) 1 = Some (PbError ''load'' None
       (Some (PbError ''read'' None (Some (PbError ''EOF'' None None)))))"
  unfolding detailProto_hides_causes [OF sample_exists] by code_simp

theorem WithCode_sets_status_code_witness:
  "map_option (\<lambda>r. st_code (fst r)) (GRPCStatus (sample_env False) (WithCode (2 ^ 32) 1 (run_errs sample_ops)) 1)
   = Some codes_OK"
proof -
  have "st_code st' = st_code st" if "WithDetails (sample_env False) st d = Some st'" for st d st'
    using that by (auto simp: sample_env_def split: if_splits)
  from WithCode_sets_status_code [OF sample_exists _ this, of "2 ^ 32"] show ?thesis
    by (simp add: InvalidCode_def codes_OK_def)
qed

theorem status_cache_is_per_error_witness:
  "map_option (\<lambda>(st, H). st_code (the (grpcStatus (errs (WithCode 7 0 H) 1))))
     (GRPCStatus (sample_env False) (run_errs sample_ops) 1) = Some 5"
proof -
  have "map_option (\<lambda>(st, H). st_code st) (GRPCStatus (sample_env False) (run_errs sample_ops) 1) = Some 5"
    by code_simp
  then obtain st H where r: "GRPCStatus (sample_env False) (run_errs sample_ops) 1 = Some (st, H)" and "st_code st = 5"
    by auto
  then show ?thesis using status_cache_is_per_error [OF r, of 7 0] by simp
qed

end
