(* ===== verification/Copy.thy ===== *)
theory Copy
  imports Prelude
begin

text \<open>
  Deep copies (\<open>src/copy/copy.go\<close>): five functions encode the source and decode the bytes
  into the destination, with one codec library each; \<open>GobDeepCopy\<close> does it through codecs
  it keeps in a pool. The libraries are arguments. A gob codec is its buffer, the
  messages that were encoded and not yet decoded; which codec the pool hands out (an idle one or
  a new one) is decided by the pool (theory \<open>Pool\<close>) and is an argument here.
\<close>

section \<open>Copies through bytes\<close>

definition errorNilPointer :: string where "errorNilPointer = ''src_or_dst_cannot_be_nil''"
definition errorEncoding :: string where "errorEncoding = ''encoding_failed_during_deep_copy''"
definition errorDecoding :: string where "errorDecoding = ''decoding_failed_during_deep_copy''"

text \<open>A destination is the nil interface, a value that is no pointer, or a pointer to \<open>'t\<close>.\<close>

datatype 't dest = NilDest | NoPointer | PointerTo 't

record ('v, 'b, 't, 'e) codec =
  Marshal :: "'v \<Rightarrow> 'e + 'b"
  Unmarshal :: "'b \<Rightarrow> 't dest \<Rightarrow> 'e option \<times> 't dest"

text \<open>
  The result is the error and the destination, which a failed decoding may have changed too.
\<close>

definition JsonDeepCopy ::
  "('v, 'b, 't, 'e) codec \<Rightarrow> 't dest \<Rightarrow> 'v option \<Rightarrow> 'e go_error option \<times> 't dest" where
  "JsonDeepCopy json dst src = (case src of
      None \<Rightarrow> (Some (NewError errorNilPointer), dst)
    | Some v \<Rightarrow>
        if dst = NilDest then (Some (NewError errorNilPointer), dst)
        else (case Marshal json v of
            Inl err \<Rightarrow> (Some (WrapError (Lib err) errorEncoding), dst)
          | Inr encodedBytes \<Rightarrow> (case Unmarshal json encodedBytes dst of
                (Some err, dst') \<Rightarrow> (Some (WrapError (Lib err) errorDecoding), dst')
              | (None, dst') \<Rightarrow> (None, dst'))))"

text \<open>The four other functions have the same text over another library.\<close>

definition MsgpackDeepCopy ::
  "('v, 'b, 't, 'e) codec \<Rightarrow> 't dest \<Rightarrow> 'v option \<Rightarrow> 'e go_error option \<times> 't dest" where
  [go_defs]: "MsgpackDeepCopy msgpack = JsonDeepCopy msgpack"

definition JsoniterDeepCopy ::
  "('v, 'b, 't, 'e) codec \<Rightarrow> 't dest \<Rightarrow> 'v option \<Rightarrow> 'e go_error option \<times> 't dest" where
  [go_defs]: "JsoniterDeepCopy jsoniterJSON = JsonDeepCopy jsoniterJSON"

definition ffjsonDeepCopy ::
  "('v, 'b, 't, 'e) codec \<Rightarrow> 't dest \<Rightarrow> 'v option \<Rightarrow> 'e go_error option \<times> 't dest" where
  [go_defs]: "ffjsonDeepCopy ffjson = JsonDeepCopy ffjson"

definition shamatonMsgpackDeepCopy ::
  "('v, 'b, 't, 'e) codec \<Rightarrow> 't dest \<Rightarrow> 'v option \<Rightarrow> 'e go_error option \<times> 't dest" where
  [go_defs]: "shamatonMsgpackDeepCopy sMsgpack = JsonDeepCopy sMsgpack"

section \<open>Copies through pooled gob codecs\<close>

datatype 'e gob_error = GobError 'e | NonPointerError | EndOfStream

text \<open>
  The gob package: what a value is encoded to, and how a message is decoded into what a pointer
  points to.
\<close>

record ('v, 'm, 't, 'e) gob =
  gob_message :: "'v \<Rightarrow> 'e + 'm"
  gob_decode :: "'m \<Rightarrow> 't \<Rightarrow> 'e option \<times> 't"

type_synonym 'm gobCodec = "'m list"

definition newGobCodec :: "'m gobCodec" where
  "newGobCodec = []"

text \<open>A value that cannot be encoded writes no message.\<close>

definition gob_Encode :: "('v, 'm, 't, 'e) gob \<Rightarrow> 'v \<Rightarrow> 'm gobCodec \<Rightarrow> 'e gob_error option \<times> 'm gobCodec" where
  "gob_Encode g v c = (case gob_message g v of
      Inl e \<Rightarrow> (Some (GobError e), c)
    | Inr msg \<Rightarrow> (None, c @ [msg]))"

text \<open>
  \<open>Decode\<close> takes the next message of the stream, but refuses a destination that is no
  pointer before it reads.
\<close>

definition gob_Decode ::
  "('v, 'm, 't, 'e) gob \<Rightarrow> 't dest \<Rightarrow> 'm gobCodec \<Rightarrow> 'e gob_error option \<times> 't dest \<times> 'm gobCodec" where
  "gob_Decode g dst c = (case dst of
      NoPointer \<Rightarrow> (Some NonPointerError, dst, c)
    | NilDest \<Rightarrow> (if c = [] then (Some EndOfStream, dst, c) else (None, dst, tl c))
    | PointerTo t \<Rightarrow> (case c of
          [] \<Rightarrow> (Some EndOfStream, dst, c)
        | msg # rest \<Rightarrow> (case gob_decode g msg t of
              (e, t') \<Rightarrow> (map_option GobError e, PointerTo t', rest))))"

text \<open>
  The pool is the list of its idle codecs; \<open>fresh\<close> says that the pool dials although it
  has idle codecs (they have expired), and the deferred \<open>Put\<close> runs on every path.
\<close>

definition GobDeepCopy ::
  "('v, 'm, 't, 'e) gob \<Rightarrow> bool \<Rightarrow> 't dest \<Rightarrow> 'v option \<Rightarrow> 'm gobCodec list \<Rightarrow>
     'e gob_error go_error option \<times> 't dest \<times> 'm gobCodec list" where
  "GobDeepCopy g fresh dst src pool = (case src of
      None \<Rightarrow> (Some (NewError errorNilPointer), dst, pool)
    | Some v \<Rightarrow>
        if dst = NilDest then (Some (NewError errorNilPointer), dst, pool)
        else
          let (c, idle) = (if fresh \<or> pool = [] then (newGobCodec, pool) else (hd pool, tl pool)) in
          case gob_Encode g v c of
            (Some err, c') \<Rightarrow> (Some (WrapError (Lib err) errorEncoding), dst, c' # idle)
          | (None, c') \<Rightarrow> (case gob_Decode g dst c' of
                (Some err, dst', c'') \<Rightarrow> (Some (WrapError (Lib err) errorDecoding), dst', c'' # idle)
              | (None, dst', c'') \<Rightarrow> (None, dst', c'' # idle)))"

definition DeepCopy ::
  "('v, 'm, 't, 'e) gob \<Rightarrow> bool \<Rightarrow> 't dest \<Rightarrow> 'v option \<Rightarrow> 'm gobCodec list \<Rightarrow>
     'e gob_error go_error option \<times> 't dest \<times> 'm gobCodec list" where
  [go_defs]: "DeepCopy = GobDeepCopy"

definition gob_Close :: "'m gobCodec \<Rightarrow> 'e option" where
  "gob_Close c = None"

section \<open>Clean codecs\<close>

text \<open>Between copies no codec of the pool holds a message.\<close>

definition clean_pool :: "'m gobCodec list \<Rightarrow> bool" where
  "clean_pool pool \<longleftrightarrow> list_all (\<lambda>c. c = []) pool"

lemma clean_pool_simps [simp]:
  "clean_pool []" "clean_pool (c # cs) \<longleftrightarrow> c = [] \<and> clean_pool cs"
  by (simp_all add: clean_pool_def)

lemma clean_pool_tl [simp]: "clean_pool pool \<Longrightarrow> clean_pool (tl pool)"
  by (cases pool) auto

lemma clean_pool_hd: "clean_pool pool \<Longrightarrow> pool \<noteq> [] \<Longrightarrow> hd pool = []"
  by (cases pool) auto

text \<open>A copy into a pointer through a clean pool is one encoding and one decoding.\<close>

lemma GobDeepCopy_clean:
  assumes "clean_pool pool" "dst = PointerTo t"
  shows "\<exists>pool'. clean_pool pool' \<and> GobDeepCopy g fresh dst (Some v) pool = (case gob_message g v of
      Inl e \<Rightarrow> (Some (WrapError (Lib (GobError e)) errorEncoding), dst, pool')
    | Inr msg \<Rightarrow> (map_option (\<lambda>e. WrapError (Lib (GobError e)) errorDecoding) (fst (gob_decode g msg t)),
        PointerTo (snd (gob_decode g msg t)), pool'))"
  using assms
  by (cases pool)
    (auto simp: GobDeepCopy_def gob_Encode_def gob_Decode_def newGobCodec_def
      split: sum.splits prod.splits option.splits)

text \<open>A sequence of copies.\<close>

fun run_copies ::
  "('v, 'm, 't, 'e) gob \<Rightarrow> (bool \<times> 't dest \<times> 'v option) list \<Rightarrow> 'm gobCodec list \<Rightarrow> 'm gobCodec list" where
  "run_copies g [] pool = pool"
| "run_copies g ((fresh, dst, src) # cs) pool = run_copies g cs (snd (snd (GobDeepCopy g fresh dst src pool)))"

lemma GobDeepCopy_keeps_clean:
  assumes "clean_pool pool" "dst \<noteq> NoPointer"
  shows "clean_pool (snd (snd (GobDeepCopy g fresh dst src pool)))"
proof (cases "src = None \<or> dst = NilDest")
  case True
  with assms show ?thesis by (auto simp: GobDeepCopy_def split: option.splits)
next
  case False
  with assms obtain v t where "src = Some v" "dst = PointerTo t" by (cases dst) auto
  with GobDeepCopy_clean [OF assms(1), of dst t g fresh v] show ?thesis
    by (cases "gob_message g v") (auto split: prod.splits)
qed

lemma run_copies_clean:
  "clean_pool pool \<Longrightarrow> \<forall>(fresh, dst, src) \<in> set cs. dst \<noteq> NoPointer \<Longrightarrow> clean_pool (run_copies g cs pool)"
  by (induction cs arbitrary: pool) (auto simp: GobDeepCopy_keeps_clean)

section \<open>Properties\<close>

text \<open>
  As long as every earlier copy had a pointer as its destination, failed ones included, a
  gob copy gives exactly what encoding its own source and decoding that gives: the pooled
  codecs are not observable.
\<close>

theorem gob_copies_independent:
  assumes "\<forall>(fresh, dst, src) \<in> set cs. dst \<noteq> NoPointer" "gob_message g v = Inr msg"
  shows "(case GobDeepCopy g fresh (PointerTo t) (Some v) (run_copies g cs []) of (err, dst, _) \<Rightarrow> (err, dst))
    = (map_option (\<lambda>e. WrapError (Lib (GobError e)) errorDecoding) (fst (gob_decode g msg t)),
       PointerTo (snd (gob_decode g msg t)))"
proof -
  have "clean_pool (run_copies g cs [])" by (rule run_copies_clean [OF _ assms(1)]) simp
  from GobDeepCopy_clean [OF this refl, of g fresh t v] assms(2) show ?thesis
    by (auto split: prod.splits)
qed

text \<open>
  C28. One copy into a destination that is no pointer fails and leaves its message in the codec
  it gives back to the pool: the next copy through that codec succeeds with the source of the failed
  one.
\<close>

theorem gob_copy_after_non_pointer:
  assumes "gob_message g v = Inr msg" "gob_message g w = Inr msg'" "gob_decode g msg t = (None, t')"
  shows "(case GobDeepCopy g False (PointerTo t) (Some w) (run_copies g [(False, NoPointer, Some v)] []) of
    (err, dst, pool) \<Rightarrow> err = None \<and> dst = PointerTo t' \<and> pool = [[msg']])"
  using assms by (simp add: GobDeepCopy_def gob_Encode_def gob_Decode_def newGobCodec_def)

section \<open>Concrete runs\<close>

definition nat_gob :: "(nat, nat, nat, unit) gob" where
  "nat_gob = \<lparr>gob_message = Inr, gob_decode = (\<lambda>m _. (None, m))\<rparr>"

theorem gob_copies_independent_witness:
  "(case GobDeepCopy nat_gob False (PointerTo 0) (Some 7) (run_copies nat_gob [(False, PointerTo 1, Some 5), (False, NilDest, Some 6)] []) of
     (err, dst, _) \<Rightarrow> (err, dst)) = (None, PointerTo 7)"
  using gob_copies_independent [of "[(False, PointerTo 1, Some 5), (False, NilDest, Some 6)]" nat_gob 7 7 False 0]
  by (simp add: nat_gob_def)

theorem gob_copy_after_non_pointer_witness:
  "(case GobDeepCopy nat_gob False (PointerTo 0) (Some 7) (run_copies nat_gob [(False, NoPointer, Some 5)] []) of
     (err, dst, pool) \<Rightarrow> err = None \<and> dst = PointerTo 5 \<and> pool = [[7]])"
  by (rule gob_copy_after_non_pointer) (simp_all add: nat_gob_def)

end
