(* ===== verification/Config.thy ===== *)
theory Config
  imports Copy "HOL-Library.AList"
begin

text \<open>
  Configuration (\<open>src/config\<close>): maps of dynamically typed values with checked getters, the
  command line flags, and the loading of the global configuration from Apollo and from a file.
  \<open>jsonpath.Read\<close>, JSON, the validator and viper are arguments. A Go map is its list of
  entries with distinct keys; \<open>As\<close>-style reflection over targets is inside the arguments.
\<close>

section \<open>Values and type assertion errors\<close>

datatype go_value =
    VNil
  | VString string
  | VInt int
  | VInt64 int
  | VBool bool
  | VList "go_value list"
  | VMap "(string \<times> go_value) list"
  | VStringMap "(string \<times> go_value) list"
  | VOther string

type_synonym StringMap = "(string \<times> go_value) list"

datatype 'e config_error = External 'e | TypeAssertionError go_value string

type_synonym 'e cfg_error = "'e config_error go_error"

text \<open>\<open>utils.GetTypeName\<close>: \<open>reflect.TypeOf\<close> of the nil interface is a nil type.\<close>

fun GetTypeName :: "go_value \<Rightarrow> string exec" where
  "GetTypeName VNil = Panic NilDereference"
| "GetTypeName (VString _) = Return ''string''"
| "GetTypeName (VInt _) = Return ''int''"
| "GetTypeName (VInt64 _) = Return ''int64''"
| "GetTypeName (VBool _) = Return ''bool''"
| "GetTypeName (VList _) = Return ''[]interface {}''"
| "GetTypeName (VMap _) = Return ''map[string]interface {}''"
| "GetTypeName (VStringMap _) = Return ''config.StringMap''"
| "GetTypeName (VOther t) = Return t"

definition TypeAssertionError_text :: "go_value \<Rightarrow> string \<Rightarrow> string exec" where
  "TypeAssertionError_text v target =
     exec_bind (GetTypeName v) (\<lambda>n. Return (''type_assertion_error:'' @ n @ ''->'' @ target))"

section \<open>Getters\<close>

definition ToRawMap :: "StringMap \<Rightarrow> (string \<times> go_value) list" where
  "ToRawMap m = m"

definition regularizePath :: "string \<Rightarrow> string" where
  "regularizePath path = (if HasPrefix path ''$'' then path else ''$.'' @ path)"

type_synonym 'e reader = "(string \<times> go_value) list \<Rightarrow> string \<Rightarrow> 'e + go_value"

definition GetString :: "'e reader \<Rightarrow> StringMap \<Rightarrow> string \<Rightarrow> 'e cfg_error + string" where
  "GetString Read m path = (case Read (ToRawMap m) (regularizePath path) of
      Inl err \<Rightarrow> Inl (Lib (External err))
    | Inr (VString v) \<Rightarrow> Inr v
    | Inr v \<Rightarrow> Inl (Lib (TypeAssertionError v ''string'')))"

definition GetInt :: "'e reader \<Rightarrow> StringMap \<Rightarrow> string \<Rightarrow> 'e cfg_error + int" where
  "GetInt Read m path = (case Read (ToRawMap m) (regularizePath path) of
      Inl err \<Rightarrow> Inl (Lib (External err))
    | Inr (VInt v) \<Rightarrow> Inr v
    | Inr v \<Rightarrow> Inl (Lib (TypeAssertionError v ''int'')))"

definition GetInt64 :: "'e reader \<Rightarrow> StringMap \<Rightarrow> string \<Rightarrow> 'e cfg_error + int" where
  "GetInt64 Read m path = (case Read (ToRawMap m) (regularizePath path) of
      Inl err \<Rightarrow> Inl (Lib (External err))
    | Inr (VInt64 v) \<Rightarrow> Inr v
    | Inr v \<Rightarrow> Inl (Lib (TypeAssertionError v ''int64'')))"

definition GetBool :: "'e reader \<Rightarrow> StringMap \<Rightarrow> string \<Rightarrow> 'e cfg_error + bool" where
  "GetBool Read m path = (case Read (ToRawMap m) (regularizePath path) of
      Inl err \<Rightarrow> Inl (Lib (External err))
    | Inr (VBool v) \<Rightarrow> Inr v
    | Inr v \<Rightarrow> Inl (Lib (TypeAssertionError v ''bool'')))"

definition GetStringMap :: "'e reader \<Rightarrow> StringMap \<Rightarrow> string \<Rightarrow> 'e cfg_error + StringMap" where
  "GetStringMap Read m path = (case Read (ToRawMap m) (regularizePath path) of
      Inl err \<Rightarrow> Inl (Lib (External err))
    | Inr (VMap v) \<Rightarrow> Inr v
    | Inr v \<Rightarrow> Inl (Lib (TypeAssertionError v ''StringMap'')))"

fun list_loop :: "go_value list \<Rightarrow> StringMap list \<Rightarrow> 'e cfg_error + StringMap list" where
  "list_loop [] configList = Inr configList"
| "list_loop (rawItem # rest) configList = (case rawItem of
      VMap configItem \<Rightarrow> list_loop rest (configList @ [configItem])
    | _ \<Rightarrow> Inl (Lib (TypeAssertionError rawItem ''StringMap'')))"

definition GetStringMapList :: "'e reader \<Rightarrow> StringMap \<Rightarrow> string \<Rightarrow> 'e cfg_error + StringMap list" where
  "GetStringMapList Read m path = (case Read (ToRawMap m) (regularizePath path) of
      Inl err \<Rightarrow> Inl (Lib (External err))
    | Inr (VList rawList) \<Rightarrow> list_loop rawList []
    | Inr v \<Rightarrow> Inl (Lib (TypeAssertionError v ''[]StringMap'')))"

section \<open>Conversion to structs\<close>

text \<open>The JSON codec and the validator; a struct is a destination of \<open>Copy\<close>.\<close>

definition ToStruct ::
  "(go_value, 'b, 't, 'e config_error) codec \<Rightarrow> StringMap \<Rightarrow> 't dest \<Rightarrow> 'e cfg_error option \<times> 't dest" where
  "ToStruct json m target = JsonDeepCopy json target (Some (VStringMap m))"

definition validated :: "('t dest \<Rightarrow> 'e option) \<Rightarrow> 't dest \<Rightarrow> 'e cfg_error option" where
  "validated validate target = (case validate target of
      None \<Rightarrow> None
    | Some err \<Rightarrow> Some (WrapError (Lib (External err)) ''config_object_validation_error''))"

definition ToStructWithValidation ::
  "(go_value, 'b, 't, 'e config_error) codec \<Rightarrow> ('t dest \<Rightarrow> 'e option) \<Rightarrow> StringMap \<Rightarrow> 't dest \<Rightarrow>
     'e cfg_error option \<times> 't dest" where
  "ToStructWithValidation json validate m target =
     (case JsonDeepCopy json target (Some (VStringMap m)) of
        (Some err, target') \<Rightarrow> (Some (WrapError err ''deep_copy_config_error''), target')
      | (None, target') \<Rightarrow> (validated validate target', target'))"

definition StringMap_GetStruct ::
  "'e reader \<Rightarrow> (go_value, 'b, 't, 'e config_error) codec \<Rightarrow> StringMap \<Rightarrow> string \<Rightarrow> 't dest \<Rightarrow>
     'e cfg_error option \<times> 't dest" where
  "StringMap_GetStruct Read json m path target = (case Read (ToRawMap m) (regularizePath path) of
      Inl err \<Rightarrow> (Some (Lib (External err)), target)
    | Inr (VMap v) \<Rightarrow> ToStruct json v target
    | Inr v \<Rightarrow> (Some (Lib (TypeAssertionError v ''StringMap'')), target))"

text \<open>
  The global configuration: viper, with the state that its calls read and change.
\<close>

record agollo_options =
  AccessKey :: string
  Cluster :: string
  AutoFetchOnCacheMiss :: bool
  LongPollerInterval :: int
  FailTolerantOnBackupExists :: bool
  HeartBeatInterval :: int

record ('s, 't, 'e) viper =
  v_GetString :: "'s \<Rightarrow> string \<Rightarrow> string"
  v_GetStringMap :: "'s \<Rightarrow> string \<Rightarrow> StringMap"
  v_UnmarshalKey :: "'s \<Rightarrow> string \<Rightarrow> 't dest \<Rightarrow> 'e option \<times> 't dest"
  v_Set :: "string \<Rightarrow> string \<Rightarrow> 's \<Rightarrow> 's"
  v_SetConfigFile :: "string \<Rightarrow> 's \<Rightarrow> 's"
  v_SetConfigType :: "string \<Rightarrow> 's \<Rightarrow> 's"
  v_ReadInConfig :: "'s \<Rightarrow> 'e option \<times> 's"
  v_AddRemoteProvider :: "string \<Rightarrow> string \<Rightarrow> string \<Rightarrow> 's \<Rightarrow> 'e option \<times> 's"
  v_ReadRemoteConfig :: "'s \<Rightarrow> 'e option \<times> 's"
  v_WatchRemoteConfigOnChannel :: "'s \<Rightarrow> 'e option \<times> 's"
  remote_SetAppID :: "string \<Rightarrow> 's \<Rightarrow> 's"
  remote_SetAgolloOptions :: "agollo_options \<Rightarrow> 's \<Rightarrow> 's"

definition config_GetStringMap :: "('s, 't, 'e) viper \<Rightarrow> 's \<Rightarrow> string \<Rightarrow> StringMap" where
  "config_GetStringMap V s path = v_GetStringMap V s path"

definition config_GetStruct ::
  "('s, 't, 'e) viper \<Rightarrow> 's \<Rightarrow> string \<Rightarrow> 't dest \<Rightarrow> 'e cfg_error option \<times> 't dest" where
  "config_GetStruct V s path value =
     apfst (map_option (\<lambda>err. Lib (External err))) (v_UnmarshalKey V s path value)"

definition config_GetStructWithValidation ::
  "('s, 't, 'e) viper \<Rightarrow> ('t dest \<Rightarrow> 'e option) \<Rightarrow> 's \<Rightarrow> string \<Rightarrow> 't dest \<Rightarrow> 'e cfg_error option \<times> 't dest" where
  "config_GetStructWithValidation V validate s path value = (case v_UnmarshalKey V s path value of
      (Some err, value') \<Rightarrow> (Some (Lib (External err)), value')
    | (None, value') \<Rightarrow> (validated validate value', value'))"

text \<open>
  The method of the same name: the call of \<open>GetStruct\<close> in it is that of the package, so the
  path is looked up in the global configuration.
\<close>

definition StringMap_GetStructWithValidation ::
  "('s, 't, 'e) viper \<Rightarrow> ('t dest \<Rightarrow> 'e option) \<Rightarrow> 's \<Rightarrow> StringMap \<Rightarrow> string \<Rightarrow> 't dest \<Rightarrow>
     'e cfg_error option \<times> 't dest" where
  "StringMap_GetStructWithValidation V validate s m path value = (case config_GetStruct V s path value of
      (Some err, value') \<Rightarrow> (Some err, value')
    | (None, value') \<Rightarrow> (validated validate value', value'))"

text \<open>A write to a nil map panics; ranging over one does nothing.\<close>

definition Mix :: "StringMap option \<Rightarrow> StringMap option \<Rightarrow> StringMap option exec" where
  "Mix m src = (case (m, src) of
      (_, None) \<Rightarrow> Return m
    | (_, Some []) \<Rightarrow> Return m
    | (None, Some (_ # _)) \<Rightarrow> Panic NilMapWrite
    | (Some d, Some es) \<Rightarrow> Return (Some (fold (\<lambda>(k, v). AList.update k v) es d)))"

section \<open>Loading the global configuration\<close>

text \<open>
  The flags, each bound to a viper key: \<open>StringP\<close>, \<open>BoolP\<close> and \<open>String\<close>, with name, short
  name, default and usage.
\<close>

datatype flag =
    StringP string string string string
  | BoolP string string bool string
  | StringFlag string string string

definition bindApolloArgs :: "(string \<times> flag) list" where
  "bindApolloArgs =
    [(''apollo_server'', StringFlag ''apollo-server'' [] ''apollo server endpoint''),
     (''apollo_app_id'', StringFlag ''apollo-app-id'' [] ''apollo app id''),
     (''apollo_access_key'', StringFlag ''apollo-access-key'' [] ''apollo app access key secret''),
     (''apollo_environment'', StringFlag ''apollo-environment'' [] ''apollo environment''),
     (''apollo_cluster'', StringFlag ''apollo-cluster'' [] ''apollo cluster''),
     (''apollo_namespace'', StringFlag ''apollo-namespace'' [] ''apollo namespace'')]"

definition BindArgs :: "(string \<times> flag) list" where
  "BindArgs =
    [(''config_path'', StringP ''config-path'' ''c'' [] ''config file path''),
     (''debug'', BoolP ''debug'' ''d'' False ''enable debug mode''),
     (''log_level'', StringP ''log-level'' ''l'' [] ''log level: trace, debug, info, warn, error''),
     (''beautify_log'', BoolP ''beautify-log'' ''b'' False ''enable human-friendly, colorized log''),
     (''job'', StringP ''job'' ''j'' [] ''run job'')] @ bindApolloArgs"

definition setFallbackValue :: "('s, 't, 'e) viper \<Rightarrow> string \<Rightarrow> string \<Rightarrow> 's \<Rightarrow> 's" where
  "setFallbackValue V key fallbackKey s =
     (if v_GetString V s key = [] then v_Set V key (v_GetString V s fallbackKey) s else s)"

definition fixApolloArgs :: "('s, 't, 'e) viper \<Rightarrow> 's \<Rightarrow> 's" where
  "fixApolloArgs V s =
     setFallbackValue V ''apollo_namespace'' ''_apollo_namespace_''
       (setFallbackValue V ''apollo_cluster'' ''_apollo_cluster_''
         (setFallbackValue V ''apollo_environment'' ''_apollo_environment_''
           (setFallbackValue V ''apollo_access_key'' ''_apollo_access_key_''
             (setFallbackValue V ''apollo_app_id'' ''_apollo_app_id_''
               (setFallbackValue V ''apollo_server'' ''_apollo_server_'' s)))))"

definition getConfigType :: "string \<Rightarrow> string" where
  "getConfigType name = (let ext = Ext name in if 1 < length ext then tl ext else [])"

definition apolloDefaultNamespace :: string where "apolloDefaultNamespace = ''config.yaml''"
definition apolloLongPollerInterval :: int where "apolloLongPollerInterval = 10 * 10 ^ 9"
definition apolloHeartBeatInterval :: int where "apolloHeartBeatInterval = 5 * 60 * 10 ^ 9"

definition or_default :: "string \<Rightarrow> string \<Rightarrow> string" where
  [go_defs]: "or_default d v = (if v = [] then d else v)"

definition initApolloConfig :: "('s, 't, 'e) viper \<Rightarrow> 's \<Rightarrow> 'e option \<times> 's" where
  "initApolloConfig V s0 =
    (let s = fixApolloArgs V s0;
         server = v_GetString V s ''apollo_server'';
         appId = v_GetString V s ''apollo_app_id''
     in if server = [] \<or> appId = [] then (None, s)
     else
       let namespace = or_default apolloDefaultNamespace (v_GetString V s ''apollo_namespace'');
           accessKey = v_GetString V s ''apollo_access_key'';
           cluster = or_default ''default'' (v_GetString V s ''apollo_cluster'');
           s1 = remote_SetAppID V appId s;
           s2 = remote_SetAgolloOptions V \<lparr>AccessKey = accessKey, Cluster = cluster,
                  AutoFetchOnCacheMiss = True, LongPollerInterval = apolloLongPollerInterval,
                  FailTolerantOnBackupExists = True, HeartBeatInterval = apolloHeartBeatInterval\<rparr> s1;
           s3 = v_SetConfigType V (getConfigType namespace) s2
       in case v_AddRemoteProvider V ''apollo'' server namespace s3 of
            (Some err, s4) \<Rightarrow> (Some err, s4)
          | (None, s4) \<Rightarrow> (case v_ReadRemoteConfig V s4 of
              (Some err, s5) \<Rightarrow> (Some err, s5)
            | (None, s5) \<Rightarrow> v_WatchRemoteConfigOnChannel V s5))"

definition read_file_error :: "string \<Rightarrow> string" where
  "read_file_error configPath =
     ''ReadConfigError(CONFIG_PATH='' @ [CHR 0x22] @ configPath @ [CHR 0x22] @ '')''"

definition InitConfig :: "('s, 't, 'e) viper \<Rightarrow> 's \<Rightarrow> 'e cfg_error option \<times> 's" where
  "InitConfig V s0 = (case initApolloConfig V s0 of
      (Some err, s) \<Rightarrow> (Some (WrapError (Lib (External err)) ''ReadConfigError(SOURCE=Apollo)''), s)
    | (None, s) \<Rightarrow>
        (let configPath = v_GetString V s ''config_path'' in
         if configPath = [] then (None, s)
         else
           let s1 = v_SetConfigType V (getConfigType configPath) (v_SetConfigFile V configPath s)
           in case v_ReadInConfig V s1 of
                (Some err, s2) \<Rightarrow> (Some (WrapError (Lib (External err)) (read_file_error configPath)), s2)
              | (None, s2) \<Rightarrow> (None, s2)))"

text \<open>
  The logger handed to agollo: pairs of a key and a value, of which those with a string key
  become fields; without a logger everything is printed.
\<close>

datatype agollo_log = Printed "go_value list" | Fields "(string \<times> go_value) list" string

fun log_groups :: "go_value list \<Rightarrow> (string \<times> go_value) list" where
  "log_groups (k # v # kvs) = (case k of VString key \<Rightarrow> [(key, v)] | _ \<Rightarrow> []) @ log_groups kvs"
| "log_groups _ = []"

definition AgolloZerologAdapter_Log :: "bool \<Rightarrow> go_value list \<Rightarrow> agollo_log" where
  "AgolloZerologAdapter_Log logger_is_nil kvs =
     (if logger_is_nil then Printed kvs else Fields (log_groups kvs) ''apollo_client'')"

section \<open>Lemmas\<close>

definition as_map :: "go_value \<Rightarrow> StringMap option" where
  "as_map v = (case v of VMap m \<Rightarrow> Some m | _ \<Rightarrow> None)"

text \<open>All maps of a list, or the first element that is none.\<close>

definition all_maps :: "go_value list \<Rightarrow> go_value + StringMap list" where
  "all_maps vs = (case filter (\<lambda>v. as_map v = None) vs of
      [] \<Rightarrow> Inr (map (\<lambda>v. the (as_map v)) vs) | bad # _ \<Rightarrow> Inl bad)"

lemma list_loop_spec:
  "list_loop vs acc = (case all_maps vs of
      Inr ms \<Rightarrow> Inr (acc @ ms) | Inl bad \<Rightarrow> Inl (Lib (TypeAssertionError bad ''StringMap'')))"
  by (induction vs arbitrary: acc)
    (auto simp: all_maps_def as_map_def split: go_value.splits list.splits)

lemma map_of_mix:
  "distinct (map fst es) \<Longrightarrow> map_of (fold (\<lambda>(k, v). AList.update k v) es d) = map_of d ++ map_of es"
proof (induction es arbitrary: d)
  case (Cons e es)
  then have "fst e \<notin> dom (map_of es)" by (simp add: dom_map_of_conv_image_fst)
  then have "(map_of d)(fst e \<mapsto> snd e) ++ map_of es = (map_of d ++ map_of es)(fst e \<mapsto> snd e)"
    by (rule map_add_upd_left)
  moreover have "map_of d ++ map_of (e # es) = (map_of d ++ map_of es)(fst e \<mapsto> snd e)"
    by (simp only: map_of.simps map_add_upd)
  ultimately show ?case using Cons by (simp only: fold.simps o_apply split_beta) (simp add: update_conv')
qed simp

lemma getConfigType_ext:
  "CHR ''.'' \<notin> set e \<Longrightarrow> CHR ''/'' \<notin> set e \<Longrightarrow> getConfigType (s @ CHR ''.'' # e) = e"
  by (auto simp: getConfigType_def Ext_append)

definition apollo_keys :: "string list" where
  "apollo_keys = [''apollo_server'', ''apollo_app_id'', ''apollo_access_key'',
     ''apollo_environment'', ''apollo_cluster'', ''apollo_namespace'']"

abbreviation fallback_key :: "string \<Rightarrow> string" where
  "fallback_key k \<equiv> ''_'' @ k @ ''_''"

lemma fixApolloArgs_fold:
  "fixApolloArgs V s = fold (\<lambda>k. setFallbackValue V k (fallback_key k)) apollo_keys s"
  by (simp add: fixApolloArgs_def apollo_keys_def)

lemma fold_fallbacks:
  assumes get_set: "\<And>s k v k'. v_GetString V (v_Set V k v s) k' = (if k' = k then v else v_GetString V s k')"
    and "distinct ks" "\<forall>k \<in> set ks. fallback_key k \<notin> set ks"
  shows "v_GetString V (fold (\<lambda>k. setFallbackValue V k (fallback_key k)) ks s) k =
    (if k \<in> set ks \<and> v_GetString V s k = [] then v_GetString V s (fallback_key k) else v_GetString V s k)"
  using assms(2-)
proof (induction ks arbitrary: s)
  case (Cons x xs)
  have "v_GetString V (setFallbackValue V x f s) k' =
      (if k' = x \<and> v_GetString V s x = [] then v_GetString V s f else v_GetString V s k')" for f k'
    by (simp add: setFallbackValue_def get_set)
  with Cons show ?case by auto
qed simp

section \<open>Properties\<close>

text \<open>
  \<open>GetStringMapList\<close> gives all maps of the list in order, or the type error of the first
  element that is no map.
\<close>

theorem GetStringMapList_result:
  "GetStringMapList Read m path = (case Read m (regularizePath path) of
      Inr (VList vs) \<Rightarrow> (case all_maps vs of
          Inr ms \<Rightarrow> Inr ms | Inl bad \<Rightarrow> Inl (Lib (TypeAssertionError bad ''StringMap'')))
    | Inr v \<Rightarrow> Inl (Lib (TypeAssertionError v ''[]StringMap''))
    | Inl err \<Rightarrow> Inl (Lib (External err)))"
  by (simp add: GetStringMapList_def ToRawMap_def list_loop_spec split: sum.splits go_value.splits)

text \<open>
  A getter that finds a null value returns an error whose text cannot be asked for:
  \<open>Error\<close> on it panics. On every other value of a wrong type it does not.
\<close>

theorem null_value_error_text_panics:
  assumes "GetString Read m path = Inl (Lib (TypeAssertionError v target))"
  shows "(\<exists>p. TypeAssertionError_text v target = Panic p) \<longleftrightarrow> Read m (regularizePath path) = Inr VNil"
  using assms by (cases v)
    (auto simp: GetString_def ToRawMap_def TypeAssertionError_text_def split: sum.splits go_value.splits)

text \<open>
  \<open>Mix\<close> overrides: the mixed map has the value of the source for every key of the source and
  the old one otherwise.
\<close>

theorem Mix_overrides:
  assumes "distinct (map fst es)"
  shows "(case Mix (Some d) (Some es) of Return (Some r) \<Rightarrow> map_of r = map_of d ++ map_of es | _ \<Rightarrow> False)"
proof -
  have "Mix (Some d) (Some es) = Return (Some (fold (\<lambda>(k, v). AList.update k v) es d))"
    by (cases es) (simp_all add: Mix_def)
  then show ?thesis by (simp add: map_of_mix [OF assms])
qed

text \<open>
  After \<open>fixApolloArgs\<close> each of the six Apollo settings has its own value, or that
  of its fallback key if it was empty, and no other setting has changed. (Of viper: what was set is
  read back.)
\<close>

theorem fixApolloArgs_fallbacks:
  assumes "\<And>s k v k'. v_GetString V (v_Set V k v s) k' = (if k' = k then v else v_GetString V s k')"
  shows "v_GetString V (fixApolloArgs V s) k =
    (if k \<in> set apollo_keys \<and> v_GetString V s k = [] then v_GetString V s (fallback_key k) else v_GetString V s k)"
  unfolding fixApolloArgs_fold by (rule fold_fallbacks [OF assms]) (simp_all add: apollo_keys_def)

section \<open>Concrete runs\<close>

definition null_reader :: "unit reader" where
  "null_reader m path = (if path = ''$.db'' then Inr VNil else Inl ())"

theorem null_value_error_text_panics_witness:
  "\<exists>p. TypeAssertionError_text VNil ''string'' = Panic p"
proof -
  have "GetString null_reader [] ''db'' = Inl (Lib (TypeAssertionError VNil ''string''))"
    by (simp add: GetString_def null_reader_def regularizePath_def HasPrefix_def)
  from null_value_error_text_panics [OF this] show ?thesis
    by (simp add: null_reader_def regularizePath_def HasPrefix_def)
qed

theorem Mix_overrides_witness:
  "(case Mix (Some [(''a'', VInt 1), (''b'', VInt 2)]) (Some [(''b'', VNil), (''c'', VInt 3)]) of
     Return (Some r) \<Rightarrow> map_of r = map_of [(''a'', VInt 1), (''b'', VInt 2)] ++ map_of [(''b'', VNil), (''c'', VInt 3)]
   | _ \<Rightarrow> False)"
  by (rule Mix_overrides) simp

definition map_viper :: "(string \<Rightarrow> string, unit, unit) viper" where
  "map_viper = \<lparr>v_GetString = (\<lambda>s k. s k), v_GetStringMap = (\<lambda>_ _. []), v_UnmarshalKey = (\<lambda>_ _ d. (None, d)),
     v_Set = (\<lambda>k v s. s(k := v)), v_SetConfigFile = (\<lambda>_ s. s), v_SetConfigType = (\<lambda>_ s. s),
     v_ReadInConfig = Pair None, v_AddRemoteProvider = (\<lambda>_ _ _. Pair None), v_ReadRemoteConfig = Pair None,
     v_WatchRemoteConfigOnChannel = Pair None, remote_SetAppID = (\<lambda>_ s. s), remote_SetAgolloOptions = (\<lambda>_ s. s)\<rparr>"

definition map_settings :: "string \<Rightarrow> string" where
  "map_settings = (\<lambda>_. [])(''_apollo_cluster_'' := ''prod'')"

theorem fixApolloArgs_fallbacks_witness:
  "v_GetString map_viper (fixApolloArgs map_viper map_settings) ''apollo_cluster'' = ''prod''"
  by (subst fixApolloArgs_fallbacks) (simp_all add: map_viper_def map_settings_def apollo_keys_def)

end
