(* ===== verification/Middleware.thy ===== *)
theory Middleware
  imports Config Errors
begin

text \<open>
  Middlewares (\<open>src/appmgr/middleware.go\<close>, with \<open>config.go\<close> and \<open>context.go\<close> of
  the package): the registry, the configuration entries, the applier and the built-in middlewares.
  A handler or interceptor of a library is named by a constructor; those the package writes itself
  are functions as well. What is called outside is an argument (\<open>mw_env\<close>).
\<close>

section \<open>Handlers and interceptors\<close>

datatype 'svc gin_handler =
    SetGinService 'svc | GinContextLogger | GinLogRequest | GinPrometheus | GinRecovery
  | GinCors StringMap | GinCompress StringMap | GinUser nat

datatype 'svc unary_server =
    UnaryContextTags | UnaryServiceContext 'svc | UnaryContextLogger | UnaryLogRequest
  | UnaryPrometheus | UnaryRecovery | UnaryValidator | UnaryAccess string string | UnaryUser nat

datatype 'svc stream_server =
    StreamContextTags | StreamServiceContext 'svc | StreamContextLogger | StreamLogRequest
  | StreamPrometheus | StreamRecovery | StreamValidator | StreamAccess string string | StreamUser nat

datatype unary_client = UnaryClientPrometheus | UnaryClientValidator | UnaryClientUser nat
datatype stream_client = StreamClientPrometheus | StreamClientUser nat

type_synonym mw_options = StringMap

record 'svc Middleware =
  GinHandler :: "mw_options \<Rightarrow> 'svc gin_handler option"
  GrpcServerInterceptor :: "mw_options \<Rightarrow> ('svc unary_server option \<times> 'svc stream_server option) exec"
  GrpcClientInterceptor :: "mw_options \<Rightarrow> unary_client option \<times> stream_client option"

text \<open>
  The calls out: reading a path, the file viper has loaded, whether the access controller can
  be built, and the texts of foreign errors.
\<close>

record 'e mw_env =
  jsonpath_Read :: "'e reader"
  ConfigFileUsed :: string
  NewAccessController_error :: "string \<Rightarrow> string \<Rightarrow> 'e option"
  external_text :: "'e \<Rightarrow> string"

section \<open>Configuration entries\<close>

datatype 'e mw_error =
    UnknownType go_value string
  | MissedName "'e cfg_error" go_value
  | UnknownMiddleware string

definition parseMiddlewareConfig :: "'e mw_env \<Rightarrow> go_value \<Rightarrow> ('e mw_error + string \<times> mw_options) exec" where
  "parseMiddlewareConfig env middlewareConfig = (case middlewareConfig of
      VString name \<Rightarrow> Return (Inr (name, []))
    | VMap options \<Rightarrow> (case GetString (jsonpath_Read env) options ''name'' of
          Inl err \<Rightarrow> Return (Inl (MissedName err middlewareConfig))
        | Inr name \<Rightarrow> Return (Inr (name, options)))
    | _ \<Rightarrow> exec_bind (GetTypeName middlewareConfig) (\<lambda>t. Return (Inl (UnknownType middlewareConfig t))))"

text \<open>The text of an error, which logging it asks for.\<close>

fun cfg_error_text :: "'e mw_env \<Rightarrow> 'e cfg_error \<Rightarrow> string exec" where
  "cfg_error_text env (Lib (External e)) = Return (external_text env e)"
| "cfg_error_text env (Lib (TypeAssertionError v t)) = TypeAssertionError_text v t"
| "cfg_error_text env (NewError m) = Return m"
| "cfg_error_text env (WrapError e m) = exec_bind (cfg_error_text env e) (\<lambda>t. Return (m @ '': '' @ t))"

fun mw_error_text :: "'e mw_env \<Rightarrow> 'e mw_error \<Rightarrow> string exec" where
  "mw_error_text env (UnknownType v t) = Return ''middleware_config_error_unknown_type''"
| "mw_error_text env (MissedName err v) = cfg_error_text env (WrapError err ''middleware_config_error_missed_name'')"
| "mw_error_text env (UnknownMiddleware name) = Return ''unknown_middleware_name''"

definition resolvePathInConfig :: "string \<Rightarrow> string \<Rightarrow> string" where
  "resolvePathInConfig configPath filePath =
     (if filePath = [] \<or> IsAbs filePath then filePath
      else if configPath = [] then filePath
      else path_Join (path_Dir configPath) filePath)"

section \<open>The service in the context\<close>

datatype 'svc ctx_value = CtxService "'svc option" | CtxOther nat

type_synonym 'svc Context = "string \<rightharpoonup> 'svc ctx_value"

definition contextServiceKey :: string where "contextServiceKey = ''_service''"

definition GetContextService :: "'svc Context \<Rightarrow> 'svc option" where
  "GetContextService ctx = (case ctx contextServiceKey of Some (CtxService s) \<Rightarrow> s | _ \<Rightarrow> None)"

definition SetContextService :: "'svc Context \<Rightarrow> 'svc option \<Rightarrow> 'svc Context" where
  "SetContextService ctx s = ctx(contextServiceKey \<mapsto> CtxService s)"

definition SetGinContextService :: "'svc Context \<Rightarrow> 'svc option \<Rightarrow> 'svc Context" where
  "SetGinContextService ctx s = ctx(contextServiceKey \<mapsto> CtxService s)"

text \<open>A unary interceptor wraps the handler of a request.\<close>

definition serviceContextUnaryServerInterceptor ::
  "'svc \<Rightarrow> ('svc Context \<Rightarrow> 'q \<Rightarrow> 'r) \<Rightarrow> 'svc Context \<Rightarrow> 'q \<Rightarrow> 'r" where
  "serviceContextUnaryServerInterceptor service handler ctx req =
     (let ctx = SetContextService ctx (Some service) in handler ctx req)"

text \<open>A stream interceptor hands a stream with the changed context to the handler.\<close>

definition serviceContextStreamServerInterceptor ::
  "'svc \<Rightarrow> ('svc Context \<times> 'q \<Rightarrow> 'r) \<Rightarrow> 'svc Context \<times> 'q \<Rightarrow> 'r" where
  "serviceContextStreamServerInterceptor service handler stream =
     (let ctx = SetContextService (fst stream) (Some service); wrappedStream = (ctx, snd stream)
      in handler wrappedStream)"

section \<open>Recovery\<close>

definition codes_Internal :: "32 word" where "codes_Internal = 13"

text \<open>What a handler panicked with: an error or another value.\<close>

datatype ('f, 'v) panic_value = PanicError "'f err_value" | PanicValue 'v

definition recovery_handler ::
  "('f, 'v) panic_value \<Rightarrow> ('f, 'v, 's) err_heap \<Rightarrow> err_addr \<times> ('f, 'v, 's) err_heap" where
  "recovery_handler p H = (case p of
      PanicError rawErr \<Rightarrow> (let (a, H1) = Wrap rawErr ''panic'' H in (a, WithGRPCCode codes_Internal a H1))
    | PanicValue v \<Rightarrow> (let (a, H1) = New ''panic'' H in (a, WithGRPCCode codes_Internal a (With ''cause'' v a H1))))"

section \<open>The built-in middlewares\<close>

definition NewContextTagsMiddleware :: "'svc Middleware" where
  "NewContextTagsMiddleware = \<lparr>GinHandler = (\<lambda>_. None),
     GrpcServerInterceptor = (\<lambda>_. Return (Some UnaryContextTags, Some StreamContextTags)),
     GrpcClientInterceptor = (\<lambda>_. (None, None))\<rparr>"

definition NewServiceContextMiddleware :: "'svc \<Rightarrow> 'svc Middleware" where
  "NewServiceContextMiddleware service = \<lparr>GinHandler = (\<lambda>_. Some (SetGinService service)),
     GrpcServerInterceptor = (\<lambda>_. Return (Some (UnaryServiceContext service), Some (StreamServiceContext service))),
     GrpcClientInterceptor = (\<lambda>_. (None, None))\<rparr>"

definition NewContextLoggerMiddleware :: "'svc Middleware" where
  "NewContextLoggerMiddleware = \<lparr>GinHandler = (\<lambda>_. Some GinContextLogger),
     GrpcServerInterceptor = (\<lambda>_. Return (Some UnaryContextLogger, Some StreamContextLogger)),
     GrpcClientInterceptor = (\<lambda>_. (None, None))\<rparr>"

definition NewLogRequestMiddleware :: "'svc Middleware" where
  "NewLogRequestMiddleware = \<lparr>GinHandler = (\<lambda>_. Some GinLogRequest),
     GrpcServerInterceptor = (\<lambda>_. Return (Some UnaryLogRequest, Some StreamLogRequest)),
     GrpcClientInterceptor = (\<lambda>_. (None, None))\<rparr>"

definition NewMetricsMiddleware :: "'svc Middleware" where
  "NewMetricsMiddleware = \<lparr>GinHandler = (\<lambda>_. Some GinPrometheus),
     GrpcServerInterceptor = (\<lambda>_. Return (Some UnaryPrometheus, Some StreamPrometheus)),
     GrpcClientInterceptor = (\<lambda>_. (Some UnaryClientPrometheus, Some StreamClientPrometheus))\<rparr>"

definition NewOpenTracingMiddleware :: "'svc Middleware" where
  "NewOpenTracingMiddleware = \<lparr>GinHandler = (\<lambda>_. None),
     GrpcServerInterceptor = (\<lambda>_. Return (None, None)),
     GrpcClientInterceptor = (\<lambda>_. (None, None))\<rparr>"

definition NewRecoveryMiddleware :: "'svc Middleware" where
  "NewRecoveryMiddleware = \<lparr>GinHandler = (\<lambda>_. Some GinRecovery),
     GrpcServerInterceptor = (\<lambda>_. Return (Some UnaryRecovery, Some StreamRecovery)),
     GrpcClientInterceptor = (\<lambda>_. (None, None))\<rparr>"

definition NewRequestValidationMiddleware :: "'svc Middleware" where
  "NewRequestValidationMiddleware = \<lparr>GinHandler = (\<lambda>_. None),
     GrpcServerInterceptor = (\<lambda>_. Return (Some UnaryValidator, Some StreamValidator)),
     GrpcClientInterceptor = (\<lambda>_. (Some UnaryClientValidator, None))\<rparr>"

definition NewCorsMiddleware :: "'svc Middleware" where
  "NewCorsMiddleware = \<lparr>GinHandler = (\<lambda>options. Some (GinCors options)),
     GrpcServerInterceptor = (\<lambda>_. Return (None, None)),
     GrpcClientInterceptor = (\<lambda>_. (None, None))\<rparr>"

definition NewCompressMiddleware :: "'svc Middleware" where
  "NewCompressMiddleware = \<lparr>GinHandler = (\<lambda>options. Some (GinCompress options)),
     GrpcServerInterceptor = (\<lambda>_. Return (None, None)),
     GrpcClientInterceptor = (\<lambda>_. (None, None))\<rparr>"

text \<open>A fatal log entry ends the process.\<close>

definition string_or_empty :: "'e cfg_error + string \<Rightarrow> string" where
  [go_defs]: "string_or_empty r = (case r of Inr s \<Rightarrow> s | Inl _ \<Rightarrow> [])"

definition access_control_server ::
  "'e mw_env \<Rightarrow> mw_options \<Rightarrow> ('svc unary_server option \<times> 'svc stream_server option) exec" where
  "access_control_server env options =
    (let model = string_or_empty (GetString (jsonpath_Read env) options ''model'');
         model = (if model \<noteq> [] then resolvePathInConfig (ConfigFileUsed env) model else model);
         policy = string_or_empty (GetString (jsonpath_Read env) options ''policy'')
     in if policy = [] then Panic (ProcessExit ''grpc_access_middleware_without_policy'')
        else
          let policy = resolvePathInConfig (ConfigFileUsed env) policy in
          case NewAccessController_error env model policy of
            Some err \<Rightarrow> Panic (ProcessExit ''grpc_access_middleware_init_failed'')
          | None \<Rightarrow> Return (Some (UnaryAccess model policy), Some (StreamAccess model policy)))"

definition NewAccessControlMiddleware :: "'e mw_env \<Rightarrow> 'svc Middleware" where
  "NewAccessControlMiddleware env = \<lparr>GinHandler = (\<lambda>_. None),
     GrpcServerInterceptor = access_control_server env,
     GrpcClientInterceptor = (\<lambda>_. (None, None))\<rparr>"

section \<open>The registry\<close>

text \<open>A nil entry and no entry are the same to a reader of the map.\<close>

record 'svc middlewareManager =
  middlewares :: "string \<Rightarrow> 'svc Middleware option"

definition newMiddlewareManager :: "'svc middlewareManager" where
  "newMiddlewareManager = \<lparr>middlewares = (\<lambda>_. None)\<rparr>"

definition RegisterMiddleware ::
  "string \<Rightarrow> 'svc Middleware option \<Rightarrow> 'svc middlewareManager \<Rightarrow> 'svc middlewareManager" where
  "RegisterMiddleware name middleware m = m\<lparr>middlewares := (middlewares m)(ToLower name := middleware)\<rparr>"

definition GetMiddleware :: "string \<Rightarrow> 'svc middlewareManager \<Rightarrow> 'svc Middleware option" where
  "GetMiddleware name m = middlewares m (ToLower name)"

definition default_middlewares :: "'e mw_env \<Rightarrow> (string \<times> 'svc Middleware option) list" where
  "default_middlewares env =
    [(''context_logger'', Some NewContextLoggerMiddleware), (''log_request'', Some NewLogRequestMiddleware),
     (''metrics'', Some NewMetricsMiddleware), (''open_tracing'', Some NewOpenTracingMiddleware),
     (''recovery'', Some NewRecoveryMiddleware), (''request_validation'', Some NewRequestValidationMiddleware),
     (''cors'', Some NewCorsMiddleware), (''compress'', Some NewCompressMiddleware),
     (''access_control'', Some (NewAccessControlMiddleware env))]"

definition newDefaultMiddlewareManager :: "'e mw_env \<Rightarrow> 'svc middlewareManager" where
  "newDefaultMiddlewareManager env =
     fold (\<lambda>(name, middleware). RegisterMiddleware name middleware) (default_middlewares env) newMiddlewareManager"

section \<open>The applier\<close>

record 'svc middlewareConstructor =
  mc_name :: string
  mc_m :: "'svc Middleware option"
  mc_options :: mw_options

type_synonym 'svc middlewareApplier = "'svc middlewareConstructor list"

definition newMiddlewareApplier :: "'svc middlewareApplier" where
  "newMiddlewareApplier = []"

definition AddMiddleware ::
  "string \<Rightarrow> 'svc Middleware option \<Rightarrow> mw_options \<Rightarrow> 'svc middlewareApplier \<Rightarrow> 'svc middlewareApplier" where
  "AddMiddleware name middleware options a = a @ [\<lparr>mc_name = name, mc_m = middleware, mc_options = options\<rparr>]"

definition AddMiddlewareByConfig ::
  "'e mw_env \<Rightarrow> 'svc middlewareManager \<Rightarrow> go_value \<Rightarrow> 'svc middlewareApplier \<Rightarrow>
     ('e mw_error option \<times> 'svc middlewareApplier) exec" where
  "AddMiddlewareByConfig env mm config a = exec_bind (parseMiddlewareConfig env config) (\<lambda>r. case r of
      Inl err \<Rightarrow> Return (Some err, a)
    | Inr (name, options) \<Rightarrow> (case GetMiddleware name mm of
          None \<Rightarrow> Return (Some (UnknownMiddleware name), a)
        | Some middleware \<Rightarrow> Return (None, AddMiddleware (ToLower name) (Some middleware) options a)))"

text \<open>
  A rejected entry is logged with the text of its error and the name of the service; the log is
  the list of the indices. The name of the nil service cannot be asked for.
\<close>

fun apply_loop ::
  "'e mw_env \<Rightarrow> 'svc middlewareManager \<Rightarrow> 'svc option \<Rightarrow> nat \<Rightarrow> go_value list \<Rightarrow> 'svc middlewareApplier \<Rightarrow> nat list \<Rightarrow>
     ('svc middlewareApplier \<times> nat list) exec" where
  "apply_loop env mm service i [] ma logged = Return (ma, logged)"
| "apply_loop env mm service i (c # cs) ma logged =
     exec_bind (AddMiddlewareByConfig env mm c ma) (\<lambda>(err, ma'). case err of
        None \<Rightarrow> apply_loop env mm service (Suc i) cs ma' logged
      | Some e \<Rightarrow> exec_bind (mw_error_text env e) (\<lambda>_. case service of
            None \<Rightarrow> Panic NilDereference
          | Some _ \<Rightarrow> apply_loop env mm service (Suc i) cs ma' (logged @ [i])))"

definition Apply ::
  "'e mw_env \<Rightarrow> 'svc middlewareManager \<Rightarrow> 'svc option \<Rightarrow> go_value list \<Rightarrow> ('svc middlewareApplier \<times> nat list) exec" where
  "Apply env mm service configs =
    (let ma = AddMiddleware [] (Some NewContextTagsMiddleware) [] newMiddlewareApplier;
         ma = (case service of None \<Rightarrow> ma
               | Some s \<Rightarrow> AddMiddleware [] (Some (NewServiceContextMiddleware s)) [] ma)
     in apply_loop env mm service 0 configs ma [])"

definition IsMiddlewareEnabled :: "string \<Rightarrow> 'svc middlewareApplier \<Rightarrow> bool" where
  "IsMiddlewareEnabled name a =
     (if name = [] then False else let name = ToLower name in list_ex (\<lambda>mc. mc_name mc = name) a)"

text \<open>The handlers a gin engine uses, in order.\<close>

fun ApplyGin :: "'svc middlewareApplier \<Rightarrow> 'svc gin_handler list \<Rightarrow> 'svc gin_handler list" where
  "ApplyGin [] routes = routes"
| "ApplyGin (mc # mcs) routes = (case mc_m mc of
      None \<Rightarrow> ApplyGin mcs routes
    | Some m \<Rightarrow> (case GinHandler m (mc_options mc) of
          None \<Rightarrow> ApplyGin mcs routes
        | Some handler \<Rightarrow> ApplyGin mcs (routes @ [handler])))"

text \<open>A chain is the list of its interceptors, the first being the outermost.\<close>

definition opt_append :: "'a list \<Rightarrow> 'a option \<Rightarrow> 'a list" where
  [go_defs]: "opt_append xs x = (case x of None \<Rightarrow> xs | Some y \<Rightarrow> xs @ [y])"

fun server_loop ::
  "'svc middlewareApplier \<Rightarrow> 'svc unary_server list \<Rightarrow> 'svc stream_server list \<Rightarrow>
     ('svc unary_server list \<times> 'svc stream_server list) exec" where
  "server_loop [] us ss = Return (us, ss)"
| "server_loop (mc # mcs) us ss = (case mc_m mc of
      None \<Rightarrow> server_loop mcs us ss
    | Some m \<Rightarrow> exec_bind (GrpcServerInterceptor m (mc_options mc)) (\<lambda>(u, s).
        server_loop mcs (opt_append us u) (opt_append ss s)))"

definition applier_GrpcServerInterceptor ::
  "'svc middlewareApplier \<Rightarrow> ('svc unary_server list \<times> 'svc stream_server list) exec" where
  "applier_GrpcServerInterceptor a = server_loop a [] []"

fun client_loop ::
  "'svc middlewareApplier \<Rightarrow> unary_client list \<Rightarrow> stream_client list \<Rightarrow> unary_client list \<times> stream_client list" where
  "client_loop [] us ss = (us, ss)"
| "client_loop (mc # mcs) us ss = (case mc_m mc of
      None \<Rightarrow> client_loop mcs us ss
    | Some m \<Rightarrow> (case GrpcClientInterceptor m (mc_options mc) of (u, s) \<Rightarrow>
        client_loop mcs (opt_append us u) (opt_append ss s)))"

definition applier_GrpcClientInterceptor :: "'svc middlewareApplier \<Rightarrow> unary_client list \<times> stream_client list" where
  "applier_GrpcClientInterceptor a = client_loop a [] []"

section \<open>Registries\<close>

text \<open>A registry is read and written under names whose letter case does not matter.\<close>

locale registry =
  fixes empty :: 'r and register :: "string \<Rightarrow> 'm \<Rightarrow> 'r \<Rightarrow> 'r" and get :: "string \<Rightarrow> 'r \<Rightarrow> 'm" and absent :: 'm
  assumes get_empty: "get name empty = absent"
    and get_register: "get name (register key m r) = (if ToLower name = ToLower key then m else get name r)"
begin

abbreviation registered :: "(string \<times> 'm) list \<Rightarrow> 'r \<Rightarrow> 'r" where
  "registered rs r \<equiv> fold (\<lambda>(key, m). register key m) rs r"

lemma get_case: "ToLower name = ToLower name' \<Longrightarrow> get name (registered rs empty) = get name' (registered rs empty)"
  by (induction rs rule: rev_induct) (auto simp: get_empty get_register)

lemma get_registered:
  "get name (registered rs r) = (case find (\<lambda>(key, m). ToLower key = ToLower name) (rev rs) of
      Some (_, m) \<Rightarrow> m | None \<Rightarrow> get name r)"
  by (induction rs rule: rev_induct) (auto simp: get_register)

lemma register_twice:
  "ToLower key = ToLower key' \<Longrightarrow>
     get name (register key m (register key' m' r)) = get name (register key m r)"
  by (simp add: get_register)

end

interpretation mwr: registry newMiddlewareManager RegisterMiddleware GetMiddleware None
  by unfold_locales (auto simp: newMiddlewareManager_def RegisterMiddleware_def GetMiddleware_def)

section \<open>What an entry adds\<close>

definition entry_constructor ::
  "'svc middlewareManager \<Rightarrow> string \<Rightarrow> mw_options \<Rightarrow> 'svc middlewareConstructor option" where
  "entry_constructor mm name options = map_option
     (\<lambda>m. \<lparr>mc_name = ToLower name, mc_m = Some m, mc_options = options\<rparr>) (GetMiddleware name mm)"

text \<open>The constructor of an accepted entry.\<close>

definition accepted ::
  "'e mw_env \<Rightarrow> 'svc middlewareManager \<Rightarrow> go_value \<Rightarrow> 'svc middlewareConstructor option" where
  "accepted env mm c = (case c of
      VString name \<Rightarrow> entry_constructor mm name []
    | VMap options \<Rightarrow> (case jsonpath_Read env options ''$.name'' of
          Inr (VString name) \<Rightarrow> entry_constructor mm name options | _ \<Rightarrow> None)
    | _ \<Rightarrow> None)"

text \<open>Entries whose error cannot be built or printed: null, or a map with a null name.\<close>

definition null_entry :: "'e mw_env \<Rightarrow> go_value \<Rightarrow> bool" where
  "null_entry env c \<longleftrightarrow> (case c of
      VNil \<Rightarrow> True | VMap options \<Rightarrow> jsonpath_Read env options ''$.name'' = Inr VNil | _ \<Rightarrow> False)"

definition tolerated :: "'e mw_env \<Rightarrow> 'svc middlewareManager \<Rightarrow> 'svc option \<Rightarrow> go_value \<Rightarrow> bool" where
  "tolerated env mm service c = (case accepted env mm c of
      Some _ \<Rightarrow> True | None \<Rightarrow> service \<noteq> None \<and> \<not> null_entry env c)"

lemma regularize_name [simp]: "regularizePath ''name'' = ''$.name''"
  by (simp add: regularizePath_def HasPrefix_def)

lemma apply_loop_step:
  "apply_loop env mm service i (c # cs) ma logged = (case accepted env mm c of
      Some mc \<Rightarrow> apply_loop env mm service (Suc i) cs (ma @ [mc]) logged
    | None \<Rightarrow> if service = None \<or> null_entry env c then Panic NilDereference
        else apply_loop env mm service (Suc i) cs ma (logged @ [i]))"
proof (cases c)
  case (VMap options)
  then show ?thesis
    by (auto simp: accepted_def entry_constructor_def null_entry_def AddMiddlewareByConfig_def
        parseMiddlewareConfig_def GetString_def ToRawMap_def TypeAssertionError_text_def AddMiddleware_def
        split: sum.splits go_value.splits option.splits)
qed (auto simp: accepted_def entry_constructor_def null_entry_def AddMiddlewareByConfig_def
    parseMiddlewareConfig_def AddMiddleware_def split: option.splits)

lemma apply_loop_spec:
  "apply_loop env mm service i cs ma logged =
    (if list_all (tolerated env mm service) cs
     then Return (ma @ List.map_filter (accepted env mm) cs,
       logged @ map fst (filter (\<lambda>(_, c). accepted env mm c = None) (List.enumerate i cs)))
     else Panic NilDereference)"
proof (induction cs arbitrary: i ma logged)
  case Nil
  then show ?case by (simp add: map_filter_simps)
next
  case (Cons c cs)
  show ?case unfolding apply_loop_step Cons
    by (cases "accepted env mm c") (simp_all add: map_filter_simps tolerated_def [of _ _ _ c])
qed

lemma server_loop_append:
  assumes "mc_m mc = Some m" "GrpcServerInterceptor m (mc_options mc) = Return (Some u, Some s)"
  shows "server_loop (mc # mcs) us ss = server_loop mcs (us @ [u]) (ss @ [s])"
  using assms by (simp add: opt_append_def)

lemma server_loop_prefix:
  "server_loop mcs us ss = Return (us', ss') \<Longrightarrow> \<exists>ru rs. us' = us @ ru \<and> ss' = ss @ rs"
proof (induction mcs arbitrary: us ss)
  case (Cons mc mcs)
  show ?case
  proof (cases "mc_m mc")
    case None
    with Cons show ?thesis by simp
  next
    case (Some m)
    with Cons.prems obtain u s where "server_loop mcs (opt_append us u) (opt_append ss s) = Return (us', ss')"
      by auto
    from Cons.IH [OF this] show ?thesis by (cases u; cases s) (auto simp: opt_append_def)
  qed
qed simp

text \<open>The chain of a list of unary interceptors around a handler, given what each of them does.\<close>

definition chain_unary ::
  "('u \<Rightarrow> ('c \<Rightarrow> 'q \<Rightarrow> 'r) \<Rightarrow> 'c \<Rightarrow> 'q \<Rightarrow> 'r) \<Rightarrow> 'u list \<Rightarrow> ('c \<Rightarrow> 'q \<Rightarrow> 'r) \<Rightarrow> 'c \<Rightarrow> 'q \<Rightarrow> 'r" where
  "chain_unary sem us handler = foldr sem us handler"

lemma get_set_service [simp]: "GetContextService (SetContextService ctx s) = s"
  by (simp add: GetContextService_def SetContextService_def)

text \<open>
  An interceptor that, when it calls the handler at all, passes the service on keeps it visible
  behind a whole chain.
\<close>

definition passes_service ::
  "('u \<Rightarrow> ('svc Context \<Rightarrow> 'q \<Rightarrow> 'r option) \<Rightarrow> 'svc Context \<Rightarrow> 'q \<Rightarrow> 'r option) \<Rightarrow> 'svc \<Rightarrow> 'u \<Rightarrow> bool" where
  "passes_service sem s u \<longleftrightarrow> (\<forall>h ctx req r. GetContextService ctx = Some s \<longrightarrow> sem u h ctx req = Some r \<longrightarrow>
     (\<exists>ctx' req'. GetContextService ctx' = Some s \<and> h ctx' req' = Some r))"

lemma passes_serviceE:
  assumes "passes_service sem s u" "GetContextService ctx = Some s" "sem u h ctx req = Some r"
  obtains ctx' req' where "GetContextService ctx' = Some s" "h ctx' req' = Some r"
  using assms unfolding passes_service_def by blast

lemma chain_keeps_service:
  assumes "list_all (passes_service sem s) us"
    and "GetContextService ctx = Some s" "chain_unary sem us (\<lambda>ctx req. Some ctx) ctx req = Some ctx'"
  shows "GetContextService ctx' = Some s"
  using assms
proof (induction us arbitrary: ctx req)
  case (Cons u us)
  have call: "sem u (chain_unary sem us (\<lambda>ctx req. Some ctx)) ctx req = Some ctx'"
    using Cons.prems(3) by (simp only: chain_unary_def foldr.simps o_apply)
  have u: "passes_service sem s u" and us: "list_all (passes_service sem s) us"
    using Cons.prems(1) by simp_all
  from u Cons.prems(2) call obtain c q where
    "GetContextService c = Some s" "chain_unary sem us (\<lambda>ctx req. Some ctx) c q = Some ctx'"
    by (rule passes_serviceE [where h = "chain_unary sem us (\<lambda>ctx req. Some ctx)"])
  then show ?case by (rule Cons.IH [OF us])
qed (simp add: chain_unary_def)

section \<open>Properties\<close>

text \<open>
  The registry, in any letter case: the last middleware the application registered under a
  name, else the built-in one, else none.
\<close>

theorem GetMiddleware_last_registered:
  "GetMiddleware name (fold (\<lambda>(key, m). RegisterMiddleware key m) rs (newDefaultMiddlewareManager env)) =
    (case find (\<lambda>(key, m). ToLower key = ToLower name) (rev (default_middlewares env @ rs)) of
       Some (_, m) \<Rightarrow> m | None \<Rightarrow> None)"
  using mwr.get_registered [of name "default_middlewares env @ rs" newMiddlewareManager]
  by (simp add: newDefaultMiddlewareManager_def mwr.get_empty split: option.splits)

text \<open>
  C19. \<open>Apply\<close>: the applier is the context tags, the service context if there is a service,
  and the middlewares of the entries that name one, in order; a wrong entry is logged and skipped.
  But it panics if a wrong entry is null or has a null name, and without a service on every
  wrong entry.
\<close>

theorem Apply_result:
  "Apply env mm service configs =
    (if list_all (tolerated env mm service) configs
     then Return (AddMiddleware [] (Some NewContextTagsMiddleware) [] [] @
         (case service of None \<Rightarrow> [] | Some s \<Rightarrow> AddMiddleware [] (Some (NewServiceContextMiddleware s)) [] []) @
         List.map_filter (accepted env mm) configs,
       map fst (filter (\<lambda>(_, c). accepted env mm c = None) (List.enumerate 0 configs)))
     else Panic NilDereference)"
  by (simp add: Apply_def apply_loop_spec newMiddlewareApplier_def AddMiddleware_def split: option.splits)

text \<open>
  A handler that is called behind the middlewares of a service finds that service in its
  context, whatever entries are configured, as long as the other interceptors pass the context value
  on and no user middleware sets another one.
\<close>

theorem handler_finds_service:
  assumes "Apply env mm (Some s) configs = Return (ma, logged)"
    and "applier_GrpcServerInterceptor ma = Return (us, ss)"
    and "\<And>u h ctx req. u = UnaryServiceContext s \<Longrightarrow> sem u h ctx req = serviceContextUnaryServerInterceptor s h ctx req"
    and "\<And>u h ctx req r. u \<in> set us \<Longrightarrow> u \<noteq> UnaryServiceContext s \<Longrightarrow> sem u h ctx req = Some r \<Longrightarrow>
      \<exists>ctx' req'. GetContextService ctx' = GetContextService ctx \<and> h ctx' req' = Some r"
    and "chain_unary sem us (\<lambda>ctx req. Some ctx) ctx req = Some ctx'"
  shows "GetContextService ctx' = Some s"
proof -
  obtain mcs where "ma = \<lparr>mc_name = [], mc_m = Some NewContextTagsMiddleware, mc_options = []\<rparr>
      # \<lparr>mc_name = [], mc_m = Some (NewServiceContextMiddleware s), mc_options = []\<rparr> # mcs"
    using assms(1) unfolding Apply_def apply_loop_spec
    by (auto simp: newMiddlewareApplier_def AddMiddleware_def split: if_splits)
  with assms(2) have "server_loop mcs [UnaryContextTags, UnaryServiceContext s]
      [StreamContextTags, StreamServiceContext s] = Return (us, ss)"
    by (simp add: applier_GrpcServerInterceptor_def NewContextTagsMiddleware_def
        NewServiceContextMiddleware_def opt_append_def)
  then obtain rest where us: "us = UnaryContextTags # UnaryServiceContext s # rest"
    by (fastforce dest: server_loop_prefix)
  let ?h = "\<lambda>ctx req. Some ctx"
  from assms(5) have "sem UnaryContextTags (sem (UnaryServiceContext s) (chain_unary sem rest ?h)) ctx req = Some ctx'"
    by (simp add: us chain_unary_def)
  from assms(4) [OF _ _ this] obtain c q where "chain_unary sem rest ?h (SetContextService c (Some s)) q = Some ctx'"
    by (auto simp: us assms(3) serviceContextUnaryServerInterceptor_def Let_def)
  moreover have "GetContextService (SetContextService c (Some s)) = Some s" by simp
  moreover have "passes_service sem s u" if u: "u \<in> set rest" for u
  proof (cases "u = UnaryServiceContext s")
    case True
    then show ?thesis unfolding passes_service_def
      by (simp add: assms(3) serviceContextUnaryServerInterceptor_def Let_def) (metis get_set_service)
  next
    case False
    have "u \<in> set us" by (simp add: us u)
    then show ?thesis using assms(4) [OF _ False] unfolding passes_service_def by metis
  qed
  then have "list_all (passes_service sem s) rest" by (simp add: list_all_iff)
  ultimately show ?thesis by (blast intro: chain_keeps_service)
qed

text \<open>
  C31. A panic of a gRPC handler is answered with the status code Internal, whether it panicked
  with an error (that may carry another status of its own) or with another value.
\<close>

theorem recovered_panic_is_internal:
  fixes ops :: "('f, 'v, 's) err_op list"
  assumes "case p of PanicError e \<Rightarrow> err_exists (run_errs ops) e | PanicValue v \<Rightarrow> True"
    and "recovery_handler p (run_errs ops) = (a, H)"
    and "\<And>st d st'. WithDetails env st d = Some st' \<Longrightarrow> st_code st' = st_code st"
  shows "map_option (\<lambda>r. st_code (fst r)) (GRPCStatus env H a) = Some 13"
proof -
  have "H = run_errs (ops @ (case p of
      PanicError e \<Rightarrow> [OpWrap e ''panic'', OpWithGRPCCode codes_Internal (next_err (run_errs ops))]
    | PanicValue v \<Rightarrow> [OpNew ''panic'', OpWith ''cause'' v (next_err (run_errs ops)),
        OpWithGRPCCode codes_Internal (next_err (run_errs ops))]))" (is "_ = run_errs ?ops")
    using assms(1,2) by (cases p) (auto simp: run_errs_def recovery_handler_def Let_def Wrap_def New_def
        alloc_err_def With_def set_err_def)
  then have wf: "wf_errs H" by (simp add: wf_run_errs)
  have H: "a < next_err H" "grpcStatus (errs H a) = None" "code (errs H a) = 13"
    using assms(2) by (cases p; simp add: recovery_handler_def Let_def Wrap_def New_def alloc_err_def
        With_def WithGRPCCode_def set_err_def codes_Internal_def split: prod.splits; fastforce)+
  from coded_status [OF wf H _ assms(3)] show ?thesis by (simp add: InvalidCode_def)
qed

section \<open>Concrete runs\<close>

definition sample_mw_env :: "unit mw_env" where
  "sample_mw_env = \<lparr>jsonpath_Read = (\<lambda>m p. case map_of m (drop 2 p) of None \<Rightarrow> Inl () | Some v \<Rightarrow> Inr v),
     ConfigFileUsed = ''/etc/app.yaml'', NewAccessController_error = (\<lambda>_ _. None), external_text = (\<lambda>_. ''not found'')\<rparr>"

definition sample_sem ::
  "nat unary_server \<Rightarrow> (nat Context \<Rightarrow> unit \<Rightarrow> nat Context option) \<Rightarrow> nat Context \<Rightarrow> unit \<Rightarrow> nat Context option" where
  "sample_sem u h ctx req = (case u of
      UnaryServiceContext s \<Rightarrow> serviceContextUnaryServerInterceptor s h ctx req | _ \<Rightarrow> h ctx req)"

theorem handler_finds_service_witness:
  "\<exists>ctx. chain_unary sample_sem [UnaryContextTags, UnaryServiceContext 7, UnaryRecovery] (\<lambda>ctx req. Some ctx) Map.empty () = Some ctx
    \<and> GetContextService ctx = Some 7"
proof -
  have "case Apply sample_mw_env (newDefaultMiddlewareManager sample_mw_env) (Some (7 :: nat)) [VInt 1, VString ''Recovery''] of
      Return (ma, logged) \<Rightarrow> (case applier_GrpcServerInterceptor ma of
          Return (us, ss) \<Rightarrow> us = [UnaryContextTags, UnaryServiceContext 7, UnaryRecovery] | _ \<Rightarrow> False)
    | _ \<Rightarrow> False"
    by code_simp
  then obtain ma logged ss where
    1: "Apply sample_mw_env (newDefaultMiddlewareManager sample_mw_env) (Some (7 :: nat)) [VInt 1, VString ''Recovery''] = Return (ma, logged)"
    and 2: "applier_GrpcServerInterceptor ma = Return ([UnaryContextTags, UnaryServiceContext 7, UnaryRecovery], ss)"
    by (auto split: exec.splits prod.splits)
  have sem: "sample_sem (UnaryServiceContext 7) h ctx req = serviceContextUnaryServerInterceptor 7 h ctx req"
    "sample_sem UnaryContextTags h ctx req = h ctx req" "sample_sem UnaryRecovery h ctx req = h ctx req" for h ctx req
    by (simp_all add: sample_sem_def)
  obtain ctx where run: "chain_unary sample_sem [UnaryContextTags, UnaryServiceContext 7, UnaryRecovery]
      (\<lambda>ctx req. Some ctx) Map.empty () = Some ctx"
    by (simp add: chain_unary_def sample_sem_def serviceContextUnaryServerInterceptor_def)
  have "GetContextService ctx = Some 7"
    by (rule handler_finds_service [OF 1 2 _ _ run]) (auto simp: sem)
  with run show ?thesis by blast
qed

theorem recovered_panic_is_internal_witness:
  "map_option (\<lambda>r. st_code (fst r)) (case recovery_handler (PanicError (Own 0)) (run_errs sample_ops) of
     (a, H) \<Rightarrow> GRPCStatus (sample_env False) H a) = Some 13"
proof -
  have "st_code st' = st_code st" if "WithDetails (sample_env False) st d = Some st'" for st d st'
    using that by (auto simp: sample_env_def split: if_splits)
  moreover have "err_exists (run_errs sample_ops) (Own 0)" by code_simp
  ultimately show ?thesis
    using recovered_panic_is_internal [of sample_ops "PanicError (Own 0)", where env = "sample_env False"]
    by (auto split: prod.splits)
qed

end
