(* ===== verification/Glob.thy ===== *)
theory Glob
  imports Prelude
begin

text \<open>
  \<open>path.Match\<close> of Go's library, which the access policies of \<open>src/grpcex\<close> match method names
  with: the patterns of its documentation, over ASCII text, where a character is a byte. A
  malformed pattern is an error for every name.
\<close>

datatype glob = GlobStar | GlobAny | GlobClass bool "(char \<times> char) list" | GlobLit char

text \<open>One end of a range; what follows it must not be empty, since the class is still open.\<close>

definition glob_esc :: "string \<Rightarrow> (char \<times> string) option" where
  "glob_esc p = (case p of
      [] \<Rightarrow> None
    | c # rest \<Rightarrow>
        if c = CHR ''-'' \<or> c = CHR '']'' then None
        else if c = CHR 0x5C then (case rest of d # e # rest' \<Rightarrow> Some (d, e # rest') | _ \<Rightarrow> None)
        else if rest = [] then None else Some (c, rest))"

lemma glob_esc_shorter: "glob_esc p = Some (c, rest) \<Longrightarrow> length rest < length p"
  by (auto simp: glob_esc_def split: list.splits if_splits)

function glob_ranges :: "bool \<Rightarrow> string \<Rightarrow> ((char \<times> char) list \<times> string) option" where
  "glob_ranges some_range p =
    (if some_range \<and> p \<noteq> [] \<and> hd p = CHR '']'' then Some ([], tl p)
     else case glob_esc p of
       None \<Rightarrow> None
     | Some (lo, rest) \<Rightarrow>
         (if rest \<noteq> [] \<and> hd rest = CHR ''-'' then (case glob_esc (tl rest) of
            None \<Rightarrow> None
          | Some (hi, rest') \<Rightarrow> map_option (apfst ((#) (lo, hi))) (glob_ranges True rest'))
          else map_option (apfst ((#) (lo, lo))) (glob_ranges True rest)))"
  by pat_completeness auto
termination
  by (relation "measure (\<lambda>(_, p). length p)") (auto dest!: glob_esc_shorter)

declare glob_ranges.simps [simp del]

lemma glob_ranges_shorter: "glob_ranges some_range p = Some (rs, rest) \<Longrightarrow> length rest < length p"
proof (induction some_range p arbitrary: rs rest rule: glob_ranges.induct)
  case (1 some_range p)
  show ?case
  proof (cases "some_range \<and> p \<noteq> [] \<and> hd p = CHR '']''")
    case True
    with 1(3) show ?thesis by (subst (asm) glob_ranges.simps) (auto simp: neq_Nil_conv)
  next
    case no: False
    with 1(3) obtain lo rest0 where lo: "glob_esc p = Some (lo, rest0)"
      by (subst (asm) glob_ranges.simps) (auto split: option.splits)
    show ?thesis
    proof (cases "rest0 \<noteq> [] \<and> hd rest0 = CHR ''-''")
      case True
      with 1(3) no lo obtain hi rest' rs' where hi: "glob_esc (tl rest0) = Some (hi, rest')"
        and rest: "glob_ranges True rest' = Some (rs', rest)"
        by (subst (asm) glob_ranges.simps) (auto split: option.splits)
      from 1(1) [OF no lo refl True hi refl rest] glob_esc_shorter [OF lo] glob_esc_shorter [OF hi] show ?thesis by simp
    next
      case False
      with 1(3) no lo obtain rs' where rest: "glob_ranges True rest0 = Some (rs', rest)"
        by (subst (asm) glob_ranges.simps) (auto split: option.splits if_splits)
      from 1(2) [OF no lo refl False rest] glob_esc_shorter [OF lo] show ?thesis by simp
    qed
  qed
qed

function parse_glob :: "string \<Rightarrow> glob list option" where
  "parse_glob p = (case p of
      [] \<Rightarrow> Some []
    | c # rest \<Rightarrow>
        if c = CHR ''*'' then map_option ((#) GlobStar) (parse_glob rest)
        else if c = CHR ''?'' then map_option ((#) GlobAny) (parse_glob rest)
        else if c = CHR ''['' then
          (let negated = (rest \<noteq> [] \<and> hd rest = CHR ''^'') in
           case glob_ranges False (if negated then tl rest else rest) of
             None \<Rightarrow> None
           | Some (rs, rest') \<Rightarrow> map_option ((#) (GlobClass negated rs)) (parse_glob rest'))
        else if c = CHR 0x5C then (case rest of
            [] \<Rightarrow> None | d # rest' \<Rightarrow> map_option ((#) (GlobLit d)) (parse_glob rest'))
        else map_option ((#) (GlobLit c)) (parse_glob rest))"
  by pat_completeness auto
termination
  by (relation "measure length") (auto dest!: glob_ranges_shorter split: if_splits)

declare parse_glob.simps [simp del]

definition in_class :: "bool \<Rightarrow> (char \<times> char) list \<Rightarrow> char \<Rightarrow> bool" where
  "in_class negated rs c \<longleftrightarrow>
     list_ex (\<lambda>(lo, hi). (of_char lo :: nat) \<le> of_char c \<and> (of_char c :: nat) \<le> of_char hi) rs \<noteq> negated"

text \<open>A star and a question mark stop at a slash.\<close>

fun match_glob :: "glob list \<Rightarrow> string \<Rightarrow> bool" where
  "match_glob [] s = (s = [])"
| "match_glob (GlobStar # p) [] = match_glob p []"
| "match_glob (GlobStar # p) (c # s) = (match_glob p (c # s) \<or> c \<noteq> CHR ''/'' \<and> match_glob (GlobStar # p) s)"
| "match_glob (GlobAny # p) s = (case s of [] \<Rightarrow> False | c # s' \<Rightarrow> c \<noteq> CHR ''/'' \<and> match_glob p s')"
| "match_glob (GlobClass negated rs # p) s = (case s of [] \<Rightarrow> False | c # s' \<Rightarrow> in_class negated rs c \<and> match_glob p s')"
| "match_glob (GlobLit d # p) s = (case s of [] \<Rightarrow> False | c # s' \<Rightarrow> c = d \<and> match_glob p s')"

datatype glob_error = ErrBadPattern

definition path_Match :: "string \<Rightarrow> string \<Rightarrow> glob_error + bool" where
  "path_Match pattern name = (case parse_glob pattern of None \<Rightarrow> Inl ErrBadPattern | Some p \<Rightarrow> Inr (match_glob p name))"

section \<open>Patterns of plain text\<close>

definition glob_plain :: "string \<Rightarrow> bool" where
  "glob_plain s \<longleftrightarrow> list_all (\<lambda>c. c \<notin> {CHR ''*'', CHR ''?'', CHR ''['', CHR 0x5C}) s"

lemma parse_plain: "glob_plain lit \<Longrightarrow> parse_glob (lit @ p) = map_option (\<lambda>g. map GlobLit lit @ g) (parse_glob p)"
proof (induction lit)
  case (Cons c lit)
  then have "parse_glob ((c # lit) @ p) = map_option ((#) (GlobLit c)) (parse_glob (lit @ p))"
    by (subst parse_glob.simps) (simp add: glob_plain_def)
  with Cons show ?case by (simp add: glob_plain_def option.map_comp comp_def)
qed (cases "parse_glob p"; simp)

lemma match_plain: "match_glob (map GlobLit lit @ p) s \<longleftrightarrow> (\<exists>t. s = lit @ t \<and> match_glob p t)"
  by (induction lit arbitrary: s) (auto split: list.splits)

lemma match_star: "match_glob [GlobStar] s \<longleftrightarrow> CHR ''/'' \<notin> set s"
  by (induction s) auto

text \<open>
  Plain text matches itself; with a star behind it, the names it is a prefix of, up to a slash;
  with an open bracket behind it, it is malformed.
\<close>

lemma path_Match_plain:
  assumes "glob_plain lit"
  shows "path_Match lit s = Inr (s = lit)"
    and "path_Match (lit @ ''*'') s = Inr (\<exists>t. s = lit @ t \<and> CHR ''/'' \<notin> set t)"
    and "path_Match (lit @ ''['') s = Inl ErrBadPattern"
proof -
  have nil: "parse_glob [] = Some []" by (subst parse_glob.simps) simp
  have star: "parse_glob ''*'' = Some [GlobStar]" by (subst parse_glob.simps) (simp add: nil)
  have "glob_ranges False [] = None" by (subst glob_ranges.simps) (simp add: glob_esc_def)
  then have bracket: "parse_glob ''['' = None" by (subst parse_glob.simps) simp
  show "path_Match lit s = Inr (s = lit)"
    using parse_plain [OF assms, of "[]"] match_plain [of lit "[]" s] by (simp add: path_Match_def nil)
  show "path_Match (lit @ ''*'') s = Inr (\<exists>t. s = lit @ t \<and> CHR ''/'' \<notin> set t)"
    using parse_plain [OF assms, of "''*''"] by (simp add: path_Match_def star match_plain match_star)
  show "path_Match (lit @ ''['') s = Inl ErrBadPattern"
    using parse_plain [OF assms, of "''[''"] by (simp add: path_Match_def bracket)
qed

text \<open>Ranges, negation and escapes, on examples of the documentation of \<open>Match\<close>.\<close>

lemma path_Match_examples:
  "path_Match ''Get[A-Z]*'' ''GetUser'' = Inr True" "path_Match ''Get[^A-Z]*'' ''GetUser'' = Inr False"
  "path_Match ''a?c'' ''abc'' = Inr True" "path_Match ''a?c'' ''a/c'' = Inr False"
  "path_Match ''*'' ''a/b'' = Inr False" "path_Match ''a*c'' ''abbc'' = Inr True"
  "path_Match [CHR 0x5C, CHR ''*''] ''*'' = Inr True" "path_Match ''[a-'' ''a'' = Inl ErrBadPattern"
  "path_Match ''[]a]'' ''a'' = Inl ErrBadPattern" "path_Match ''[-x]'' ''x'' = Inl ErrBadPattern"
  by code_simp+

end
