(* ===== verification/AppRun.thy ===== *)
theory AppRun
  imports Prelude
begin

text \<open>
  The life of an application: \<open>Run\<close> of \<open>src/appmgr/app.go\<close> as a step relation
  between the calling goroutine, the goroutines of the jobs, the one that closes the channel of the
  job errors, the servers that stop once the context is cancelled, and the signals. Services are
  taken in the order the map is ranged over; whether they start is an argument.
\<close>

section \<open>State\<close>

record 'e run_config =
  job_names :: "string list"
  job_known :: "string \<Rightarrow> bool"
  service_start :: "'e option list"
  observable_start :: "'e option"

datatype 'e job = NotStarted | Running | Sending "'e go_error" | Finished "'e go_error option"

datatype stop_reason = ReceivedExitCommand | AllJobsCompleted | ReceivedStopSignal

datatype 'e run_pc =
    StartJob nat
  | StartService nat
  | StartObservable
  | Select
  | WaitJobs
  | WaitServices
  | WaitObservable
  | Returned "'e go_error option"
  | ExitedFatal

record 'e app_run =
  pc :: "'e run_pc"
  jobs :: "'e job list"
  chJobs :: "'e go_error list"
  closer :: bool
  chClosed :: bool
  cancelled :: bool
  quit_signal :: bool
  stopped_services :: "bool list"
  stopped_observable :: bool
  printed :: "stop_reason option"

definition run_start :: "'e run_config \<Rightarrow> 'e app_run" where
  "run_start cfg = \<lparr>pc = StartJob 0, jobs = replicate (length (job_names cfg)) NotStarted, chJobs = [],
     closer = False, chClosed = False, cancelled = False, quit_signal = False,
     stopped_services = replicate (length (service_start cfg)) False, stopped_observable = False, printed = None\<rparr>"

definition job_error :: "string \<Rightarrow> 'e \<Rightarrow> 'e go_error" where
  "job_error name e = WrapError (Lib e) (''Job <'' @ name @ ''> Exit With Error'')"

text \<open>\<open>wgJobs\<close> counts the jobs that were started and have not finished.\<close>

fun job_pending :: "'e job \<Rightarrow> bool" where
  "job_pending NotStarted = False"
| "job_pending Running = True"
| "job_pending (Sending _) = True"
| "job_pending (Finished _) = False"

text \<open>Tests that need no equality of errors.\<close>

fun in_select :: "'e run_pc \<Rightarrow> bool" where
  "in_select Select = True"
| "in_select _ = False"

fun exited :: "'e run_pc \<Rightarrow> bool" where
  "exited ExitedFatal = True"
| "exited _ = False"

fun is_running :: "'e job \<Rightarrow> bool" where
  "is_running Running = True"
| "is_running _ = False"

definition wg_zero :: "'e app_run \<Rightarrow> bool" where
  "wg_zero s \<longleftrightarrow> list_all (\<lambda>j. \<not> job_pending j) (jobs s)"

section \<open>Steps\<close>

inductive run_step :: "'e run_config \<Rightarrow> 'e app_run \<Rightarrow> 'e app_run \<Rightarrow> bool" for cfg where
  job_not_found: "pc s = StartJob k \<Longrightarrow> k < length (job_names cfg) \<Longrightarrow> \<not> job_known cfg (job_names cfg ! k) \<Longrightarrow>
    run_step cfg s (s\<lparr>pc := ExitedFatal\<rparr>)"
| job_started: "pc s = StartJob k \<Longrightarrow> k < length (job_names cfg) \<Longrightarrow> job_known cfg (job_names cfg ! k) \<Longrightarrow>
    run_step cfg s (s\<lparr>pc := StartJob (Suc k), jobs := (jobs s)[k := Running]\<rparr>)"
| jobs_started: "pc s = StartJob (length (job_names cfg)) \<Longrightarrow>
    run_step cfg s (s\<lparr>pc := StartService 0, closer := (job_names cfg \<noteq> [])\<rparr>)"
| service_failed: "pc s = StartService k \<Longrightarrow> k < length (service_start cfg) \<Longrightarrow> service_start cfg ! k = Some e \<Longrightarrow>
    run_step cfg s (s\<lparr>pc := Returned (Some (Lib e))\<rparr>)"
| service_started: "pc s = StartService k \<Longrightarrow> k < length (service_start cfg) \<Longrightarrow> service_start cfg ! k = None \<Longrightarrow>
    run_step cfg s (s\<lparr>pc := StartService (Suc k)\<rparr>)"
| services_started: "pc s = StartService (length (service_start cfg)) \<Longrightarrow>
    run_step cfg s (s\<lparr>pc := StartObservable\<rparr>)"
| observable_failed: "pc s = StartObservable \<Longrightarrow> observable_start cfg = Some e \<Longrightarrow>
    run_step cfg s (s\<lparr>pc := Returned (Some (Lib e))\<rparr>)"
| observable_started: "pc s = StartObservable \<Longrightarrow> observable_start cfg = None \<Longrightarrow>
    run_step cfg s (s\<lparr>pc := Select\<rparr>)"
| select_exit: "pc s = Select \<Longrightarrow> cancelled s \<Longrightarrow>
    run_step cfg s (s\<lparr>pc := WaitJobs, printed := Some ReceivedExitCommand\<rparr>)"
| select_job_error: "pc s = Select \<Longrightarrow> chJobs s = e # rest \<Longrightarrow>
    run_step cfg s (s\<lparr>pc := Returned (Some e), chJobs := rest\<rparr>)"
| select_jobs_done: "pc s = Select \<Longrightarrow> chJobs s = [] \<Longrightarrow> chClosed s \<Longrightarrow>
    run_step cfg s (s\<lparr>pc := WaitJobs, cancelled := True, printed := Some AllJobsCompleted\<rparr>)"
| select_signal: "pc s = Select \<Longrightarrow> quit_signal s \<Longrightarrow>
    run_step cfg s (s\<lparr>pc := WaitJobs, cancelled := True, quit_signal := False, printed := Some ReceivedStopSignal\<rparr>)"
| jobs_waited: "pc s = WaitJobs \<Longrightarrow> wg_zero s \<Longrightarrow> run_step cfg s (s\<lparr>pc := WaitServices\<rparr>)"
| services_waited: "pc s = WaitServices \<Longrightarrow> list_all id (stopped_services s) \<Longrightarrow>
    run_step cfg s (s\<lparr>pc := WaitObservable\<rparr>)"
| observable_waited: "pc s = WaitObservable \<Longrightarrow> stopped_observable s \<Longrightarrow>
    run_step cfg s (s\<lparr>pc := Returned None\<rparr>)"
| job_ok: "pc s \<noteq> ExitedFatal \<Longrightarrow> k < length (jobs s) \<Longrightarrow> jobs s ! k = Running \<Longrightarrow>
    run_step cfg s (s\<lparr>jobs := (jobs s)[k := Finished None]\<rparr>)"
| job_failed: "pc s \<noteq> ExitedFatal \<Longrightarrow> k < length (jobs s) \<Longrightarrow> jobs s ! k = Running \<Longrightarrow>
    run_step cfg s (s\<lparr>jobs := (jobs s)[k := Sending (job_error (job_names cfg ! k) e)]\<rparr>)"
| job_send: "pc s \<noteq> ExitedFatal \<Longrightarrow> k < length (jobs s) \<Longrightarrow> jobs s ! k = Sending e \<Longrightarrow> \<not> chClosed s \<Longrightarrow>
    length (chJobs s) < length (job_names cfg) \<Longrightarrow>
    run_step cfg s (s\<lparr>jobs := (jobs s)[k := Finished (Some e)], chJobs := chJobs s @ [e]\<rparr>)"
| close: "pc s \<noteq> ExitedFatal \<Longrightarrow> closer s \<Longrightarrow> wg_zero s \<Longrightarrow> run_step cfg s (s\<lparr>closer := False, chClosed := True\<rparr>)"
| signal: "pc s = Select \<Longrightarrow> run_step cfg s (s\<lparr>quit_signal := True\<rparr>)"
| service_stops: "cancelled s \<Longrightarrow> k < length (stopped_services s) \<Longrightarrow>
    run_step cfg s (s\<lparr>stopped_services := (stopped_services s)[k := True]\<rparr>)"
| observable_stops: "cancelled s \<Longrightarrow> run_step cfg s (s\<lparr>stopped_observable := True\<rparr>)"

inductive run_reach :: "'e run_config \<Rightarrow> 'e app_run \<Rightarrow> bool" for cfg where
  reach_start: "run_reach cfg (run_start cfg)"
| reach_step: "run_reach cfg s \<Longrightarrow> run_step cfg s s' \<Longrightarrow> run_reach cfg s'"

text \<open>
  \<open>RunOrExit\<close> ends the process with status 1 when \<open>Run\<close> returned an error.
\<close>

definition RunOrExit :: "'e go_error option \<Rightarrow> unit exec" where
  "RunOrExit err = (case err of None \<Rightarrow> Return () | Some _ \<Rightarrow> Panic (ProcessExit ''Run Application Error''))"

section \<open>The steps as a function\<close>

text \<open>
  One action of a run: the calling goroutine goes on, or takes one of the ready cases of its
  \<open>select\<close>; a job returns or sends its error; the channel is closed; a signal arrives; servers
  stop.
\<close>

datatype 'e run_action =
    Proceed | TakeExit | TakeJobs | TakeSignal | JobReturns nat "'e option" | JobSends nat | CloseJobs | SignalArrives
  | ServiceStops nat | ObservableStops

definition proceed :: "'e run_config \<Rightarrow> 'e app_run \<Rightarrow> 'e app_run option" where
  "proceed cfg s = (case pc s of
      StartJob k \<Rightarrow>
        if k = length (job_names cfg) then Some (s\<lparr>pc := StartService 0, closer := (job_names cfg \<noteq> [])\<rparr>)
        else if length (job_names cfg) < k then None
        else if job_known cfg (job_names cfg ! k) then Some (s\<lparr>pc := StartJob (Suc k), jobs := (jobs s)[k := Running]\<rparr>)
        else Some (s\<lparr>pc := ExitedFatal\<rparr>)
    | StartService k \<Rightarrow>
        if k = length (service_start cfg) then Some (s\<lparr>pc := StartObservable\<rparr>)
        else if length (service_start cfg) < k then None
        else (case service_start cfg ! k of
            Some e \<Rightarrow> Some (s\<lparr>pc := Returned (Some (Lib e))\<rparr>) | None \<Rightarrow> Some (s\<lparr>pc := StartService (Suc k)\<rparr>))
    | StartObservable \<Rightarrow> (case observable_start cfg of
        Some e \<Rightarrow> Some (s\<lparr>pc := Returned (Some (Lib e))\<rparr>) | None \<Rightarrow> Some (s\<lparr>pc := Select\<rparr>))
    | Select \<Rightarrow> None
    | WaitJobs \<Rightarrow> if wg_zero s then Some (s\<lparr>pc := WaitServices\<rparr>) else None
    | WaitServices \<Rightarrow> if list_all id (stopped_services s) then Some (s\<lparr>pc := WaitObservable\<rparr>) else None
    | WaitObservable \<Rightarrow> if stopped_observable s then Some (s\<lparr>pc := Returned None\<rparr>) else None
    | Returned _ \<Rightarrow> None
    | ExitedFatal \<Rightarrow> None)"

definition take_jobs :: "'e app_run \<Rightarrow> 'e app_run option" where
  "take_jobs s = (case chJobs s of
      e # rest \<Rightarrow> Some (s\<lparr>pc := Returned (Some e), chJobs := rest\<rparr>)
    | [] \<Rightarrow> if chClosed s then Some (s\<lparr>pc := WaitJobs, cancelled := True, printed := Some AllJobsCompleted\<rparr>) else None)"

definition job_returns :: "'e run_config \<Rightarrow> nat \<Rightarrow> 'e option \<Rightarrow> 'e app_run \<Rightarrow> 'e app_run option" where
  "job_returns cfg k err s = (if k < length (jobs s) \<and> is_running (jobs s ! k)
     then Some (s\<lparr>jobs := (jobs s)[k := (case err of None \<Rightarrow> Finished None | Some e \<Rightarrow> Sending (job_error (job_names cfg ! k) e))]\<rparr>)
     else None)"

definition job_sends :: "'e run_config \<Rightarrow> nat \<Rightarrow> 'e app_run \<Rightarrow> 'e app_run option" where
  "job_sends cfg k s = (if k < length (jobs s) \<and> \<not> chClosed s \<and> length (chJobs s) < length (job_names cfg)
     then case jobs s ! k of
         Sending e \<Rightarrow> Some (s\<lparr>jobs := (jobs s)[k := Finished (Some e)], chJobs := chJobs s @ [e]\<rparr>) | _ \<Rightarrow> None
     else None)"

fun run_do :: "'e run_config \<Rightarrow> 'e run_action \<Rightarrow> 'e app_run \<Rightarrow> 'e app_run option" where
  "run_do cfg Proceed s = proceed cfg s"
| "run_do cfg TakeExit s = (if in_select (pc s) \<and> cancelled s
     then Some (s\<lparr>pc := WaitJobs, printed := Some ReceivedExitCommand\<rparr>) else None)"
| "run_do cfg TakeJobs s = (if in_select (pc s) then take_jobs s else None)"
| "run_do cfg TakeSignal s = (if in_select (pc s) \<and> quit_signal s
     then Some (s\<lparr>pc := WaitJobs, cancelled := True, quit_signal := False, printed := Some ReceivedStopSignal\<rparr>) else None)"
| "run_do cfg (JobReturns k err) s = (if exited (pc s) then None else job_returns cfg k err s)"
| "run_do cfg (JobSends k) s = (if exited (pc s) then None else job_sends cfg k s)"
| "run_do cfg CloseJobs s = (if \<not> exited (pc s) \<and> closer s \<and> wg_zero s
     then Some (s\<lparr>closer := False, chClosed := True\<rparr>) else None)"
| "run_do cfg SignalArrives s = (if in_select (pc s) then Some (s\<lparr>quit_signal := True\<rparr>) else None)"
| "run_do cfg (ServiceStops k) s = (if cancelled s \<and> k < length (stopped_services s)
     then Some (s\<lparr>stopped_services := (stopped_services s)[k := True]\<rparr>) else None)"
| "run_do cfg ObservableStops s = (if cancelled s then Some (s\<lparr>stopped_observable := True\<rparr>) else None)"

lemma in_select_iff: "in_select p \<longleftrightarrow> p = Select"
  by (cases p) auto

lemma exited_iff: "exited p \<longleftrightarrow> p = ExitedFatal"
  by (cases p) auto

lemma is_running_iff: "is_running j \<longleftrightarrow> j = Running"
  by (cases j) auto

lemmas pc_tests = in_select_iff exited_iff is_running_iff

lemma run_do_sound: "run_do cfg a s = Some s' \<Longrightarrow> run_step cfg s s'"
  by (cases a)
    (auto simp: pc_tests proceed_def take_jobs_def job_returns_def job_sends_def
      intro: run_step.intros split: run_pc.splits if_splits option.splits list.splits job.splits)

lemma run_do_complete: "run_step cfg s s' \<Longrightarrow> \<exists>a. run_do cfg a s = Some s'"
proof (induction rule: run_step.induct)
  case (job_ok s k)
  then show ?case by (intro exI [of _ "JobReturns k None"]) (simp add: pc_tests job_returns_def)
next
  case (job_failed s k e)
  then show ?case by (intro exI [of _ "JobReturns k (Some e)"]) (simp add: pc_tests job_returns_def)
next
  case (job_send s k e)
  then show ?case by (intro exI [of _ "JobSends k"]) (simp add: pc_tests job_sends_def)
next
  case (service_stops s k)
  then show ?case by (intro exI [of _ "ServiceStops k"]) simp
qed ((rule exI [of _ Proceed], simp add: proceed_def; fail) | (rule exI [of _ TakeExit], simp; fail)
  | (rule exI [of _ TakeJobs], simp add: take_jobs_def; fail) | (rule exI [of _ TakeSignal], simp; fail)
  | (rule exI [of _ CloseJobs], simp add: pc_tests; fail) | (rule exI [of _ SignalArrives], simp; fail)
  | (rule exI [of _ ObservableStops], simp))+

text \<open>The step relation is what the actions do.\<close>

lemma run_step_iff: "run_step cfg s s' \<longleftrightarrow> (\<exists>a. run_do cfg a s = Some s')"
  using run_do_complete run_do_sound by blast

section \<open>The jobs and their channel\<close>

definition failed :: "'e job \<Rightarrow> bool" where
  "failed j \<longleftrightarrow> (case j of Finished (Some _) \<Rightarrow> True | _ \<Rightarrow> False)"

definition finished :: "'e job \<Rightarrow> bool" where
  "finished j \<longleftrightarrow> (case j of Finished _ \<Rightarrow> True | _ \<Rightarrow> False)"

lemma job_simps [simp]:
  "\<not> failed NotStarted" "\<not> failed Running" "\<not> failed (Sending e)" "failed (Finished r) \<longleftrightarrow> r \<noteq> None"
  "\<not> finished NotStarted" "\<not> finished Running" "\<not> finished (Sending e)" "finished (Finished r)"
  by (auto simp: failed_def finished_def split: option.splits)

lemma finished_iff: "finished j \<longleftrightarrow> j \<noteq> NotStarted \<and> \<not> job_pending j"
  by (cases j) auto

lemma length_filter_update:
  "k < length xs \<Longrightarrow> \<not> P (xs ! k) \<Longrightarrow>
     length (filter P (xs[k := y])) = length (filter P xs) + (if P y then 1 else 0)"
  by (induction xs arbitrary: k) (auto split: nat.splits)

fun spawned :: "'e run_config \<Rightarrow> 'e run_pc \<Rightarrow> nat" where
  "spawned cfg (StartJob k) = k"
| "spawned cfg _ = length (job_names cfg)"

definition jobs_ok :: "'e run_config \<Rightarrow> 'e app_run \<Rightarrow> bool" where
  "jobs_ok cfg s \<longleftrightarrow> length (jobs s) = length (job_names cfg) \<and> spawned cfg (pc s) \<le> length (job_names cfg)
     \<and> (\<forall>k < spawned cfg (pc s). pc s \<noteq> ExitedFatal \<longrightarrow> jobs s ! k \<noteq> NotStarted)
     \<and> (\<forall>k. spawned cfg (pc s) \<le> k \<longrightarrow> k < length (jobs s) \<longrightarrow> jobs s ! k = NotStarted)
     \<and> (closer s \<or> chClosed s \<longrightarrow> (\<forall>k. pc s \<noteq> StartJob k))
     \<and> (chClosed s \<longrightarrow> list_all finished (jobs s))"

lemma all_spawned:
  assumes "jobs_ok cfg s" "wg_zero s" "\<forall>k. pc s \<noteq> StartJob k" "pc s \<noteq> ExitedFatal"
  shows "list_all finished (jobs s)"
proof -
  have "spawned cfg (pc s) = length (jobs s)" using assms(1,3) by (cases "pc s") (auto simp: jobs_ok_def)
  with assms show ?thesis by (auto simp: list_all_length jobs_ok_def wg_zero_def finished_iff)
qed

lemma jobs_ok_step: "run_step cfg s s' \<Longrightarrow> jobs_ok cfg s \<Longrightarrow> jobs_ok cfg s'"
proof (induction rule: run_step.induct)
  case (close s)
  with all_spawned [OF close(4,3)] show ?case by (auto simp: jobs_ok_def)
qed (auto simp: jobs_ok_def nth_list_update list_all_length less_Suc_eq)

text \<open>What is in the channel: the errors of the failed jobs, less the one that was received.\<close>

definition returned_error :: "'e run_pc \<Rightarrow> bool" where
  "returned_error p \<longleftrightarrow> (case p of Returned (Some _) \<Rightarrow> True | _ \<Rightarrow> False)"

definition chan_ok :: "'e app_run \<Rightarrow> bool" where
  "chan_ok s \<longleftrightarrow> length (chJobs s) \<le> length (filter failed (jobs s))
     \<and> (\<not> returned_error (pc s) \<longrightarrow> length (chJobs s) = length (filter failed (jobs s)))"

lemma chan_ok_step: "run_step cfg s s' \<Longrightarrow> jobs_ok cfg s \<Longrightarrow> chan_ok s \<Longrightarrow> chan_ok s'"
  by (induction rule: run_step.induct)
    (auto simp: chan_ok_def returned_error_def length_filter_update jobs_ok_def)

text \<open>The ways to stop.\<close>

definition stop_ok :: "'e app_run \<Rightarrow> bool" where
  "stop_ok s \<longleftrightarrow> (case pc s of
      WaitJobs \<Rightarrow> cancelled s \<and> printed s \<noteq> None
    | WaitServices \<Rightarrow> cancelled s \<and> printed s \<noteq> None \<and> list_all finished (jobs s)
    | WaitObservable \<Rightarrow> cancelled s \<and> printed s \<noteq> None \<and> list_all finished (jobs s) \<and> list_all id (stopped_services s)
    | Returned None \<Rightarrow> cancelled s \<and> printed s \<noteq> None \<and> list_all finished (jobs s) \<and> list_all id (stopped_services s)
        \<and> stopped_observable s
    | _ \<Rightarrow> \<not> cancelled s \<and> printed s = None)
   \<and> printed s \<noteq> Some ReceivedExitCommand
   \<and> (printed s = Some AllJobsCompleted \<longrightarrow> list_all finished (jobs s) \<and> \<not> list_ex failed (jobs s))"

lemma finished_not_running: "list_all finished js \<Longrightarrow> k < length js \<Longrightarrow> js ! k \<noteq> Running \<and> js ! k \<noteq> Sending e"
  by (auto simp: list_all_length)

lemma no_failed: "filter failed js = [] \<Longrightarrow> \<not> list_ex failed js"
  by (simp add: list_ex_iff filter_empty_conv)

lemma stop_ok_step: "run_step cfg s s' \<Longrightarrow> jobs_ok cfg s \<Longrightarrow> chan_ok s \<Longrightarrow> stop_ok s \<Longrightarrow> stop_ok s'"
proof (induction rule: run_step.induct)
  case (jobs_waited s)
  with all_spawned [OF jobs_waited(3,2)] show ?case by (auto simp: stop_ok_def)
next
  case (select_jobs_done s)
  then have "filter failed (jobs s) = []" by (simp add: chan_ok_def returned_error_def)
  with select_jobs_done show ?case by (simp add: stop_ok_def jobs_ok_def no_failed)
qed (auto simp: stop_ok_def list_all_update finished_not_running split: run_pc.splits option.splits)

text \<open>Where an error comes from.\<close>

definition from_job :: "'e run_config \<Rightarrow> 'e go_error \<Rightarrow> bool" where
  "from_job cfg err \<longleftrightarrow> (\<exists>name \<in> set (job_names cfg). \<exists>e. err = job_error name e)"

definition from_start :: "'e run_config \<Rightarrow> 'e go_error \<Rightarrow> bool" where
  "from_start cfg err \<longleftrightarrow> (\<exists>e. err = Lib e \<and> (Some e \<in> set (service_start cfg) \<or> observable_start cfg = Some e))"

definition job_errors_ok :: "'e run_config \<Rightarrow> 'e job \<Rightarrow> bool" where
  "job_errors_ok cfg j \<longleftrightarrow> (case j of Sending e \<Rightarrow> from_job cfg e | _ \<Rightarrow> True)"

definition errors_ok :: "'e run_config \<Rightarrow> 'e app_run \<Rightarrow> bool" where
  "errors_ok cfg s \<longleftrightarrow> list_all (from_job cfg) (chJobs s) \<and> list_all (job_errors_ok cfg) (jobs s)
     \<and> (case pc s of Returned (Some err) \<Rightarrow> from_job cfg err \<or> from_start cfg err | _ \<Rightarrow> True)"

lemma from_job_name: "k < length (job_names cfg) \<Longrightarrow> from_job cfg (job_error (job_names cfg ! k) e)"
  by (auto simp: from_job_def)

lemma errors_ok_step: "run_step cfg s s' \<Longrightarrow> jobs_ok cfg s \<Longrightarrow> errors_ok cfg s \<Longrightarrow> errors_ok cfg s'"
proof (induction rule: run_step.induct)
  case (job_failed s k e)
  then have "from_job cfg (job_error (job_names cfg ! k) e)" by (intro from_job_name) (simp add: jobs_ok_def)
  with job_failed show ?case by (simp add: errors_ok_def list_all_update job_errors_ok_def split: run_pc.splits)
next
  case (job_send s k e)
  then have "job_errors_ok cfg (Sending e)" by (metis errors_ok_def list_all_length)
  with job_send show ?case by (simp add: errors_ok_def list_all_update job_errors_ok_def split: run_pc.splits)
next
  case (service_failed s k e)
  then have "Some e \<in> set (service_start cfg)" by (metis nth_mem)
  with service_failed show ?case by (simp add: errors_ok_def from_start_def)
qed (auto simp: errors_ok_def from_start_def list_all_update job_errors_ok_def split: run_pc.splits option.splits)

lemma run_inv:
  "run_reach cfg s \<Longrightarrow> jobs_ok cfg s \<and> chan_ok s \<and> stop_ok s \<and> errors_ok cfg s"
proof (induction rule: run_reach.induct)
  case reach_start
  show ?case by (simp add: run_start_def jobs_ok_def chan_ok_def stop_ok_def errors_ok_def job_errors_ok_def
      returned_error_def list_all_length)
next
  case (reach_step s s')
  then show ?case by (simp add: jobs_ok_step [OF reach_step(2)] chan_ok_step [OF reach_step(2)]
      stop_ok_step [OF reach_step(2)] errors_ok_step [OF reach_step(2)])
qed

section \<open>Properties\<close>

text \<open>
  C17. A job that reports its error neither blocks nor panics: as long as it has not sent, the
  channel has room and is not closed.
\<close>

theorem job_send_never_blocks:
  assumes "run_reach cfg s" "k < length (jobs s)" "jobs s ! k = Sending e"
  shows "\<not> chClosed s \<and> length (chJobs s) < length (job_names cfg)"
proof -
  from run_inv [OF assms(1)] have inv: "jobs_ok cfg s" "chan_ok s" by simp_all
  have "length (filter failed (jobs s)) < length (jobs s)"
    by (rule length_filter_less [of "jobs s ! k"]) (use assms nth_mem [OF assms(2)] in simp_all)
  with inv assms show ?thesis by (auto simp: jobs_ok_def chan_ok_def list_all_length)
qed

text \<open>
  \<open>Run\<close> returns without an error only after every job has returned and all servers
  have stopped, on a stop signal or because all jobs completed; in the latter case none of them
  failed.
\<close>

theorem Run_returns_when_stopped:
  assumes "run_reach cfg s" "pc s = Returned None"
  shows "list_all finished (jobs s) \<and> list_all id (stopped_services s) \<and> stopped_observable s
    \<and> (case printed s of Some AllJobsCompleted \<Rightarrow> \<not> list_ex failed (jobs s)
       | Some ReceivedStopSignal \<Rightarrow> True | _ \<Rightarrow> False)"
  using run_inv [OF assms(1)] assms(2)
  by (auto simp: stop_ok_def split: option.splits stop_reason.splits)

text \<open>
  An error that \<open>Run\<close> returns is that of a failed job, wrapped with its name, or of a
  service that could not start; the context is not cancelled then, and the services that had started
  go on.
\<close>

theorem Run_error_origin:
  assumes "run_reach cfg s" "pc s = Returned (Some err)"
  shows "(case err of WrapError _ _ \<Rightarrow> from_job cfg err | _ \<Rightarrow> from_start cfg err) \<and> \<not> cancelled s"
  using run_inv [OF assms(1)] assms(2)
  by (auto simp: stop_ok_def errors_ok_def from_start_def from_job_def job_error_def split: go_error.splits)

section \<open>Concrete runs\<close>

definition one_job :: "nat run_config" where
  "one_job = \<lparr>job_names = [''sync''], job_known = (\<lambda>_. True), service_start = [None], observable_start = None\<rparr>"

text \<open>A run in which the job fails.\<close>

definition sync_running :: "nat app_run" where
  "sync_running = (run_start one_job)\<lparr>pc := Select, jobs := [Running], closer := True\<rparr>"

lemma sync_running_reach: "run_reach one_job sync_running"
proof -
  note start = reach_step [OF reach_start job_started [of "run_start one_job" 0 one_job]]
  have 1: "run_reach one_job ((run_start one_job)\<lparr>pc := StartJob 1, jobs := [Running]\<rparr>)"
    using start by (simp add: one_job_def run_start_def)
  have 2: "run_reach one_job ((run_start one_job)\<lparr>pc := StartService 0, jobs := [Running], closer := True\<rparr>)"
    using reach_step [OF 1 jobs_started] by (simp add: one_job_def run_start_def)
  have 3: "run_reach one_job ((run_start one_job)\<lparr>pc := StartService 1, jobs := [Running], closer := True\<rparr>)"
    using reach_step [OF 2 service_started [where k = 0]] by (simp add: one_job_def run_start_def)
  have 4: "run_reach one_job ((run_start one_job)\<lparr>pc := StartObservable, jobs := [Running], closer := True\<rparr>)"
    using reach_step [OF 3 services_started] by (simp add: one_job_def run_start_def)
  show ?thesis
    using reach_step [OF 4 observable_started] by (simp add: one_job_def run_start_def sync_running_def)
qed

lemma sync_sending_reach: "run_reach one_job (sync_running\<lparr>jobs := [Sending (job_error ''sync'' 7)]\<rparr>)"
  using reach_step [OF sync_running_reach job_failed [where k = 0 and e = 7]]
  by (simp add: sync_running_def run_start_def one_job_def)

lemma sync_failed_reach:
  "run_reach one_job (sync_running\<lparr>jobs := [Finished (Some (job_error ''sync'' 7))], chJobs := [job_error ''sync'' 7]\<rparr>)"
  using reach_step [OF sync_sending_reach job_send [where k = 0]]
  by (simp add: sync_running_def run_start_def one_job_def)

theorem job_send_never_blocks_witness:
  "\<not> chClosed (sync_running\<lparr>jobs := [Sending (job_error ''sync'' 7)]\<rparr>)
   \<and> length (chJobs (sync_running\<lparr>jobs := [Sending (job_error ''sync'' 7)]\<rparr>)) < length (job_names one_job)"
  by (rule job_send_never_blocks [OF sync_sending_reach, of 0]) simp_all

theorem Run_error_origin_witness:
  "from_job one_job (job_error ''sync'' 7)"
proof -
  have "run_reach one_job (sync_running\<lparr>pc := Returned (Some (job_error ''sync'' 7)),
      jobs := [Finished (Some (job_error ''sync'' 7))]\<rparr>)"
    using reach_step [OF sync_failed_reach select_job_error]
    by (simp add: sync_running_def run_start_def)
  from Run_error_origin [OF this] show ?thesis by (simp add: job_error_def)
qed

text \<open>A run in which it succeeds.\<close>

theorem Run_returns_when_stopped_witness:
  "\<exists>s. run_reach one_job s \<and> pc s = Returned None \<and> \<not> list_ex failed (jobs s) \<and> list_all id (stopped_services s)"
proof -
  let ?s = "sync_running\<lparr>jobs := [Finished None]\<rparr>"
  have 1: "run_reach one_job ?s"
    using reach_step [OF sync_running_reach job_ok [where k = 0]] by (simp add: sync_running_def run_start_def one_job_def)
  have 2: "run_reach one_job (?s\<lparr>closer := False, chClosed := True\<rparr>)"
    using reach_step [OF 1 close] by (simp add: sync_running_def run_start_def wg_zero_def)
  let ?c = "?s\<lparr>closer := False, chClosed := True, cancelled := True, printed := Some AllJobsCompleted\<rparr>"
  have 3: "run_reach one_job (?c\<lparr>pc := WaitJobs\<rparr>)"
    using reach_step [OF 2 select_jobs_done] by (simp add: sync_running_def run_start_def)
  have 4: "run_reach one_job (?c\<lparr>pc := WaitServices\<rparr>)"
    using reach_step [OF 3 jobs_waited] by (simp add: wg_zero_def)
  have 5: "run_reach one_job (?c\<lparr>pc := WaitServices, stopped_services := [True]\<rparr>)"
    using reach_step [OF 4 service_stops [where k = 0]] by (simp add: sync_running_def run_start_def one_job_def)
  have 6: "run_reach one_job (?c\<lparr>pc := WaitServices, stopped_services := [True], stopped_observable := True\<rparr>)"
    using reach_step [OF 5 observable_stops] by simp
  have 7: "run_reach one_job (?c\<lparr>stopped_services := [True], stopped_observable := True, pc := WaitObservable\<rparr>)"
    using reach_step [OF 6 services_waited] by simp
  have 8: "run_reach one_job (?c\<lparr>stopped_services := [True], stopped_observable := True, pc := Returned None\<rparr>)" (is "run_reach _ ?r")
    using reach_step [OF 7 observable_waited] by simp
  have "pc ?r = Returned None" "printed ?r = Some AllJobsCompleted" by simp_all
  with Run_returns_when_stopped [OF 8] show ?thesis by (intro exI [of _ ?r]) (simp add: 8)
qed

end
