(* ===== verification/Cache.thy ===== *)
theory Cache
  imports Prelude
begin

text \<open>
  The cache client (\<open>src/client/cache\<close>): the text form of values (\<open>utils.go\<close>), the
  client over Redis (\<open>redis.go\<close>) and the client manager (\<open>manager.go\<close>). The Redis
  server behind go-redis, gob and the text form of floats are arguments; integers keep their width.
\<close>

section \<open>Values\<close>

text \<open>
  A value as reflection sees it: the kinds the code tells apart, an integer with its width in
  bits, and everything else.
\<close>

datatype ('f, 'o) cache_value =
    CBytes string
  | CInt nat int
  | CUint nat int
  | CFloat 'f
  | CString string
  | COther 'o

text \<open>What the output pointer points to; \<open>ToOther\<close> is any other output.\<close>

datatype 'o target = ToBytes | ToInt nat | ToUint nat | ToFloat | ToString | ToOther 'o

record ('f, 'o, 'e) ser_env =
  FormatFloat :: "'f \<Rightarrow> string"
  ParseFloat :: "string \<Rightarrow> 'e + 'f"
  gob_Encode_value :: "'o \<Rightarrow> 'e + string"
  gob_Decode_into :: "string \<Rightarrow> 'o \<Rightarrow> 'e + 'o"

datatype 'e ser_error = NumError num_error | LibError 'e

definition int_in :: "nat \<Rightarrow> int \<Rightarrow> bool" where
  "int_in w i \<longleftrightarrow> - (2 ^ (w - 1)) \<le> i \<and> i < 2 ^ (w - 1)"

definition uint_in :: "nat \<Rightarrow> int \<Rightarrow> bool" where
  "uint_in w i \<longleftrightarrow> 0 \<le> i \<and> i < 2 ^ w"

text \<open>A value of Go: its number is in the range of its width, which is at most 64.\<close>

definition go_number :: "('f, 'o) cache_value \<Rightarrow> bool" where
  "go_number v = (case v of
      CInt w i \<Rightarrow> 0 < w \<and> w \<le> 64 \<and> int_in w i | CUint w i \<Rightarrow> 0 < w \<and> w \<le> 64 \<and> uint_in w i | _ \<Rightarrow> True)"

text \<open>\<open>SetInt\<close> and \<open>SetUint\<close> keep the low bits.\<close>

definition SetInt :: "nat \<Rightarrow> int \<Rightarrow> int" where
  "SetInt w i = (i + 2 ^ (w - 1)) mod 2 ^ w - 2 ^ (w - 1)"

definition SetUint :: "nat \<Rightarrow> int \<Rightarrow> int" where
  "SetUint w i = i mod 2 ^ w"

definition Serialize :: "('f, 'o, 'e) ser_env \<Rightarrow> ('f, 'o) cache_value \<Rightarrow> 'e ser_error + string" where
  "Serialize env value = (case value of
      CBytes b \<Rightarrow> Inr b
    | CInt _ i \<Rightarrow> Inr (FormatInt i)
    | CUint _ i \<Rightarrow> Inr (FormatUint 10 (nat i))
    | CFloat f \<Rightarrow> Inr (FormatFloat env f)
    | CString s \<Rightarrow> Inr s
    | COther v \<Rightarrow> (case gob_Encode_value env v of Inl e \<Rightarrow> Inl (LibError e) | Inr b \<Rightarrow> Inr b))"

text \<open>The result is what the output holds afterwards.\<close>

definition Deserialize ::
  "('f, 'o, 'e) ser_env \<Rightarrow> string \<Rightarrow> 'o target \<Rightarrow> 'e ser_error + ('f, 'o) cache_value" where
  "Deserialize env byt ptr = (case ptr of
      ToBytes \<Rightarrow> Inr (CBytes byt)
    | ToInt w \<Rightarrow> (case ParseInt byt of (_, Some e) \<Rightarrow> Inl (NumError e) | (i, None) \<Rightarrow> Inr (CInt w (SetInt w i)))
    | ToUint w \<Rightarrow> (case ParseUint 10 byt of
          (_, Some e) \<Rightarrow> Inl (NumError e) | (n, None) \<Rightarrow> Inr (CUint w (SetUint w (int n))))
    | ToFloat \<Rightarrow> (case ParseFloat env byt of Inl e \<Rightarrow> Inl (LibError e) | Inr f \<Rightarrow> Inr (CFloat f))
    | ToString \<Rightarrow> Inr (CString byt)
    | ToOther v \<Rightarrow> (case gob_Decode_into env byt v of Inl e \<Rightarrow> Inl (LibError e) | Inr r \<Rightarrow> Inr (COther r)))"

text \<open>The output a value of some type is read into.\<close>

fun target_of :: "('f, 'o) cache_value \<Rightarrow> 'o target" where
  "target_of (CBytes _) = ToBytes"
| "target_of (CInt w _) = ToInt w"
| "target_of (CUint w _) = ToUint w"
| "target_of (CFloat _) = ToFloat"
| "target_of (CString _) = ToString"
| "target_of (COther v) = ToOther v"

section \<open>The client\<close>

text \<open>
  The commands of go-redis on a server in state \<open>'r\<close>; expirations are durations.
\<close>

record ('r, 'e) redis =
  SetNX :: "string \<Rightarrow> string \<Rightarrow> int \<Rightarrow> 'r \<Rightarrow> ('e + bool) \<times> 'r"
  SetXX :: "string \<Rightarrow> string \<Rightarrow> int \<Rightarrow> 'r \<Rightarrow> ('e + bool) \<times> 'r"
  SetCmd :: "string \<Rightarrow> string \<Rightarrow> int \<Rightarrow> 'r \<Rightarrow> 'e option \<times> 'r"
  Del :: "string list \<Rightarrow> 'r \<Rightarrow> ('e + int) \<times> 'r"
  ExistsCmd :: "string list \<Rightarrow> 'r \<Rightarrow> ('e + int) \<times> 'r"
  ExpireCmd :: "string \<Rightarrow> int \<Rightarrow> 'r \<Rightarrow> ('e + bool) \<times> 'r"
  GetCmd :: "string \<Rightarrow> 'r \<Rightarrow> ('e + string) \<times> 'r"
  IncrByCmd :: "string \<Rightarrow> int \<Rightarrow> 'r \<Rightarrow> ('e + int) \<times> 'r"
  MGetCmd :: "string list \<Rightarrow> 'r \<Rightarrow> ('e + string option list) \<times> 'r"
  MSetCmd :: "(string \<times> string) list \<Rightarrow> 'r \<Rightarrow> 'e option \<times> 'r"

type_synonym 'e cache_error = "'e ser_error go_error"

definition wrap_lib :: "string \<Rightarrow> 'e \<Rightarrow> 'e cache_error" where
  [go_defs]: "wrap_lib msg e = WrapError (Lib (LibError e)) msg"

definition wrap_ser :: "string \<Rightarrow> 'e ser_error \<Rightarrow> 'e cache_error" where
  [go_defs]: "wrap_ser msg e = WrapError (Lib e) msg"

definition cache_Add ::
  "('f, 'o, 'e) ser_env \<Rightarrow> ('r, 'e) redis \<Rightarrow> string \<Rightarrow> ('f, 'o) cache_value \<Rightarrow> int \<Rightarrow> 'r \<Rightarrow> ('e cache_error + bool) \<times> 'r" where
  "cache_Add env c key value expiration r = (case Serialize env value of
      Inl err \<Rightarrow> (Inl (wrap_ser ''redis_add_serialize_value_error'' err), r)
    | Inr b \<Rightarrow> (case SetNX c key b expiration r of
        (Inl err, r') \<Rightarrow> (Inl (wrap_lib ''redis_add_request_error'' err), r')
      | (Inr result, r') \<Rightarrow> (Inr result, r')))"

definition cache_Delete :: "('r, 'e) redis \<Rightarrow> string list \<Rightarrow> 'r \<Rightarrow> ('e cache_error + int) \<times> 'r" where
  "cache_Delete c ks r = (case Del c ks r of
      (Inl err, r') \<Rightarrow> (Inl (wrap_lib ''redis_delete_request_error'' err), r')
    | (Inr result, r') \<Rightarrow> (Inr result, r'))"

definition cache_Exists :: "('r, 'e) redis \<Rightarrow> string list \<Rightarrow> 'r \<Rightarrow> ('e cache_error + int) \<times> 'r" where
  "cache_Exists c ks r = (case ExistsCmd c ks r of
      (Inl err, r') \<Rightarrow> (Inl (wrap_lib ''redis_exists_request_error'' err), r')
    | (Inr result, r') \<Rightarrow> (Inr result, r'))"

definition cache_Expire :: "('r, 'e) redis \<Rightarrow> string \<Rightarrow> int \<Rightarrow> 'r \<Rightarrow> ('e cache_error + bool) \<times> 'r" where
  "cache_Expire c key expiration r = (case ExpireCmd c key expiration r of
      (Inl err, r') \<Rightarrow> (Inl (wrap_lib ''redis_expire_request_error'' err), r')
    | (Inr result, r') \<Rightarrow> (Inr result, r'))"

definition cache_Get ::
  "('f, 'o, 'e) ser_env \<Rightarrow> ('r, 'e) redis \<Rightarrow> string \<Rightarrow> 'o target \<Rightarrow> 'r \<Rightarrow> ('e cache_error + ('f, 'o) cache_value) \<times> 'r" where
  "cache_Get env c key value r = (case GetCmd c key r of
      (Inl err, r') \<Rightarrow> (Inl (wrap_lib ''redis_get_request_error'' err), r')
    | (Inr v, r') \<Rightarrow> (case Deserialize env v value of
        Inl err \<Rightarrow> (Inl (wrap_ser ''redis_get_deserialize_value_error'' err), r')
      | Inr out \<Rightarrow> (Inr out, r')))"

definition cache_IncrBy :: "('r, 'e) redis \<Rightarrow> string \<Rightarrow> int \<Rightarrow> 'r \<Rightarrow> ('e cache_error + int) \<times> 'r" where
  "cache_IncrBy c key value r = (case IncrByCmd c key value r of
      (Inl err, r') \<Rightarrow> (Inl (wrap_lib ''redis_incrby_request_error'' err), r')
    | (Inr result, r') \<Rightarrow> (Inr result, r'))"

text \<open>
  \<open>MGet\<close> on the entries of the map in the order it is ranged over: a key and its output, which
  becomes \<open>None\<close> for a key that does not exist. The outputs filled before an error stay filled; a
  reply that is shorter than the keys panics.
\<close>

fun mget_loop ::
  "('f, 'o, 'e) ser_env \<Rightarrow> (string \<times> 'o target) list \<Rightarrow> string option list \<Rightarrow> (string \<times> ('f, 'o) cache_value option) list \<Rightarrow>
     ('e cache_error option \<times> (string \<times> ('f, 'o) cache_value option) list) exec" where
  "mget_loop env [] result done = Return (None, done)"
| "mget_loop env ((k, ptr) # kv) [] done = Panic IndexOutOfRange"
| "mget_loop env ((k, ptr) # kv) (None # result) done = mget_loop env kv result (done @ [(k, None)])"
| "mget_loop env ((k, ptr) # kv) (Some sv # result) done = (case Deserialize env sv ptr of
      Inl err \<Rightarrow> Return (Some (wrap_ser ''redis_mget_deserialize_value_error'' err), done)
    | Inr out \<Rightarrow> mget_loop env kv result (done @ [(k, Some out)]))"

definition cache_MGet ::
  "('f, 'o, 'e) ser_env \<Rightarrow> ('r, 'e) redis \<Rightarrow> (string \<times> 'o target) list \<Rightarrow> 'r \<Rightarrow>
     ('e cache_error option \<times> (string \<times> ('f, 'o) cache_value option) list) exec \<times> 'r" where
  "cache_MGet env c kv r = (case MGetCmd c (map fst kv) r of
      (Inl err, r') \<Rightarrow> (Return (Some (wrap_lib ''redis_mget_request_error'' err), []), r')
    | (Inr result, r') \<Rightarrow> (mget_loop env kv result [], r'))"

fun serialize_all ::
  "('f, 'o, 'e) ser_env \<Rightarrow> (string \<times> ('f, 'o) cache_value) list \<Rightarrow> (string \<times> string) list \<Rightarrow> 'e cache_error + (string \<times> string) list" where
  "serialize_all env [] skv = Inr skv"
| "serialize_all env ((k, v) # kv) skv = (case Serialize env v of
      Inl err \<Rightarrow> Inl (wrap_ser ''redis_mset_serialize_value_error'' err)
    | Inr sv \<Rightarrow> serialize_all env kv (skv @ [(k, sv)]))"

definition cache_MSet ::
  "('f, 'o, 'e) ser_env \<Rightarrow> ('r, 'e) redis \<Rightarrow> (string \<times> ('f, 'o) cache_value) list \<Rightarrow> 'r \<Rightarrow> 'e cache_error option \<times> 'r" where
  "cache_MSet env c kv r = (case serialize_all env kv [] of
      Inl err \<Rightarrow> (Some err, r)
    | Inr skv \<Rightarrow> (case MSetCmd c skv r of
        (Some err, r') \<Rightarrow> (Some (wrap_lib ''redis_mset_request_error'' err), r')
      | (None, r') \<Rightarrow> (None, r')))"

definition cache_Set ::
  "('f, 'o, 'e) ser_env \<Rightarrow> ('r, 'e) redis \<Rightarrow> string \<Rightarrow> ('f, 'o) cache_value \<Rightarrow> int \<Rightarrow> 'r \<Rightarrow> 'e cache_error option \<times> 'r" where
  "cache_Set env c key value expiration r = (case Serialize env value of
      Inl err \<Rightarrow> (Some (wrap_ser ''redis_set_serialize_value_error'' err), r)
    | Inr b \<Rightarrow> (case SetCmd c key b expiration r of
        (Some err, r') \<Rightarrow> (Some (wrap_lib ''redis_set_request_error'' err), r')
      | (None, r') \<Rightarrow> (None, r')))"

definition cache_Update ::
  "('f, 'o, 'e) ser_env \<Rightarrow> ('r, 'e) redis \<Rightarrow> string \<Rightarrow> ('f, 'o) cache_value \<Rightarrow> int \<Rightarrow> 'r \<Rightarrow> ('e cache_error + bool) \<times> 'r" where
  "cache_Update env c key value expiration r = (case Serialize env value of
      Inl err \<Rightarrow> (Inl (wrap_ser ''redis_update_serialize_value_error'' err), r)
    | Inr b \<Rightarrow> (case SetXX c key b expiration r of
        (Inl err, r') \<Rightarrow> (Inl (wrap_lib ''redis_update_request_error'' err), r')
      | (Inr result, r') \<Rightarrow> (Inr result, r')))"

section \<open>The manager\<close>

record cache_config =
  cc_Name :: string
  cc_Type :: string
  cc_Address :: string
  cc_Username :: string
  cc_Password :: string
  cc_DB :: "32 word"

record redis_options =
  ro_Addr :: string
  ro_Username :: string
  ro_Password :: string
  ro_DB :: int
  ro_MaxRetries :: int
  ro_PoolSize :: int
  ro_ConnMaxIdleTime :: int
  ro_ConnMaxLifetime :: int

definition poolSizePerProc :: int where "poolSizePerProc = 10"
definition connMaxIdleTime :: int where "connMaxIdleTime = 60 * 10 ^ 9"
definition connMaxLifeTime :: int where "connMaxLifeTime = 10 * 60 * 10 ^ 9"

text \<open>A client is the options it connects with.\<close>

definition NewRedisClient :: "int \<Rightarrow> cache_config \<Rightarrow> 'e go_error + redis_options" where
  "NewRedisClient GOMAXPROCS config = Inr
     \<lparr>ro_Addr = cc_Address config, ro_Username = cc_Username config, ro_Password = cc_Password config,
      ro_DB = uint (cc_DB config), ro_MaxRetries = 1, ro_PoolSize = i64 (poolSizePerProc * GOMAXPROCS),
      ro_ConnMaxIdleTime = connMaxIdleTime, ro_ConnMaxLifetime = connMaxLifeTime\<rparr>"

fun cache_clients_loop ::
  "int \<Rightarrow> cache_config list \<Rightarrow> (string \<rightharpoonup> redis_options) \<Rightarrow> 'e go_error + (string \<rightharpoonup> redis_options)" where
  "cache_clients_loop procs [] clients = Inr clients"
| "cache_clients_loop procs (config # configs) clients =
     (let cacheType = ToLower (cc_Type config) in
      if cacheType = [] \<or> cacheType = ''redis'' then (case NewRedisClient procs config of
          Inl err \<Rightarrow> Inl err
        | Inr client \<Rightarrow> cache_clients_loop procs configs (clients(cc_Name config \<mapsto> client)))
      else Inl (NewError (''unknown_cache_client_type:'' @ cacheType)))"

definition cache_NewClientManager :: "int \<Rightarrow> cache_config list \<Rightarrow> 'e go_error + (string \<rightharpoonup> redis_options)" where
  "cache_NewClientManager procs configs = cache_clients_loop procs configs Map.empty"

definition cache_GetClient :: "(string \<rightharpoonup> redis_options) \<Rightarrow> string \<Rightarrow> redis_options option" where
  "cache_GetClient clients name = clients name"

section \<open>Lemmas\<close>

lemma SetInt_range: "0 < w \<Longrightarrow> int_in w (SetInt w i)"
proof -
  assume "0 < w"
  then have "(2 :: int) ^ w = 2 * 2 ^ (w - 1)" by (cases w) auto
  then have "0 \<le> (i + 2 ^ (w - 1)) mod 2 ^ w" "(i + 2 ^ (w - 1)) mod 2 ^ w < 2 * 2 ^ (w - 1)" by simp_all
  then show ?thesis by (simp add: SetInt_def int_in_def)
qed

lemma SetInt_id: "0 < w \<Longrightarrow> int_in w i \<Longrightarrow> SetInt w i = i"
proof -
  assume "0 < w" "int_in w i"
  moreover from this have "(2 :: int) ^ w = 2 * 2 ^ (w - 1)" by (cases w) auto
  ultimately have "(i + 2 ^ (w - 1)) mod 2 ^ w = i + 2 ^ (w - 1)" by (simp add: int_in_def)
  then show ?thesis by (simp add: SetInt_def)
qed

lemma SetInt_eq_iff: "0 < w \<Longrightarrow> SetInt w i = i \<longleftrightarrow> int_in w i"
  using SetInt_range SetInt_id by metis

lemma int_in_i64: "w \<le> 64 \<Longrightarrow> int_in w i \<Longrightarrow> in_i64 i"
proof -
  assume w: "w \<le> 64" "int_in w i"
  then have "w - 1 \<le> 63" by simp
  then have "(2 :: int) ^ (w - 1) \<le> 2 ^ 63" by (intro power_increasing) simp_all
  with w show ?thesis by (simp add: int_in_def in_i64_def)
qed

lemma uint_in_max:
  assumes "w \<le> 64" "uint_in w i"
  shows "nat i \<le> max_u64"
proof -
  have "(2 :: int) ^ w \<le> 2 ^ 64" using assms(1) by (intro power_increasing) simp_all
  then have "i < 2 ^ 64" using assms(2) by (simp add: uint_in_def)
  then show ?thesis by (simp add: max_u64_def)
qed

lemma map_of_zip_values: "length ks = length bs \<Longrightarrow> distinct ks \<Longrightarrow> map (map_of (zip ks bs)) ks = map Some bs"
  by (induction ks bs rule: list_induct2) (auto intro: map_cong)

definition gob_free :: "('f, 'o) cache_value \<Rightarrow> bool" where
  "gob_free v = (case v of COther _ \<Rightarrow> False | _ \<Rightarrow> True)"

lemma Deserialize_Serialize:
  assumes "go_number v" "gob_free v" "\<And>f. ParseFloat env (FormatFloat env f) = Inr f"
  obtains b where "Serialize env v = Inr b" "Deserialize env b (target_of v) = Inr v"
proof (cases v)
  case (CInt w i)
  with assms(1) have "in_i64 i" "0 < w" "int_in w i" by (auto simp: go_number_def int_in_i64)
  with CInt show thesis by (intro that [of "FormatInt i"]) (simp_all add: Serialize_def Deserialize_def ParseInt_FormatInt SetInt_id)
next
  case (CUint w i)
  with assms(1) have "w \<le> 64" "uint_in w i" by (auto simp: go_number_def)
  with CUint uint_in_max [OF this] show thesis
    by (intro that [of "FormatUint 10 (nat i)"]) (simp_all add: Serialize_def Deserialize_def ParseUint_FormatUint SetUint_def uint_in_def)
qed (use assms that in \<open>auto simp: Serialize_def Deserialize_def gob_free_def\<close>)

lemma serialize_all_ok:
  assumes "\<And>f. ParseFloat env (FormatFloat env f) = Inr f"
  shows "list_all (\<lambda>(_, v). go_number v \<and> gob_free v) kv \<Longrightarrow>
    \<exists>bs. serialize_all env kv skv = Inr (skv @ zip (map fst kv) bs) \<and> length bs = length kv
      \<and> list_all2 (\<lambda>b (_, v). Deserialize env b (target_of v) = Inr v) bs kv"
proof (induction kv arbitrary: skv)
  case (Cons e kv)
  obtain k v where e: "e = (k, v)" by (cases e)
  with Cons.prems obtain b where b: "Serialize env v = Inr b" "Deserialize env b (target_of v) = Inr v"
    by (auto elim: Deserialize_Serialize [OF _ _ assms])
  from Cons.IH [of "skv @ [(k, b)]"] Cons.prems obtain bs where
    "serialize_all env kv (skv @ [(k, b)]) = Inr ((skv @ [(k, b)]) @ zip (map fst kv) bs)" "length bs = length kv"
    "list_all2 (\<lambda>b (_, v). Deserialize env b (target_of v) = Inr v) bs kv" by auto
  with e b show ?case by (intro exI [of _ "b # bs"]) simp
qed simp

lemma mget_loop_ok:
  "list_all2 (\<lambda>b (_, v). Deserialize env b (target_of v) = Inr v) bs kv \<Longrightarrow>
     mget_loop env (map (\<lambda>(k, v). (k, target_of v)) kv) (map Some bs) done =
       Return (None, done @ map (\<lambda>(k, v). (k, Some v)) kv)"
  by (induction arbitrary: "done" rule: list_all2_induct) auto

section \<open>Types of outputs\<close>

text \<open>Values an output of a type may hold: integers are in the range of its width.\<close>

fun of_type :: "'o target \<Rightarrow> ('f, 'o) cache_value \<Rightarrow> bool" where
  "of_type ToBytes (CBytes _) = True"
| "of_type (ToInt w) (CInt w' i) = (w' = w \<and> int_in w i)"
| "of_type (ToUint w) (CUint w' i) = (w' = w \<and> uint_in w i)"
| "of_type ToFloat (CFloat _) = True"
| "of_type ToString (CString _) = True"
| "of_type (ToOther _) (COther _) = True"
| "of_type _ _ = False"

fun go_target :: "'o target \<Rightarrow> bool" where
  "go_target (ToInt w) = (0 < w)"
| "go_target _ = True"

lemma Deserialize_typed: "go_target t \<Longrightarrow> Deserialize env b t = Inr v \<Longrightarrow> of_type t v"
  by (cases t) (auto simp: Deserialize_def SetInt_range SetUint_def uint_in_def split: prod.splits option.splits sum.splits)

definition output_ok :: "string \<times> 'o target \<Rightarrow> string \<times> ('f, 'o) cache_value option \<Rightarrow> bool" where
  "output_ok e r \<longleftrightarrow> fst r = fst e \<and> (case snd r of None \<Rightarrow> True | Some v \<Rightarrow> of_type (snd e) v)"

lemma output_ok_simps [simp]:
  "output_ok (k, t) (k', None) \<longleftrightarrow> k' = k" "output_ok (k, t) (k', Some v) \<longleftrightarrow> k' = k \<and> of_type t v"
  by (simp_all add: output_ok_def)

lemma mget_loop_typed:
  "mget_loop env kv result done = Return (err, outs) \<Longrightarrow> list_all (\<lambda>e. go_target (snd e)) kv \<Longrightarrow>
   \<exists>new. outs = done @ new \<and> length new \<le> length kv \<and> list_all2 output_ok (take (length new) kv) new
     \<and> (err = None \<longrightarrow> length new = length kv)"
proof (induction env kv result "done" rule: mget_loop.induct)
  case (3 env k ptr kv result ds)
  then obtain new where new: "outs = (ds @ [(k, None)]) @ new" "length new \<le> length kv"
    "list_all2 output_ok (take (length new) kv) new" "err = None \<longrightarrow> length new = length kv"
    by auto
  then show ?case by (intro exI [of _ "(k, None) # new"]) simp
next
  case (4 env k ptr kv sv result ds)
  show ?case
  proof (cases "Deserialize env sv ptr")
    case (Inr v)
    with 4 obtain new where new: "outs = (ds @ [(k, Some v)]) @ new" "length new \<le> length kv"
      "list_all2 output_ok (take (length new) kv) new" "err = None \<longrightarrow> length new = length kv"
      by auto
    with Inr 4(3) show ?thesis
      by (intro exI [of _ "(k, Some v) # new"]) (simp add: Deserialize_typed)
  qed (use 4 in auto)
qed auto

section \<open>Properties\<close>



text \<open>
  An integer read into a narrower type than it was written with gives no error but its low
  bits: the value is right exactly if it is in the range of that type.
\<close>

theorem narrow_read_wraps:
  assumes "in_i64 i" "0 < w"
  shows "Deserialize env (FormatInt i) (ToInt w) = Inr (CInt w (SetInt w i))
    \<and> int_in w (SetInt w i) \<and> (SetInt w i = i \<longleftrightarrow> int_in w i)"
  using assms by (simp add: Deserialize_def ParseInt_FormatInt SetInt_range SetInt_eq_iff)

section \<open>Concrete runs\<close>

definition plain_ser_env :: "(unit, unit, unit) ser_env" where
  "plain_ser_env = \<lparr>FormatFloat = (\<lambda>_. ''1''), ParseFloat = (\<lambda>_. Inr ()),
     gob_Encode_value = (\<lambda>_. Inl ()), gob_Decode_into = (\<lambda>_ _. Inl ())\<rparr>"

text \<open>A server that is a map.\<close>

definition map_redis :: "(string \<rightharpoonup> string, unit) redis" where
  "map_redis = \<lparr>SetNX = (\<lambda>k v _ r. (Inr (r k = None), if r k = None then r(k \<mapsto> v) else r)),
     SetXX = (\<lambda>k v _ r. (Inr (r k \<noteq> None), if r k \<noteq> None then r(k \<mapsto> v) else r)),
     SetCmd = (\<lambda>k v _ r. (None, r(k \<mapsto> v))), Del = (\<lambda>ks r. (Inr (int (length ks)), fold (\<lambda>k r. r(k := None)) ks r)),
     ExistsCmd = (\<lambda>ks r. (Inr (int (length (filter (\<lambda>k. r k \<noteq> None) ks))), r)),
     ExpireCmd = (\<lambda>k _ r. (Inr (r k \<noteq> None), r)), GetCmd = (\<lambda>k r. (case r k of None \<Rightarrow> Inl () | Some v \<Rightarrow> Inr v, r)),
     IncrByCmd = (\<lambda>_ _ r. (Inl (), r)), MGetCmd = (\<lambda>ks r. (Inr (map r ks), r)),
     MSetCmd = (\<lambda>kv r. (None, r ++ map_of kv))\<rparr>"


theorem narrow_read_wraps_witness:
  "Deserialize plain_ser_env ''300'' (ToInt 8) = Inr (CInt 8 44)"
proof -
  have "FormatInt 300 = ''300''" by code_simp
  with narrow_read_wraps [of 300 8 plain_ser_env] show ?thesis by (simp add: in_i64_def SetInt_def)
qed

definition sample_targets :: "(string \<times> unit target) list" where
  "sample_targets = [(''a'', ToInt 8), (''b'', ToBytes), (''c'', ToString)]"

definition sample_store :: "string \<rightharpoonup> string" where
  "sample_store = [''a'' \<mapsto> FormatInt 300, ''c'' \<mapsto> ''x'']"

lemma sample_MGet: "cache_MGet plain_ser_env map_redis sample_targets sample_store =
   (Return (None, [(''a'', Some (CInt 8 44)), (''b'', None), (''c'', Some (CString ''x''))]), sample_store)"
  by (simp add: cache_MGet_def map_redis_def sample_targets_def sample_store_def Deserialize_def ParseInt_FormatInt
      in_i64_def SetInt_def)


end
