(* ===== verification/Stores.thy ===== *)
theory Stores
  imports Prelude
begin

text \<open>
  The database and message clients: \<open>src/client/database\<close> (connection strings, the gorm and
  mssqlx clients, their manager and the query log) and \<open>src/client/pulsar\<close> (options and
  manager). What the libraries connect to, and whether that succeeds, is an argument.
\<close>

section \<open>Formatting\<close>

text \<open>
  \<open>fmt.Sprintf\<close> with string arguments: \<open>%s\<close>, \<open>%v\<close> and \<open>%%\<close>; \<open>other\<close> is
  what any other directive prints for its argument. Missing and extra arguments show in the text.
\<close>

fun Sprintf :: "(char \<Rightarrow> string option \<Rightarrow> string) \<Rightarrow> string \<Rightarrow> string list \<Rightarrow> string" where
  "Sprintf other [] args =
     (if args = [] then [] else ''%!(EXTRA '' @ Join '', '' (map (\<lambda>a. ''string='' @ a) args) @ '')'')"
| "Sprintf other [c] args = (if c = CHR ''%'' then ''%!(NOVERB)'' else [c]) @ Sprintf other [] args"
| "Sprintf other (c # d # cs) args =
     (if c \<noteq> CHR ''%'' then c # Sprintf other (d # cs) args
      else if d = CHR ''%'' then CHR ''%'' # Sprintf other cs args
      else if d = CHR ''s'' \<or> d = CHR ''v'' then (case args of
          [] \<Rightarrow> ''%!'' @ [d] @ ''(MISSING)'' @ Sprintf other cs []
        | a # rest \<Rightarrow> a @ Sprintf other cs rest)
      else (case args of
          [] \<Rightarrow> other d None @ Sprintf other cs []
        | a # rest \<Rightarrow> other d (Some a) @ Sprintf other cs rest))"

lemma Sprintf_plain: "CHR ''%'' \<notin> set s \<Longrightarrow> t \<noteq> [] \<or> args = [] \<Longrightarrow> Sprintf other (s @ t) args = s @ Sprintf other t args"
proof (induction s)
  case (Cons c s)
  then show ?case by (cases "s @ t") auto
qed simp

section \<open>Database clients\<close>

record db_config =
  db_Name :: string
  Database :: string
  User :: string
  Password :: string
  Masters :: "string list"
  Slaves :: "string list"

definition dsn_options :: string where
  "dsn_options = ''charset=utf8mb4&collation=utf8mb4_general_ci&timeout=10s&interpolateParams=true&parseTime=true''"

definition gormDsn :: string where "gormDsn = ''%s:%s@(%s)/%s?'' @ dsn_options"
definition sqlxDsn :: string where "sqlxDsn = ''%s:%s@(%s)/%s?'' @ dsn_options"

definition dsn_template :: "(char \<Rightarrow> string option \<Rightarrow> string) \<Rightarrow> string \<Rightarrow> db_config \<Rightarrow> string" where
  "dsn_template other dsn c = Sprintf other dsn [User c, Password c, ''%s'', Database c]"

record 'e db_env =
  sprintf_other :: "char \<Rightarrow> string option \<Rightarrow> string"
  gorm_Open :: "string \<Rightarrow> 'e option"
  gorm_Use :: "string list \<Rightarrow> string list \<Rightarrow> 'e option"
  ConnectMasterSlaves :: "string list \<Rightarrow> string list \<Rightarrow> 'e option list"
  has_logger :: bool

definition gormConnMaxIdle :: int where "gormConnMaxIdle = 60 * 10 ^ 9"
definition gormConnMaxLife :: int where "gormConnMaxLife = 10 * 60 * 10 ^ 9"
definition gormMaxIdleConns :: int where "gormMaxIdleConns = 10"
definition gormMaxOpenConns :: int where "gormMaxOpenConns = 0"
definition gormSlowQueryThreshold :: int where "gormSlowQueryThreshold = 200 * 10 ^ 6"

record gorm_db =
  primary :: string
  sources :: "string list"
  replicas :: "string list"
  ConnMaxIdleTime :: int
  ConnMaxLifetime :: int
  MaxIdleConns :: int
  MaxOpenConns :: int

definition NewGormClient :: "'e db_env \<Rightarrow> db_config \<Rightarrow> ('e + gorm_db) exec" where
  "NewGormClient env config =
    (let tpl = dsn_template (sprintf_other env) gormDsn config;
         srcs = map (\<lambda>address. Sprintf (sprintf_other env) tpl [address]) (Masters config);
         reps = map (\<lambda>address. Sprintf (sprintf_other env) tpl [address]) (Slaves config)
     in case srcs of
          [] \<Rightarrow> Panic IndexOutOfRange
        | first # _ \<Rightarrow> (case gorm_Open env first of
            Some err \<Rightarrow> Return (Inl err)
          | None \<Rightarrow> (case gorm_Use env srcs reps of
              Some err \<Rightarrow> Return (Inl err)
            | None \<Rightarrow> Return (Inr \<lparr>primary = first, sources = srcs, replicas = reps,
                ConnMaxIdleTime = gormConnMaxIdle, ConnMaxLifetime = gormConnMaxLife,
                MaxIdleConns = gormMaxIdleConns, MaxOpenConns = gormMaxOpenConns\<rparr>))))"

record sqlx_db =
  sqlx_masters :: "string list"
  sqlx_slaves :: "string list"
  sqlx_logged :: bool

definition mysqlInstantiate :: "string \<Rightarrow> string \<Rightarrow> string + string" where
  "mysqlInstantiate driverName dsn = (if driverName \<noteq> ''mysql'' then Inl ''only_supported_mysql'' else Inr dsn)"

definition NewSqlxClient :: "'e db_env \<Rightarrow> db_config \<Rightarrow> 'e + sqlx_db" where
  "NewSqlxClient env config =
    (let tpl = dsn_template (sprintf_other env) sqlxDsn config;
         masterDsns = map (\<lambda>address. Sprintf (sprintf_other env) tpl [address]) (Masters config);
         slaveDsns = map (\<lambda>address. Sprintf (sprintf_other env) tpl [address]) (Slaves config)
     in case filter (\<lambda>e. e \<noteq> None) (ConnectMasterSlaves env masterDsns slaveDsns) of
          Some err # _ \<Rightarrow> Inl err
        | _ \<Rightarrow> Inr \<lparr>sqlx_masters = masterDsns, sqlx_slaves = slaveDsns, sqlx_logged = has_logger env\<rparr>)"

section \<open>The database manager\<close>

text \<open>A map that is \<open>None\<close> is the nil map, which has no entries.\<close>

record db_manager =
  db_configs :: "db_config list"
  gormClients :: "(string \<rightharpoonup> gorm_db) option"
  sqlxClients :: "(string \<rightharpoonup> sqlx_db) option"

fun gorm_loop ::
  "'e db_env \<Rightarrow> db_config list \<Rightarrow> (string \<rightharpoonup> gorm_db) \<Rightarrow> ('e option \<times> (string \<rightharpoonup> gorm_db)) exec" where
  "gorm_loop env [] clients = Return (None, clients)"
| "gorm_loop env (config # configs) clients = exec_bind (NewGormClient env config) (\<lambda>r. case r of
      Inl err \<Rightarrow> Return (Some err, clients)
    | Inr db \<Rightarrow> gorm_loop env configs (clients(db_Name config \<mapsto> db)))"

definition initGormClients :: "'e db_env \<Rightarrow> db_manager \<Rightarrow> ('e option \<times> db_manager) exec" where
  "initGormClients env c = exec_bind (gorm_loop env (db_configs c) Map.empty)
     (\<lambda>(err, clients). Return (err, c\<lparr>gormClients := Some clients\<rparr>))"

fun sqlx_loop ::
  "'e db_env \<Rightarrow> db_config list \<Rightarrow> (string \<rightharpoonup> sqlx_db) \<Rightarrow> 'e option \<times> (string \<rightharpoonup> sqlx_db)" where
  "sqlx_loop env [] clients = (None, clients)"
| "sqlx_loop env (config # configs) clients = (case NewSqlxClient env config of
      Inl err \<Rightarrow> (Some err, clients)
    | Inr db \<Rightarrow> sqlx_loop env configs (clients(db_Name config \<mapsto> db)))"

definition initSqlxClients :: "'e db_env \<Rightarrow> db_manager \<Rightarrow> 'e option \<times> db_manager" where
  "initSqlxClients env c = (case sqlx_loop env (db_configs c) Map.empty of
     (err, clients) \<Rightarrow> (err, c\<lparr>sqlxClients := Some clients\<rparr>))"

definition lookup_nilable :: "(string \<rightharpoonup> 'a) option \<Rightarrow> string \<Rightarrow> 'a option" where
  [go_defs]: "lookup_nilable m k = (case m of None \<Rightarrow> None | Some f \<Rightarrow> f k)"

definition GetGormClient :: "'e db_env \<Rightarrow> string \<Rightarrow> db_manager \<Rightarrow> (gorm_db option \<times> db_manager) exec" where
  "GetGormClient env name c =
    (if gormClients c = None then exec_bind (initGormClients env c) (\<lambda>(err, c'). case err of
         Some _ \<Rightarrow> Return (None, c')
       | None \<Rightarrow> Return (lookup_nilable (gormClients c') name, c'))
     else Return (lookup_nilable (gormClients c) name, c))"

definition db_GetClient :: "'e db_env \<Rightarrow> string \<Rightarrow> db_manager \<Rightarrow> (gorm_db option \<times> db_manager) exec" where
  "db_GetClient env name c = GetGormClient env name c"

definition GetSqlxClient :: "'e db_env \<Rightarrow> string \<Rightarrow> db_manager \<Rightarrow> sqlx_db option \<times> db_manager" where
  "GetSqlxClient env name c =
    (if gormClients c = None then (case initSqlxClients env c of
         (Some _, c') \<Rightarrow> (None, c')
       | (None, c') \<Rightarrow> (lookup_nilable (sqlxClients c') name, c'))
     else (lookup_nilable (sqlxClients c) name, c))"

definition db_NewClientManager :: "'e db_env \<Rightarrow> db_config list \<Rightarrow> ('e + db_manager) exec" where
  "db_NewClientManager env configs =
     exec_bind (initGormClients env \<lparr>db_configs = configs, gormClients = None, sqlxClients = None\<rparr>)
       (\<lambda>(err, c). Return (case err of Some e \<Rightarrow> Inl e | None \<Rightarrow> Inr c))"

section \<open>The query log\<close>

datatype log_level = LogError | LogWarn | LogDebug

record trace_entry =
  trace_level :: log_level
  trace_msg :: string
  trace_sql :: string
  trace_rows :: "int option"
  trace_duration :: int
  source_field :: "string option"

record gorm_logger =
  SlowThreshold :: int
  SourceField :: string
  SkipErrRecordNotFound :: bool

definition NewGormLogger :: gorm_logger where
  "NewGormLogger = \<lparr>SlowThreshold = 0, SourceField = [], SkipErrRecordNotFound = True\<rparr>"

text \<open>
  \<open>Trace\<close>: what it logs for a query of some duration; \<open>err\<close> is the error of the query and
  whether it is a missing record.
\<close>

definition Trace :: "gorm_logger \<Rightarrow> int \<Rightarrow> string \<times> int \<Rightarrow> bool option \<Rightarrow> string \<Rightarrow> trace_entry list" where
  "Trace l elapsed fc err where_am_i =
    (if err \<noteq> None \<and> \<not> (err = Some True \<and> SkipErrRecordNotFound l) then []
     else
       let (lvl, m) = (if SlowThreshold l \<noteq> 0 \<and> SlowThreshold l < elapsed
           then (LogWarn, ''[GORM] slow query'') else (LogDebug, ''[GORM] query''));
           (q, rows) = fc
       in [\<lparr>trace_level = lvl, trace_msg = m, trace_sql = q, trace_rows = (if 0 \<le> rows then Some rows else None), trace_duration = elapsed,
            source_field = (if SourceField l \<noteq> [] then Some where_am_i else None)\<rparr>])"

section \<open>Pulsar\<close>

record pulsar_config =
  pc_Name :: string
  pc_URL :: string
  pc_Token :: string

record pulsar_options =
  po_URL :: string
  po_Authentication :: "string option"
  po_Logger :: bool

definition pulsar_NewClient :: "(pulsar_options \<Rightarrow> 'e option) \<Rightarrow> bool \<Rightarrow> pulsar_config \<Rightarrow> 'e + pulsar_options" where
  "pulsar_NewClient connect logger config =
    (let opts = \<lparr>po_URL = pc_URL config, po_Authentication = (if pc_Token config \<noteq> [] then Some (pc_Token config) else None),
       po_Logger = logger\<rparr>
     in case connect opts of Some err \<Rightarrow> Inl err | None \<Rightarrow> Inr opts)"

fun pulsar_loop ::
  "(pulsar_options \<Rightarrow> 'e option) \<Rightarrow> bool \<Rightarrow> pulsar_config list \<Rightarrow> (string \<rightharpoonup> pulsar_options) \<Rightarrow> 'e + (string \<rightharpoonup> pulsar_options)" where
  "pulsar_loop connect logger [] clients = Inr clients"
| "pulsar_loop connect logger (config # configs) clients = (case pulsar_NewClient connect logger config of
      Inl err \<Rightarrow> Inl err
    | Inr client \<Rightarrow> pulsar_loop connect logger configs (clients(pc_Name config \<mapsto> client)))"

definition pulsar_NewClientManager ::
  "(pulsar_options \<Rightarrow> 'e option) \<Rightarrow> bool \<Rightarrow> pulsar_config list \<Rightarrow> 'e + (string \<rightharpoonup> pulsar_options)" where
  "pulsar_NewClientManager connect logger configs = pulsar_loop connect logger configs Map.empty"

definition pulsar_GetClient :: "(string \<rightharpoonup> pulsar_options) \<Rightarrow> string \<Rightarrow> pulsar_options option" where
  "pulsar_GetClient clients name = clients name"

section \<open>Lemmas\<close>

lemma no_percent_options: "CHR ''%'' \<notin> set dsn_options"
  by code_simp

lemma dsn_template_eq:
  "dsn_template other gormDsn c = User c @ '':'' @ Password c @ ''@('' @ ''%s'' @ '')/'' @ Database c @ ''?'' @ dsn_options"
proof -
  have "CHR ''%'' \<notin> set (CHR ''?'' # dsn_options)" using no_percent_options by simp
  from Sprintf_plain [OF this, of "[]" "[]" other] show ?thesis by (simp add: dsn_template_def gormDsn_def)
qed

lemma Sprintf_one:
  assumes "CHR ''%'' \<notin> set s" "CHR ''%'' \<notin> set t"
  shows "Sprintf other (s @ ''%s'' @ t) [a] = s @ a @ t"
  using Sprintf_plain [OF assms(1), of "''%s'' @ t" "[a]" other] Sprintf_plain [OF assms(2), of "[]" "[]" other] by simp

definition dsn_of :: "db_config \<Rightarrow> string \<Rightarrow> string" where
  "dsn_of c address = User c @ '':'' @ Password c @ ''@('' @ address @ '')/'' @ Database c @ ''?'' @ dsn_options"

definition no_percent :: "db_config \<Rightarrow> bool" where
  "no_percent c \<longleftrightarrow> CHR ''%'' \<notin> set (User c @ Password c @ Database c)"

lemma dsn_verbatim:
  assumes "no_percent c"
  shows "Sprintf other (dsn_template other gormDsn c) [address] = dsn_of c address"
  using assms Sprintf_one [of "User c @ '':'' @ Password c @ ''@(''" "'')/'' @ Database c @ ''?'' @ dsn_options" other address]
    no_percent_options by (simp add: dsn_template_eq dsn_of_def no_percent_def)

lemma NewGormClient_Inr:
  assumes "NewGormClient env config = Return (Inr db)"
  shows "sources db = map (\<lambda>a. Sprintf (sprintf_other env) (dsn_template (sprintf_other env) gormDsn config) [a]) (Masters config)
    \<and> replicas db = map (\<lambda>a. Sprintf (sprintf_other env) (dsn_template (sprintf_other env) gormDsn config) [a]) (Slaves config)
    \<and> sources db \<noteq> [] \<and> primary db = hd (sources db)"
  using assms by (auto simp: NewGormClient_def Let_def split: list.splits option.splits)

lemma gorm_loop_ConsE:
  assumes "gorm_loop env (c # configs) clients = Return (None, clients')"
  obtains db where "NewGormClient env c = Return (Inr db)"
    "gorm_loop env configs (clients(db_Name c \<mapsto> db)) = Return (None, clients')"
proof -
  from assms obtain r where r: "NewGormClient env c = Return r" by auto
  with assms that show thesis by (cases r) auto
qed

lemma gorm_loop_lookup:
  "gorm_loop env configs clients = Return (None, clients') \<Longrightarrow>
     clients' name = (case find (\<lambda>c. db_Name c = name) (rev configs) of
       None \<Rightarrow> clients name
     | Some c \<Rightarrow> (case NewGormClient env c of Return (Inr db) \<Rightarrow> Some db | _ \<Rightarrow> None))"
proof (induction configs arbitrary: clients)
  case (Cons c configs)
  then obtain db where "NewGormClient env c = Return (Inr db)"
    "gorm_loop env configs (clients(db_Name c \<mapsto> db)) = Return (None, clients')"
    by (elim gorm_loop_ConsE)
  with Cons.IH [OF this(2)] show ?case by (auto simp: find_append split: option.splits)
qed simp

lemma gorm_loop_all:
  "gorm_loop env configs clients = Return (None, clients') \<Longrightarrow> c \<in> set configs \<Longrightarrow>
     \<exists>db. NewGormClient env c = Return (Inr db)"
proof (induction configs arbitrary: clients)
  case (Cons x configs)
  then obtain db where "NewGormClient env x = Return (Inr db)"
    and rest: "gorm_loop env configs (clients(db_Name x \<mapsto> db)) = Return (None, clients')"
    by (elim gorm_loop_ConsE)
  with Cons.IH [OF rest] Cons.prems(2) show ?case by auto
qed simp

lemma db_NewClientManager_Inr:
  assumes "db_NewClientManager env configs = Return (Inr c)"
  obtains clients where "gorm_loop env configs Map.empty = Return (None, clients)"
    "c = \<lparr>db_configs = configs, gormClients = Some clients, sqlxClients = None\<rparr>"
  using assms by (auto simp: db_NewClientManager_def initGormClients_def split: option.splits)

text \<open>A sequence of lookups, gorm (\<open>True\<close>) or sqlx.\<close>

fun db_lookups :: "'e db_env \<Rightarrow> (bool \<times> string) list \<Rightarrow> db_manager \<Rightarrow> db_manager exec" where
  "db_lookups env [] c = Return c"
| "db_lookups env ((gorm, name) # calls) c =
     (if gorm then exec_bind (GetGormClient env name c) (\<lambda>(_, c'). db_lookups env calls c')
      else db_lookups env calls (snd (GetSqlxClient env name c)))"

lemma db_lookups_same: "gormClients c \<noteq> None \<Longrightarrow> db_lookups env calls c = Return c"
  by (induction calls) (auto simp: GetGormClient_def GetSqlxClient_def)

section \<open>Properties\<close>


text \<open>
  No call of a manager that was created ever gives an sqlx client: the lookup makes them only
  if the gorm clients do not exist, and the constructor has made those.
\<close>

theorem sqlx_client_never_available:
  assumes "db_NewClientManager env configs = Return (Inr c)" "db_lookups env calls c = Return c'"
  shows "fst (GetSqlxClient env name c') = None"
proof -
  from assms(1) obtain clients where c: "c = \<lparr>db_configs = configs, gormClients = Some clients, sqlxClients = None\<rparr>"
    by (rule db_NewClientManager_Inr)
  with assms(2) db_lookups_same [of c env calls] have "c' = c" by simp
  then show ?thesis by (simp add: c GetSqlxClient_def lookup_nilable_def)
qed

section \<open>Concrete runs\<close>

definition sample_db_env :: "unit db_env" where
  "sample_db_env = \<lparr>sprintf_other = (\<lambda>c a. ''%!''), gorm_Open = (\<lambda>_. None), gorm_Use = (\<lambda>_ _. None),
     ConnectMasterSlaves = (\<lambda>_ _. []), has_logger = True\<rparr>"

definition sample_db :: db_config where
  "sample_db = \<lparr>db_Name = ''main'', Database = ''shop'', User = ''app'', Password = ''p@ss'', Masters = [''m1:3306''], Slaves = []\<rparr>"

lemma sample_db_created:
  obtains c where "db_NewClientManager sample_db_env [sample_db] = Return (Inr c)"
proof -
  have "case db_NewClientManager sample_db_env [sample_db] of Return (Inr _) \<Rightarrow> True | _ \<Rightarrow> False" by code_simp
  then show thesis using that by (auto split: exec.splits sum.splits)
qed


theorem sqlx_client_never_available_witness:
  "\<exists>c. db_NewClientManager sample_db_env [sample_db] = Return (Inr c) \<and> fst (GetSqlxClient sample_db_env ''main'' c) = None"
proof -
  obtain c where c: "db_NewClientManager sample_db_env [sample_db] = Return (Inr c)" by (rule sample_db_created)
  from sqlx_client_never_available [OF c, of "[]" c "''main''"] c show ?thesis by auto
qed

text \<open>A percent sign in a password does not survive the second formatting.\<close>

lemma percent_in_password:
  "Sprintf other (dsn_template other gormDsn (sample_db\<lparr>Password := ''a%%b''\<rparr>)) [''m''] =
   dsn_of (sample_db\<lparr>Password := ''a%b''\<rparr>) ''m''"
  using Sprintf_one [of "''b@(''" "'')/shop?'' @ dsn_options" other "''m''"] no_percent_options
  by (simp add: dsn_template_eq dsn_of_def sample_db_def)

end
