(* ===== verification/App.thy ===== *)
theory App
  imports Middleware Health UniqueID Cache Stores
begin

text \<open>
  How an application is put together (\<open>src/appmgr\<close>: \<open>app.go\<close>, \<open>service.go\<close>,
  \<open>client.go\<close>, \<open>grpc.go\<close>, \<open>observable.go\<close>, \<open>gin.go\<close>): configuration, TLS, the
  gRPC servers and clients, the services, the observable service and \<open>Init\<close>. A server or
  connection of a library is the record of the options it is made with; whether a call out
  succeeds is part of the environment (\<open>app_env\<close>), as are the names that the health,
  channelz and reflection packages register. What \<open>Run\<close> of the application does
  afterwards is the theory \<open>AppRun\<close>.
\<close>

section \<open>Configuration\<close>

record EndpointsConfig =
  ep_Grpc :: string
  ep_Http :: string

record GrpcSecurityConfig =
  Cert :: string
  Key :: string
  Ca :: string

record ObservableConfig =
  obs_Endpoints :: EndpointsConfig
  Modules :: "string list"

record ServiceConfig =
  svc_Name :: string
  svc_Endpoints :: EndpointsConfig
  svc_Security :: GrpcSecurityConfig
  svc_Middlewares :: "go_value list"

record GrpcServerConfig =
  server_Name :: string
  server_Endpoint :: string
  server_Security :: GrpcSecurityConfig

record IDGeneratorConfig =
  ServiceID :: int
  gen_Key :: string

record AppConfig =
  app_Name :: string
  Observable :: ObservableConfig
  Services :: "ServiceConfig list"
  Jobs :: "string list"
  grpc_Middlewares :: "go_value list"
  grpc_Servers :: "GrpcServerConfig list"
  Databases :: "db_config list"
  Caches :: "cache_config list"
  Pulsars :: "pulsar_config list"
  IDGenerator :: IDGeneratorConfig

definition Resolve :: "string \<Rightarrow> GrpcSecurityConfig \<Rightarrow> GrpcSecurityConfig" where
  "Resolve configPath c = \<lparr>Cert = resolvePathInConfig configPath (Cert c),
     Key = resolvePathInConfig configPath (Key c), Ca = resolvePathInConfig configPath (Ca c)\<rparr>"

section \<open>TLS\<close>

record 'e app_env =
  mw :: "'e mw_env"
  LoadX509KeyPair :: "string \<Rightarrow> string \<Rightarrow> 'e option"
  ReadFile :: "string \<Rightarrow> 'e + string"
  AppendCertsFromPEM :: "string \<Rightarrow> bool"
  Dial_error :: "string \<Rightarrow> 'e option"
  Listen_error :: "string \<Rightarrow> 'e option"
  standard_services :: "string list"

datatype 'e tls_error =
    LoadCertKeyPairError 'e string string
  | ReadCaFileError 'e string
  | AddCaCertError string

text \<open>Key pairs and pools are named by the files they come from.\<close>

record tls_config =
  Certificates :: "(string \<times> string) list"
  RootCAs :: "string option"
  ClientCAs :: "string option"
  ServerName :: string
  RequireAndVerifyClientCert :: bool

definition plain_tls :: tls_config where
  "plain_tls = \<lparr>Certificates = [], RootCAs = None, ClientCAs = None, ServerName = [], RequireAndVerifyClientCert = False\<rparr>"

definition newTLSConfig :: "'e app_env \<Rightarrow> string \<Rightarrow> string \<Rightarrow> string \<Rightarrow> 'e tls_error + tls_config option" where
  "newTLSConfig env certFile keyFile caFile =
    (if certFile = [] \<and> keyFile = [] \<and> caFile = [] then Inr None
     else
       let with_pair =
         (if certFile \<noteq> [] \<and> keyFile \<noteq> []
          then (case LoadX509KeyPair env certFile keyFile of
              Some err \<Rightarrow> Inl (LoadCertKeyPairError err certFile keyFile)
            | None \<Rightarrow> Inr (plain_tls\<lparr>Certificates := [(certFile, keyFile)]\<rparr>))
          else Inr plain_tls)
       in case with_pair of
            Inl err \<Rightarrow> Inl err
          | Inr tlsConfig \<Rightarrow>
              if caFile \<noteq> [] then (case ReadFile env caFile of
                  Inl err \<Rightarrow> Inl (ReadCaFileError err caFile)
                | Inr ca \<Rightarrow>
                    if \<not> AppendCertsFromPEM env ca then Inl (AddCaCertError caFile)
                    else Inr (Some (tlsConfig\<lparr>RootCAs := Some caFile, ClientCAs := Some caFile\<rparr>)))
              else Inr (Some tlsConfig))"

section \<open>gRPC servers and clients\<close>

definition MaxMsgSize :: int where "MaxMsgSize = 10 * 1024 * 1024"
definition ServerConnMaxIdle :: int where "ServerConnMaxIdle = 2 ^ 63 - 1"
definition ServerConnMaxAge :: int where "ServerConnMaxAge = 2 ^ 63 - 1"
definition ServerConnMaxAgeGrace :: int where "ServerConnMaxAgeGrace = 2 ^ 63 - 1"
definition KeepaliveMinTime :: int where "KeepaliveMinTime = 10 * 10 ^ 9"
definition KeepaliveTime :: int where "KeepaliveTime = 60 * 10 ^ 9"
definition KeepaliveTimeout :: int where "KeepaliveTimeout = 20 * 10 ^ 9"

record 'svc grpc_server =
  gs_unary :: "'svc unary_server list"
  gs_stream :: "'svc stream_server list"
  MaxConnectionIdle :: int
  MaxConnectionAge :: int
  MaxConnectionAgeGrace :: int
  gs_Time :: int
  gs_Timeout :: int
  MinTime :: int
  PermitWithoutStream :: bool
  MaxSendMsgSize :: int
  MaxRecvMsgSize :: int
  Creds :: "tls_config option"

text \<open>The in-process channel: its interceptors.\<close>

type_synonym 'svc grpc_channel = "'svc unary_server list \<times> 'svc stream_server list"

definition newGrpcServerWithChannel ::
  "tls_config option \<Rightarrow> 'svc middlewareApplier \<Rightarrow> ('svc grpc_server \<times> 'svc grpc_channel) exec" where
  "newGrpcServerWithChannel tlsConfig mws =
     exec_bind (applier_GrpcServerInterceptor mws) (\<lambda>(chainUnary, chainStream). Return
       (\<lparr>gs_unary = chainUnary, gs_stream = chainStream, MaxConnectionIdle = ServerConnMaxIdle,
         MaxConnectionAge = ServerConnMaxAge, MaxConnectionAgeGrace = ServerConnMaxAgeGrace,
         gs_Time = KeepaliveTime, gs_Timeout = KeepaliveTimeout, MinTime = KeepaliveMinTime,
         PermitWithoutStream = True, MaxSendMsgSize = MaxMsgSize, MaxRecvMsgSize = MaxMsgSize,
         Creds = map_option (\<lambda>c. c\<lparr>RequireAndVerifyClientCert := True\<rparr>) tlsConfig\<rparr>,
        (chainUnary, chainStream)))"

record grpc_conn =
  conn_endpoint :: string
  conn_tls :: "tls_config option"
  conn_service_config :: string
  conn_unary :: "unary_client list"
  conn_stream :: "stream_client list"
  conn_Time :: int
  conn_Timeout :: int
  conn_PermitWithoutStream :: bool
  MaxCallSendMsgSize :: int
  MaxCallRecvMsgSize :: int

definition service_config :: string where
  "service_config = [CHR ''{'', CHR 0x22] @ ''loadBalancingPolicy'' @ [CHR 0x22, CHR '':'', CHR 0x22] @ ''round_robin'' @ [CHR 0x22, CHR ''}'']"

text \<open>\<open>None\<close> is the nil connection.\<close>

definition newGrpcClient ::
  "'e app_env \<Rightarrow> string \<Rightarrow> string \<Rightarrow> tls_config option \<Rightarrow> 'svc middlewareApplier \<Rightarrow> grpc_conn option" where
  "newGrpcClient env name endpoint tlsConfig mws =
    (let creds = map_option (\<lambda>c. c\<lparr>ServerName := name\<rparr>) tlsConfig;
         (chainUnary, chainStream) = applier_GrpcClientInterceptor mws
     in case Dial_error env endpoint of
          Some err \<Rightarrow> None
        | None \<Rightarrow> Some \<lparr>conn_endpoint = endpoint, conn_tls = creds, conn_service_config = service_config,
            conn_unary = chainUnary, conn_stream = chainStream, conn_Time = KeepaliveTime,
            conn_Timeout = KeepaliveTimeout, conn_PermitWithoutStream = True,
            MaxCallSendMsgSize = MaxMsgSize, MaxCallRecvMsgSize = MaxMsgSize\<rparr>)"

section \<open>The client manager\<close>

record 'svc clientManager =
  cm_middlewares :: "'svc middlewareApplier"
  grpcClients :: "string \<rightharpoonup> grpc_conn option list"

definition server_clients ::
  "'e app_env \<Rightarrow> 'svc middlewareApplier \<Rightarrow> GrpcServerConfig \<Rightarrow> 'e tls_error + grpc_conn option list" where
  "server_clients env mws server =
    (let securityConfig = Resolve (ConfigFileUsed (mw env)) (server_Security server)
     in case newTLSConfig env (Cert securityConfig) (Key securityConfig) (Ca securityConfig) of
          Inl err \<Rightarrow> Inl err
        | Inr tlsConfig \<Rightarrow> Inr (map (\<lambda>endpoint. newGrpcClient env (server_Name server) endpoint tlsConfig mws)
            (Split (CHR '','') (server_Endpoint server))))"

fun clients_loop ::
  "'e app_env \<Rightarrow> 'svc clientManager \<Rightarrow> GrpcServerConfig list \<Rightarrow> 'e tls_error + 'svc clientManager" where
  "clients_loop env c [] = Inr c"
| "clients_loop env c (server # servers) = (case server_clients env (cm_middlewares c) server of
      Inl err \<Rightarrow> Inl err
    | Inr clients \<Rightarrow> clients_loop env (c\<lparr>grpcClients := (grpcClients c)(server_Name server \<mapsto> clients)\<rparr>) servers)"

definition newClientManager ::
  "'e app_env \<Rightarrow> 'svc middlewareManager \<Rightarrow> AppConfig \<Rightarrow> ('e tls_error + 'svc clientManager) exec" where
  "newClientManager env mm config =
     exec_bind (Apply (mw env) mm None (grpc_Middlewares config)) (\<lambda>(ma, logged).
       Return (clients_loop env \<lparr>cm_middlewares = ma, grpcClients = Map.empty\<rparr> (grpc_Servers config)))"

definition GetGrpcClientConn :: "'svc clientManager \<Rightarrow> string \<Rightarrow> grpc_conn option" where
  "GetGrpcClientConn c name = (case grpcClients c name of
      None \<Rightarrow> None | Some [] \<Rightarrow> None | Some (client # _) \<Rightarrow> client)"

definition GetGrpcClientConns :: "'svc clientManager \<Rightarrow> string \<Rightarrow> grpc_conn option list" where
  "GetGrpcClientConns c name = (case grpcClients c name of None \<Rightarrow> [] | Some clients \<Rightarrow> clients)"

section \<open>Services\<close>

definition newGinEngin :: "'svc middlewareApplier \<Rightarrow> 'svc gin_handler list" where
  "newGinEngin mws = ApplyGin mws []"

record ('e, 'svc) service =
  sv_name :: string
  sv_middlewares :: "'svc middlewareApplier"
  grpcEndpoint :: string
  grpcServer :: "'svc grpc_server option"
  grpcRegistrar :: "string list option"
  httpEndpoint :: string
  ginEngine :: "'svc gin_handler list option"
  grpcChannel :: "'svc grpc_channel option"
  grpcHttpMux :: bool
  healthRunner :: "'e runner"

text \<open>\<open>self\<close> is the pointer to the new service, which its middlewares keep.\<close>

definition service_grpc_part ::
  "'e app_env \<Rightarrow> 'svc middlewareApplier \<Rightarrow> ServiceConfig \<Rightarrow> ('e, 'svc) service \<Rightarrow> ('e tls_error + ('e, 'svc) service) exec" where
  "service_grpc_part env ma config s =
    (if ep_Grpc (svc_Endpoints config) \<noteq> [] then
       let security = Resolve (ConfigFileUsed (mw env)) (svc_Security config)
       in case newTLSConfig env (Cert security) (Key security) (Ca security) of
            Inl err \<Rightarrow> Return (Inl err)
          | Inr tlsConfig \<Rightarrow> exec_bind (newGrpcServerWithChannel tlsConfig ma) (\<lambda>(server, channel).
              Return (Inr (s\<lparr>grpcEndpoint := ep_Grpc (svc_Endpoints config), grpcServer := Some server,
                grpcChannel := Some channel, grpcRegistrar := Some []\<rparr>)))
     else Return (Inr s))"

definition service_http_part ::
  "'svc middlewareApplier \<Rightarrow> ServiceConfig \<Rightarrow> ('e, 'svc) service \<Rightarrow> ('e, 'svc) service" where
  "service_http_part ma config s =
    (if ep_Http (svc_Endpoints config) \<noteq> []
     then s\<lparr>httpEndpoint := ep_Http (svc_Endpoints config), ginEngine := Some (newGinEngin ma),
       grpcHttpMux := (ep_Grpc (svc_Endpoints config) \<noteq> [])\<rparr>
     else s)"

definition newService ::
  "'e app_env \<Rightarrow> 'svc \<Rightarrow> 'svc middlewareManager \<Rightarrow> ServiceConfig \<Rightarrow> ('e tls_error + ('e, 'svc) service) exec" where
  "newService env self mm config =
    exec_bind (Apply (mw env) mm (Some self) (svc_Middlewares config)) (\<lambda>(ma, logged).
    exec_bind (service_grpc_part env ma config
        \<lparr>sv_name = svc_Name config, sv_middlewares = ma, grpcEndpoint = [], grpcServer = None, grpcRegistrar = None,
         httpEndpoint = [], ginEngine = None, grpcChannel = None, grpcHttpMux = False,
         healthRunner = NewRunner [WithName (svc_Name config)]\<rparr>)
      (\<lambda>r. Return (case r of Inl err \<Rightarrow> Inl err | Inr s \<Rightarrow> Inr (service_http_part ma config s))))"

text \<open>A registered implementation with a health check is added to the runner.\<close>

definition RegisterService :: "string \<Rightarrow> bool \<Rightarrow> ('e, 'svc) service \<Rightarrow> ('e, 'svc) service" where
  "RegisterService ServiceName is_checker s = (case grpcRegistrar s of
      None \<Rightarrow> s
    | Some services \<Rightarrow>
        (let s = (if is_checker then s\<lparr>healthRunner := AddCheck ServiceName (healthRunner s)\<rparr> else s)
         in s\<lparr>grpcRegistrar := Some (services @ [ServiceName])\<rparr>))"

definition AddHealthCheck :: "string \<Rightarrow> ('e, 'svc) service \<Rightarrow> ('e, 'svc) service" where
  "AddHealthCheck name s = s\<lparr>healthRunner := AddCheck name (healthRunner s)\<rparr>"

text \<open>
  \<open>Run\<close> of a service: what it starts, in order, its error, and the count of the wait
  group. The goroutine of a server counts the group down when it ends; a server that cannot listen
  has none.
\<close>

datatype service_effect =
    RegisterHealthServer | RegisterChannelz | RegisterReflection
  | RegisterInServer "string list" | RegisterInChannel "string list" | RegisterMetrics
  | ServeGrpc string | RegisterHealthHandler | ServeHttp string

datatype 'e service_error = InitHealthCheckFailed int "'e option" string | ListenError 'e

definition serve_grpc_part ::
  "'e app_env \<Rightarrow> ('e, 'svc) service \<Rightarrow> service_effect list \<times> nat \<times> 'e service_error option" where
  "serve_grpc_part env s = (case grpcServer s of
      None \<Rightarrow> ([], 0, None)
    | Some server \<Rightarrow>
        (let names = (case grpcRegistrar s of None \<Rightarrow> [] | Some ns \<Rightarrow> ns)
              @ standard_services env;
             effects = [RegisterHealthServer, RegisterChannelz, RegisterReflection, RegisterInServer names]
               @ (if grpcChannel s \<noteq> None then [RegisterInChannel names] else [])
               @ (if IsMiddlewareEnabled ''metrics'' (sv_middlewares s) then [RegisterMetrics] else [])
         in case Listen_error env (grpcEndpoint s) of
              Some err \<Rightarrow> (effects, 1, Some (ListenError err))
            | None \<Rightarrow> (effects @ [ServeGrpc (grpcEndpoint s)], 1, None)))"

definition serve_http_part ::
  "'e app_env \<Rightarrow> ('e, 'svc) service \<Rightarrow> service_effect list \<times> nat \<times> 'e service_error option" where
  "serve_http_part env s = (if ginEngine s = None then ([], 0, None)
     else
       let effects = (if grpcServer s \<noteq> None then [RegisterHealthHandler] else [])
       in case Listen_error env (httpEndpoint s) of
            Some err \<Rightarrow> (effects, 1, Some (ListenError err))
          | None \<Rightarrow> (effects @ [ServeHttp (httpEndpoint s)], 1, None))"

definition service_Run ::
  "'e app_env \<Rightarrow> 'e Status \<Rightarrow> ('e, 'svc) service \<Rightarrow> service_effect list \<times> nat \<times> 'e service_error option" where
  "service_Run env status s =
    (if State status \<noteq> StateHealthy
     then ([], 0, Some (InitHealthCheckFailed (State status) (Error status) (Source status)))
     else case serve_grpc_part env s of
       (effects, n, Some err) \<Rightarrow> (effects, n, Some err)
     | (effects, n, None) \<Rightarrow> (case serve_http_part env s of
         (effects', n', err) \<Rightarrow> (effects @ effects', n + n', err)))"

text \<open>
  \<open>GetGrpcChannelClient\<close> returns the channel pointer as an interface value, which is not the
  nil interface even if the pointer is nil.
\<close>

datatype 'a interface_value = NilInterface | Pointer "'a option"

definition GetGrpcChannelClient :: "('e, 'svc) service \<Rightarrow> 'svc grpc_channel interface_value" where
  "GetGrpcChannelClient s = Pointer (grpcChannel s)"

section \<open>The observable service\<close>

text \<open>The services in the order the map is ranged over.\<close>

record ('e, 'svc) observable =
  o_config :: ObservableConfig
  o_services :: "('e, 'svc) service list"
  o_httpEndpoint :: string
  o_ginEngine :: "'svc gin_handler list"

definition newObservable ::
  "'e app_env \<Rightarrow> 'svc middlewareManager \<Rightarrow> ObservableConfig \<Rightarrow> ('e, 'svc) service list \<Rightarrow> ('e, 'svc) observable exec" where
  "newObservable env mm config services =
     exec_bind (Apply (mw env) mm None [VString ''recovery'']) (\<lambda>(ma, logged). Return
       \<lparr>o_config = config, o_services = services, o_httpEndpoint = ep_Http (obs_Endpoints config), o_ginEngine = newGinEngin ma\<rparr>)"

datatype 'svc obs_effect =
    PprofRoutes | MetricsRoutes | SwaggerRoutes | ChannelzRoutes string
  | GrpcuiRoutes string "'svc grpc_channel option" | UnknownModule string

definition local_endpoint :: "string \<Rightarrow> string" where
  "local_endpoint e0 =
    (let e1 = (if HasPrefix e0 '':'' then ''127.0.0.1'' @ e0 else e0)
     in if HasPrefix e1 ''0.0.0.0:'' then ''127.0.0.1:'' @ drop 8 e1 else e1)"

fun channelzModule :: "('e, 'svc) service list \<Rightarrow> 'svc obs_effect list" where
  "channelzModule [] = []"
| "channelzModule (s # ss) =
     (if grpcEndpoint s \<noteq> [] then [ChannelzRoutes (local_endpoint (grpcEndpoint s))] else channelzModule ss)"

fun grpcuiModule :: "('e, 'svc) service list \<Rightarrow> 'svc obs_effect list" where
  "grpcuiModule [] = []"
| "grpcuiModule (s # ss) = (case GetGrpcChannelClient s of
      NilInterface \<Rightarrow> grpcuiModule ss
    | Pointer c \<Rightarrow> [GrpcuiRoutes (grpcEndpoint s) c])"

definition moduleMap :: "string \<Rightarrow> (('e, 'svc) service list \<Rightarrow> 'svc obs_effect list) option" where
  "moduleMap name = map_of
    [(''pprof'', \<lambda>_. [PprofRoutes]), (''metrics'', \<lambda>_. [MetricsRoutes]), (''swagger'', \<lambda>_. [SwaggerRoutes]),
     (''channelz'', channelzModule), (''grpcui'', grpcuiModule)] name"

definition observable_Run ::
  "'e app_env \<Rightarrow> ('e, 'svc) observable \<Rightarrow> 'svc obs_effect list \<times> 'e option" where
  "observable_Run env obs =
     (concat (map (\<lambda>name. case moduleMap (ToLower name) of
          Some module \<Rightarrow> module (o_services obs) | None \<Rightarrow> [UnknownModule name]) (Modules (o_config obs))),
      Listen_error env (o_httpEndpoint obs))"

definition regularizeGinMsg :: "string \<Rightarrow> string" where
  "regularizeGinMsg s = (if HasSuffix s [CHR 0x0A] then take (length s - 1) s else s)"

section \<open>Init\<close>

text \<open>
  What \<open>Init\<close> needs besides: whether the command line asks to run at all, viper with its
  state, the validator, and what the store managers and the ID generator call.
\<close>

record ('s, 'e) init_env =
  cmd_runs :: bool
  viper_api :: "('s, AppConfig, 'e) viper"
  viper_GetBool :: "'s \<Rightarrow> string \<Rightarrow> bool"
  validate_app :: "AppConfig dest \<Rightarrow> 'e option"
  databases_env :: "'e db_env"
  GOMAXPROCS :: int
  pulsar_connect :: "pulsar_options \<Rightarrow> 'e option"
  hex_DecodeString :: "string \<Rightarrow> 'e + byte list"
  xtea_NewCipher :: "byte list \<Rightarrow> 'e + block_cipher"
  os_Hostname :: "'e + string"

record ('e, 'svc) app =
  a_config :: "AppConfig"
  a_middlewares :: "'svc middlewareManager"
  a_jobs :: "string list"
  a_services :: "(string \<times> ('e, 'svc) service) list"
  a_observable :: "('e, 'svc) observable option"
  a_clients :: "'svc clientManager option"
  a_databases :: "db_manager option"
  a_caches :: "(string \<rightharpoonup> redis_options) option"
  a_pulsars :: "(string \<rightharpoonup> pulsar_options) option"
  a_idGenerator :: "generator option"

definition NewApp :: "'e mw_env \<Rightarrow> AppConfig \<Rightarrow> ('e, 'svc) app" where
  "NewApp env config = \<lparr>a_config = config, a_middlewares = newDefaultMiddlewareManager env, a_jobs = [],
     a_services = [], a_observable = None, a_clients = None, a_databases = None, a_caches = None, a_pulsars = None,
     a_idGenerator = None\<rparr>"

definition app_RegisterMiddleware ::
  "string \<Rightarrow> 'svc Middleware option \<Rightarrow> ('e, 'svc) app \<Rightarrow> ('e, 'svc) app" where
  "app_RegisterMiddleware name m a = a\<lparr>a_middlewares := RegisterMiddleware name m (a_middlewares a)\<rparr>"

text \<open>A second job of one name replaces the first and is reported.\<close>

definition AddJob :: "string \<Rightarrow> ('e, 'svc) app \<Rightarrow> bool \<times> ('e, 'svc) app" where
  "AddJob name a = (name \<in> set (a_jobs a), a\<lparr>a_jobs := (if name \<in> set (a_jobs a) then a_jobs a else a_jobs a @ [name])\<rparr>)"

definition GetService :: "('e, 'svc) app \<Rightarrow> string \<Rightarrow> ('e, 'svc) service option" where
  "GetService a name = map_of (a_services a) name"

text \<open>The managers are nil interfaces until \<open>Init\<close> has set them; a call on one panics.\<close>

definition on_manager :: "'m option \<Rightarrow> ('m \<Rightarrow> 'a exec) \<Rightarrow> 'a exec" where
  [go_defs]: "on_manager m f = (case m of None \<Rightarrow> Panic NilDereference | Some manager \<Rightarrow> f manager)"

definition app_GetGrpcClientConn :: "('e, 'svc) app \<Rightarrow> string \<Rightarrow> grpc_conn option exec" where
  "app_GetGrpcClientConn a name = on_manager (a_clients a) (\<lambda>c. Return (GetGrpcClientConn c name))"

definition app_GetGrpcClientConns :: "('e, 'svc) app \<Rightarrow> string \<Rightarrow> grpc_conn option list exec" where
  "app_GetGrpcClientConns a name = on_manager (a_clients a) (\<lambda>c. Return (GetGrpcClientConns c name))"

definition GetDatabaseClient :: "'e db_env \<Rightarrow> ('e, 'svc) app \<Rightarrow> string \<Rightarrow> (gorm_db option \<times> db_manager) exec" where
  "GetDatabaseClient env a name = on_manager (a_databases a) (db_GetClient env name)"

definition GetDatabaseSqlxClient :: "'e db_env \<Rightarrow> ('e, 'svc) app \<Rightarrow> string \<Rightarrow> (sqlx_db option \<times> db_manager) exec" where
  "GetDatabaseSqlxClient env a name = on_manager (a_databases a) (\<lambda>m. Return (GetSqlxClient env name m))"

definition GetCacheClient :: "('e, 'svc) app \<Rightarrow> string \<Rightarrow> redis_options option exec" where
  "GetCacheClient a name = on_manager (a_caches a) (\<lambda>m. Return (cache_GetClient m name))"

definition GetPulsarClient :: "('e, 'svc) app \<Rightarrow> string \<Rightarrow> pulsar_options option exec" where
  "GetPulsarClient a name = on_manager (a_pulsars a) (\<lambda>m. Return (pulsar_GetClient m name))"

definition GetIDGenerator :: "('e, 'svc) app \<Rightarrow> generator option" where
  "GetIDGenerator a = a_idGenerator a"

text \<open>A stage that fails ends the process with its message.\<close>

definition or_exit :: "string \<Rightarrow> 'x + 'a \<Rightarrow> 'a exec" where
  [go_defs]: "or_exit msg r = (case r of Inl _ \<Rightarrow> Panic (ProcessExit msg) | Inr x \<Rightarrow> Return x)"

definition check_or_exit :: "string \<Rightarrow> 'x option \<Rightarrow> unit exec" where
  [go_defs]: "check_or_exit msg e = (case e of Some _ \<Rightarrow> Panic (ProcessExit msg) | None \<Rightarrow> Return ())"

definition select_job :: "string \<Rightarrow> AppConfig \<Rightarrow> AppConfig" where
  "select_job runJob config = (if runJob \<noteq> [] then config\<lparr>Jobs := [runJob], Services := []\<rparr> else config)"

definition init_generator :: "('s, 'e) init_env \<Rightarrow> 's \<Rightarrow> IDGeneratorConfig \<Rightarrow> generator option exec" where
  "init_generator ie s c =
    (if gen_Key c \<noteq> [] then
       exec_bind (or_exit ''Parse ID Encrypt Key Error'' (hex_DecodeString ie (gen_Key c))) (\<lambda>key.
       exec_bind (or_exit ''Init ID Generator Error''
           (NewGeneratorFromHostName (xtea_NewCipher ie) (os_Hostname ie) key (ServiceID c) (viper_GetBool ie s ''debug'')))
         (\<lambda>g. Return (Some g)))
     else Return None)"

text \<open>\<open>selfs\<close> are the pointers of the new services; a service replaces one of its name.\<close>

fun init_services ::
  "'e app_env \<Rightarrow> 'svc middlewareManager \<Rightarrow> (string \<Rightarrow> 'svc) \<Rightarrow> ServiceConfig list \<Rightarrow> (string \<times> ('e, 'svc) service) list \<Rightarrow>
     (string \<times> ('e, 'svc) service) list exec" where
  "init_services env mm selfs [] services = Return services"
| "init_services env mm selfs (c # cs) services =
     exec_bind (newService env (selfs (svc_Name c)) mm c) (\<lambda>r.
     exec_bind (or_exit ''Init Service Error'' r) (\<lambda>sv.
       init_services env mm selfs cs (AList.update (svc_Name c) sv services)))"

definition init_caches :: "('s, 'e) init_env \<Rightarrow> AppConfig \<Rightarrow> (string \<rightharpoonup> redis_options) exec" where
  "init_caches ie config = or_exit ''Init Caches Error''
     (cache_NewClientManager (GOMAXPROCS ie) (Caches config) :: 'e go_error + (string \<rightharpoonup> redis_options))"

definition Init ::
  "'e app_env \<Rightarrow> ('s, 'e) init_env \<Rightarrow> (string \<Rightarrow> 'svc) \<Rightarrow> 's \<Rightarrow> ('e, 'svc) app \<Rightarrow> ('e, 'svc) app exec" where
  "Init env ie selfs s0 a =
    (if \<not> cmd_runs ie then Panic (ProcessExit [])
     else case InitConfig (viper_api ie) s0 of (err, s) \<Rightarrow>
       exec_bind (check_or_exit ''Init Config Error'' err) (\<lambda>_.
       case config_GetStructWithValidation (viper_api ie) (validate_app ie) s ''app'' (PointerTo (a_config a)) of (err, d) \<Rightarrow>
       exec_bind (check_or_exit ''Parse App Config Error'' err) (\<lambda>_.
       let config = select_job (v_GetString (viper_api ie) s ''job'') (case d of PointerTo c \<Rightarrow> c | _ \<Rightarrow> a_config a) in
       exec_bind (newClientManager env (a_middlewares a) config) (\<lambda>r.
       exec_bind (or_exit ''Init Clients Error'' r) (\<lambda>clients.
       exec_bind (db_NewClientManager (databases_env ie) (Databases config)) (\<lambda>r.
       exec_bind (or_exit ''Init Databases Error'' r) (\<lambda>databases.
       exec_bind (init_caches ie config) (\<lambda>caches.
       exec_bind (or_exit ''Init Pulsars Error'' (pulsar_NewClientManager (pulsar_connect ie) True (Pulsars config))) (\<lambda>pulsars.
       exec_bind (init_generator ie s (IDGenerator config)) (\<lambda>g.
       exec_bind (init_services env (a_middlewares a) selfs (Services config) (a_services a)) (\<lambda>services.
       exec_bind (newObservable env (a_middlewares a) (Observable config) (map snd services)) (\<lambda>obs.
         Return (a\<lparr>a_config := config, a_clients := Some clients, a_idGenerator := g, a_services := services,
           a_databases := Some databases, a_caches := Some caches, a_pulsars := Some pulsars, a_observable := Some obs\<rparr>)))))))))))))"

section \<open>Lemmas\<close>

lemma resolve_empty [simp]: "resolvePathInConfig configPath p = [] \<longleftrightarrow> p = []"
  by (simp add: resolvePathInConfig_def path_Join_def path_Dir_def)

lemma Resolve_simps [simp]:
  "Cert (Resolve p c) = resolvePathInConfig p (Cert c)" "Key (Resolve p c) = resolvePathInConfig p (Key c)"
  "Ca (Resolve p c) = resolvePathInConfig p (Ca c)"
  by (simp_all add: Resolve_def)

lemma newTLSConfig_None:
  "newTLSConfig env cert key ca = Inr c \<Longrightarrow> c = None \<longleftrightarrow> cert = [] \<and> key = [] \<and> ca = []"
  by (auto simp: newTLSConfig_def Let_def split: if_splits sum.splits option.splits)

lemma newGrpcServer_creds:
  "newGrpcServerWithChannel tls mws = Return (server, channel) \<Longrightarrow>
     Creds server = map_option (\<lambda>c. c\<lparr>RequireAndVerifyClientCert := True\<rparr>) tls
     \<and> channel = (gs_unary server, gs_stream server)
     \<and> applier_GrpcServerInterceptor mws = Return (gs_unary server, gs_stream server)"
  by (auto simp: newGrpcServerWithChannel_def)

text \<open>What a new service has.\<close>

definition service_tls :: "'e app_env \<Rightarrow> ServiceConfig \<Rightarrow> 'e tls_error + tls_config option" where
  "service_tls env config =
    (let p = ConfigFileUsed (mw env); c = svc_Security config
     in newTLSConfig env (resolvePathInConfig p (Cert c)) (resolvePathInConfig p (Key c)) (resolvePathInConfig p (Ca c)))"

lemma service_tls_None:
  assumes "service_tls env config = Inr tls"
  shows "tls = None \<longleftrightarrow> svc_Security config = \<lparr>Cert = [], Key = [], Ca = []\<rparr>"
  using newTLSConfig_None [OF assms [unfolded service_tls_def Let_def]]
  by (cases "svc_Security config") simp

lemma newService_parts:
  assumes "newService env self mm config = Return (Inr s)"
  obtains ma logged where "Apply (mw env) mm (Some self) (svc_Middlewares config) = Return (ma, logged)"
    "sv_middlewares s = ma" "sv_name s = svc_Name config"
    "grpcEndpoint s = ep_Grpc (svc_Endpoints config)" "httpEndpoint s = ep_Http (svc_Endpoints config)"
    "ginEngine s = (if httpEndpoint s = [] then None else Some (ApplyGin ma []))"
    "grpcHttpMux s \<longleftrightarrow> grpcEndpoint s \<noteq> [] \<and> httpEndpoint s \<noteq> []"
    "if grpcEndpoint s = [] then grpcServer s = None \<and> grpcChannel s = None \<and> grpcRegistrar s = None
     else (\<exists>tls server. grpcServer s = Some server \<and> grpcChannel s = Some (gs_unary server, gs_stream server)
       \<and> grpcRegistrar s = Some [] \<and> applier_GrpcServerInterceptor ma = Return (gs_unary server, gs_stream server)
       \<and> Creds server = map_option (\<lambda>c. c\<lparr>RequireAndVerifyClientCert := True\<rparr>) tls
       \<and> service_tls env config = Inr tls)"
proof -
  define blank :: "'b middlewareApplier \<Rightarrow> ('a, 'b) service" where "blank ma = \<lparr>sv_name = svc_Name config, sv_middlewares = ma, grpcEndpoint = [],
        grpcServer = None, grpcRegistrar = None, httpEndpoint = [], ginEngine = None, grpcChannel = None,
        grpcHttpMux = False, healthRunner = NewRunner [WithName (svc_Name config)]\<rparr>" for ma
  from assms obtain ma logged r where ma: "Apply (mw env) mm (Some self) (svc_Middlewares config) = Return (ma, logged)"
    and r: "service_grpc_part env ma config (blank ma) = Return r"
    and rs: "(case r of Inl err \<Rightarrow> Inl err | Inr s \<Rightarrow> Inr (service_http_part ma config s)) = Inr s"
    by (auto simp: newService_def blank_def)
  from rs obtain s0 where s0: "service_grpc_part env ma config (blank ma) = Return (Inr s0)"
    and s: "s = service_http_part ma config s0"
    using r by (cases r) auto
  show thesis
  proof (cases "ep_Grpc (svc_Endpoints config) = []")
    case True
    with s0 s show thesis
      by (intro that [OF ma]) (auto simp: service_grpc_part_def service_http_part_def newGinEngin_def blank_def)
  next
    case False
    with s0 obtain tls server where "service_tls env config = Inr tls"
      "newGrpcServerWithChannel tls ma = Return (server, gs_unary server, gs_stream server)"
      and s0: "s0 = (blank ma)\<lparr>grpcEndpoint := ep_Grpc (svc_Endpoints config), grpcServer := Some server,
        grpcChannel := Some (gs_unary server, gs_stream server), grpcRegistrar := Some []\<rparr>"
      by (auto simp: service_grpc_part_def service_tls_def Let_def dest: newGrpcServer_creds split: sum.splits prod.splits)
    with newGrpcServer_creds [OF this(2)] False s show thesis
      by (intro that [OF ma]) (auto simp: service_http_part_def newGinEngin_def blank_def)
  qed
qed

lemma newService_server:
  assumes "newService env self mm config = Return (Inr s)" "ep_Grpc (svc_Endpoints config) \<noteq> []"
  shows "\<exists>tls server. grpcServer s = Some server \<and> grpcChannel s = Some (gs_unary server, gs_stream server)
    \<and> Creds server = map_option (\<lambda>c. c\<lparr>RequireAndVerifyClientCert := True\<rparr>) tls \<and> service_tls env config = Inr tls"
  by (rule newService_parts [OF assms(1)]) (use assms(2) in \<open>simp, blast\<close>)

lemma clients_loop_lookup:
  "clients_loop env c servers = Inr c' \<Longrightarrow> cm_middlewares c' = cm_middlewares c \<and>
     grpcClients c' name = (case find (\<lambda>sv. server_Name sv = name) (rev servers) of
       None \<Rightarrow> grpcClients c name
     | Some sv \<Rightarrow> (case server_clients env (cm_middlewares c) sv of Inl _ \<Rightarrow> None | Inr cs \<Rightarrow> Some cs))"
proof (induction servers arbitrary: c)
  case (Cons sv servers)
  then obtain cs where "server_clients env (cm_middlewares c) sv = Inr cs"
    "clients_loop env (c\<lparr>grpcClients := (grpcClients c)(server_Name sv \<mapsto> cs)\<rparr>) servers = Inr c'"
    by (auto split: sum.splits)
  with Cons.IH [OF this(2)] show ?case by (auto simp: find_append split: option.splits)
qed simp

lemma server_clients_Inr:
  "server_clients env ma sv = Inr cs \<Longrightarrow> \<exists>tls.
     newTLSConfig env (resolvePathInConfig (ConfigFileUsed (mw env)) (Cert (server_Security sv)))
       (resolvePathInConfig (ConfigFileUsed (mw env)) (Key (server_Security sv)))
       (resolvePathInConfig (ConfigFileUsed (mw env)) (Ca (server_Security sv))) = Inr tls
     \<and> cs = map (\<lambda>e. newGrpcClient env (server_Name sv) e tls ma) (Split (CHR '','') (server_Endpoint sv))"
  by (auto simp: server_clients_def Let_def split: sum.splits)

lemma clients_loop_ok:
  "clients_loop env c servers = Inr c' \<Longrightarrow> sv \<in> set servers \<Longrightarrow> \<exists>cs. server_clients env (cm_middlewares c) sv = Inr cs"
proof (induction servers arbitrary: c)
  case (Cons x servers)
  then obtain cs where x: "server_clients env (cm_middlewares c) x = Inr cs"
    and rest: "clients_loop env (c\<lparr>grpcClients := (grpcClients c)(server_Name x \<mapsto> cs)\<rparr>) servers = Inr c'"
    by (auto split: sum.splits)
  from Cons.IH [OF rest] Cons.prems(2) x show ?case by auto
qed simp

lemma GetGrpcClientConn_hd:
  "GetGrpcClientConn c name = (case GetGrpcClientConns c name of [] \<Rightarrow> None | x # _ \<Rightarrow> x)"
  by (simp add: GetGrpcClientConn_def GetGrpcClientConns_def split: option.splits list.splits)

definition is_server :: "service_effect \<Rightarrow> bool" where
  "is_server e \<longleftrightarrow> (case e of ServeGrpc _ \<Rightarrow> True | ServeHttp _ \<Rightarrow> True | _ \<Rightarrow> False)"

definition listen_failed :: "'e service_error option \<Rightarrow> nat" where
  "listen_failed err = (case err of Some (ListenError _) \<Rightarrow> 1 | _ \<Rightarrow> 0)"

lemma serve_parts_count:
  "serve_grpc_part env s = (effects, n, err) \<Longrightarrow> n = length (filter is_server effects) + listen_failed err"
  "serve_http_part env s = (effects, n, err) \<Longrightarrow> n = length (filter is_server effects) + listen_failed err"
  by (auto simp: serve_grpc_part_def serve_http_part_def Let_def is_server_def listen_failed_def
      split: option.splits if_splits)

section \<open>Properties\<close>

text \<open>
  Transport security of a service: its gRPC server has no TLS only if neither certificate,
  key nor CA are configured, and with TLS it demands and verifies a client certificate. The
  in-process channel runs the interceptors of the server.
\<close>

theorem service_demands_client_certificate:
  assumes "newService env self mm config = Return (Inr s)" "ep_Grpc (svc_Endpoints config) \<noteq> []"
  shows "case grpcServer s of None \<Rightarrow> False
    | Some server \<Rightarrow> grpcChannel s = Some (gs_unary server, gs_stream server)
      \<and> (case Creds server of
           None \<Rightarrow> svc_Security config = \<lparr>Cert = [], Key = [], Ca = []\<rparr>
         | Some c \<Rightarrow> RequireAndVerifyClientCert c \<and> svc_Security config \<noteq> \<lparr>Cert = [], Key = [], Ca = []\<rparr>)"
proof -
  from newService_server [OF assms] obtain tls server where "grpcServer s = Some server"
    "grpcChannel s = Some (gs_unary server, gs_stream server)"
    "Creds server = map_option (\<lambda>c. c\<lparr>RequireAndVerifyClientCert := True\<rparr>) tls" "service_tls env config = Inr tls"
    by blast
  with service_tls_None [of env config tls] show ?thesis
    by (cases tls) auto
qed

text \<open>
  \<open>Run\<close> of a service starts nothing unless its first health check is healthy. The count
  of its wait group is the number of servers it started, plus one if the last could not listen: waiting
  on it would never end then.
\<close>

theorem service_Run_wait_count:
  assumes "service_Run env status s = (effects, n, err)"
  shows "n = length (filter is_server effects) + listen_failed err
    \<and> (if State status = StateHealthy then True else effects = [] \<and> n = 0 \<and> err \<noteq> None)"
  using assms serve_parts_count [of env s]
  by (auto simp: service_Run_def listen_failed_def split: if_splits prod.splits option.splits)

definition has_service :: "'e app_env \<Rightarrow> 'svc middlewareManager \<Rightarrow> (string \<Rightarrow> 'svc) \<Rightarrow> ServiceConfig list \<Rightarrow> string \<Rightarrow>
     ('e, 'svc) service \<Rightarrow> bool" where
  "has_service env mm selfs cs name s \<longleftrightarrow>
     (\<exists>c \<in> set cs. svc_Name c = name \<and> newService env (selfs name) mm c = Return (Inr s))"

lemma or_exit_Return [simp]: "or_exit msg r = Return x \<longleftrightarrow> r = Inr x"
  by (cases r) (auto simp: or_exit_def)

lemma init_services_lookup:
  assumes "init_services env mm selfs cs services = Return services'" "map_of services' name = Some s"
  shows "has_service env mm selfs cs name s \<or> map_of services name = Some s"
  using assms
proof (induction cs arbitrary: services)
  case (Cons c cs)
  from Cons.prems(1) obtain sv where sv: "newService env (selfs (svc_Name c)) mm c = Return (Inr sv)"
    and rest: "init_services env mm selfs cs (AList.update (svc_Name c) sv services) = Return services'"
    by auto
  from Cons.IH [OF rest Cons.prems(2)] sv show ?case
    by (auto simp: update_conv' has_service_def split: if_splits)
qed simp

lemma Init_services:
  assumes "Init env ie selfs s0 a0 = Return a" "a_services a0 = []" "GetService a name = Some s"
  shows "has_service env (a_middlewares a0) selfs (Services (a_config a)) name s"
proof -
  from assms(1) have "init_services env (a_middlewares a0) selfs (Services (a_config a)) (a_services a0) = Return (a_services a)"
    by (auto simp: Init_def Let_def split: prod.splits if_splits)
  from init_services_lookup [OF this] assms(2,3) show ?thesis by (simp add: GetService_def)
qed

text \<open>
  C21. Transport security of an initialised application: a service it knows by a name was made
  of a configuration of that name. With a gRPC endpoint, its server has no TLS only if neither
  certificate, key nor CA are configured, and with TLS it demands and verifies a client certificate;
  the in-process channel runs the interceptors of the server.
\<close>

theorem app_services_demand_certificates:
  assumes "Init env ie selfs s0 (NewApp menv config) = Return a" "GetService a name = Some s" "grpcServer s = Some server"
  shows "\<exists>c \<in> set (Services (a_config a)). svc_Name c = name
    \<and> grpcChannel s = Some (gs_unary server, gs_stream server)
    \<and> (case Creds server of
         None \<Rightarrow> svc_Security c = \<lparr>Cert = [], Key = [], Ca = []\<rparr>
       | Some tls \<Rightarrow> RequireAndVerifyClientCert tls \<and> svc_Security c \<noteq> \<lparr>Cert = [], Key = [], Ca = []\<rparr>)"
proof -
  have "has_service env (newDefaultMiddlewareManager menv) selfs (Services (a_config a)) name s"
    using Init_services [OF assms(1) _ assms(2)] by (simp add: NewApp_def)
  then obtain c where c: "c \<in> set (Services (a_config a))" "svc_Name c = name"
    and s: "newService env (selfs name) (newDefaultMiddlewareManager menv) c = Return (Inr s)"
    by (auto simp: has_service_def)
  have "ep_Grpc (svc_Endpoints c) \<noteq> []" by (rule newService_parts [OF s]) (use assms(3) in \<open>auto split: if_splits\<close>)
  from service_demands_client_certificate [OF s this] assms(3) c show ?thesis by auto
qed

text \<open>
  The connections of a client: one for each endpoint of the last server of that name, in
  order, all with that server's TLS settings; the single connection is the first of them.
\<close>

theorem grpc_connections_of_server:
  assumes "newClientManager env mm config = Return (Inr c)"
  shows "(case find (\<lambda>sv. server_Name sv = name) (rev (grpc_Servers config)) of
      None \<Rightarrow> GetGrpcClientConns c name = []
    | Some sv \<Rightarrow> (\<exists>tls. GetGrpcClientConns c name =
        map (\<lambda>e. newGrpcClient env name e tls (cm_middlewares c)) (Split (CHR '','') (server_Endpoint sv))
        \<and> newTLSConfig env (resolvePathInConfig (ConfigFileUsed (mw env)) (Cert (server_Security sv)))
            (resolvePathInConfig (ConfigFileUsed (mw env)) (Key (server_Security sv)))
            (resolvePathInConfig (ConfigFileUsed (mw env)) (Ca (server_Security sv))) = Inr tls))
    \<and> GetGrpcClientConn c name = (case GetGrpcClientConns c name of [] \<Rightarrow> None | x # _ \<Rightarrow> x)"
proof -
  from assms obtain ma where loop: "clients_loop env \<lparr>cm_middlewares = ma, grpcClients = Map.empty\<rparr> (grpc_Servers config) = Inr c"
    by (auto simp: newClientManager_def)
  note lookup = clients_loop_lookup [OF loop, of name]
  show ?thesis
  proof (cases "find (\<lambda>sv. server_Name sv = name) (rev (grpc_Servers config))")
    case None
    with lookup show ?thesis by (simp add: GetGrpcClientConns_def GetGrpcClientConn_hd)
  next
    case (Some sv)
    then have sv: "sv \<in> set (grpc_Servers config)" "server_Name sv = name" by (auto dest: find_SomeD)
    obtain cs where cs: "server_clients env ma sv = Inr cs" using clients_loop_ok [OF loop sv(1)] by auto
    with lookup Some have "GetGrpcClientConns c name = cs" "cm_middlewares c = ma" by (simp_all add: GetGrpcClientConns_def)
    with server_clients_Inr [OF cs] sv(2) Some show ?thesis by (auto simp: GetGrpcClientConn_hd)
  qed
qed

text \<open>
  With a job on the command line \<open>Init\<close> gives an application of that job only: no
  service is created, and the observable service knows none.
\<close>

theorem Init_selected_job_alone:
  assumes "Init env ie selfs s0 (NewApp menv config) = Return a"
    and "v_GetString (viper_api ie) (snd (InitConfig (viper_api ie) s0)) ''job'' = job" "job \<noteq> []"
  shows "Jobs (a_config a) = [job] \<and> a_services a = [] \<and> map_option o_services (a_observable a) = Some []"
  using assms
  by (auto simp: Init_def NewApp_def newObservable_def select_job_def Let_def split: prod.splits if_splits)

text \<open>
  The gRPC console takes the first service of the range even if that service has no gRPC
  server: the test for a nil channel is on an interface that holds a nil pointer, so it never fails.
\<close>

theorem grpcui_takes_service_without_channel:
  assumes "newService env self mm config = Return (Inr s)" "ep_Grpc (svc_Endpoints config) = []"
  shows "grpcuiModule (s # ss) = [GrpcuiRoutes [] None]"
  using assms by (auto simp: GetGrpcChannelClient_def elim!: newService_parts)

section \<open>Concrete runs\<close>

definition sample_app_env :: "unit app_env" where
  "sample_app_env = \<lparr>mw = sample_mw_env, LoadX509KeyPair = (\<lambda>_ _. None), ReadFile = (\<lambda>_. Inr ''PEM''),
     AppendCertsFromPEM = (\<lambda>_. True), Dial_error = (\<lambda>_. None),
     Listen_error = (\<lambda>e. if e = '':80'' then Some () else None), standard_services = [''grpc.health.v1.Health'']\<rparr>"

definition sample_mm :: "nat middlewareManager" where
  "sample_mm = newDefaultMiddlewareManager sample_mw_env"

definition sample_security :: GrpcSecurityConfig where
  "sample_security = \<lparr>Cert = ''tls/cert.pem'', Key = ''tls/key.pem'', Ca = []\<rparr>"

definition sample_service :: "string \<Rightarrow> string \<Rightarrow> ServiceConfig" where
  "sample_service grpc http = \<lparr>svc_Name = ''user'', svc_Endpoints = \<lparr>ep_Grpc = grpc, ep_Http = http\<rparr>,
     svc_Security = sample_security, svc_Middlewares = [VString ''metrics'']\<rparr>"

definition sample_config :: "AppConfig" where
  "sample_config = \<lparr>app_Name = ''shop'', Observable = \<lparr>obs_Endpoints = \<lparr>ep_Grpc = [], ep_Http = '':9000''\<rparr>, Modules = []\<rparr>,
     Services = [sample_service '':8080'' []], Jobs = [], grpc_Middlewares = [],
     grpc_Servers = [\<lparr>server_Name = ''user'', server_Endpoint = ''a:1,b:2'', server_Security = sample_security\<rparr>],
     Databases = [sample_db], Caches = [], Pulsars = [], IDGenerator = \<lparr>ServiceID = 0, gen_Key = []\<rparr>\<rparr>"

definition created :: "('x + 'a) exec \<Rightarrow> bool" where
  "created r = (case r of Return (Inr _) \<Rightarrow> True | _ \<Rightarrow> False)"

lemma createdE: "created r \<Longrightarrow> (\<And>a. r = Return (Inr a) \<Longrightarrow> thesis) \<Longrightarrow> thesis"
  by (auto simp: created_def split: exec.splits sum.splits)

theorem service_demands_client_certificate_witness:
  "\<exists>s. newService sample_app_env 0 sample_mm (sample_service '':8080'' []) = Return (Inr s)
    \<and> (case grpcServer s of Some server \<Rightarrow> map_option RequireAndVerifyClientCert (Creds server) = Some True | None \<Rightarrow> False)"
proof -
  have "created (newService sample_app_env 0 sample_mm (sample_service '':8080'' []))" by code_simp
  then obtain s where s: "newService sample_app_env 0 sample_mm (sample_service '':8080'' []) = Return (Inr s)"
    by (rule createdE)
  from service_demands_client_certificate [OF s] s show ?thesis
    by (auto simp: sample_service_def sample_security_def split: option.splits)
qed

theorem service_Run_wait_count_witness:
  "\<exists>s effects n err. newService sample_app_env 0 sample_mm (sample_service '':8080'' '':80'') = Return (Inr s)
    \<and> service_Run sample_app_env (healthy0 :: unit Status) s = (effects, n, err)
    \<and> n = length (filter is_server effects) + listen_failed err"
proof -
  have "created (newService sample_app_env 0 sample_mm (sample_service '':8080'' '':80''))" by code_simp
  then obtain s where s: "newService sample_app_env 0 sample_mm (sample_service '':8080'' '':80'') = Return (Inr s)"
    by (rule createdE)
  obtain effects n err where r: "service_Run sample_app_env (healthy0 :: unit Status) s = (effects, n, err)"
    by (cases "service_Run sample_app_env (healthy0 :: unit Status) s") auto
  from service_Run_wait_count [OF r] s r show ?thesis by auto
qed

theorem grpc_connections_of_server_witness:
  "\<exists>c. newClientManager sample_app_env sample_mm sample_config = Return (Inr c) \<and> length (GetGrpcClientConns c ''user'') = 2"
proof -
  have "created (newClientManager sample_app_env sample_mm sample_config)" by code_simp
  then obtain c where c: "newClientManager sample_app_env sample_mm sample_config = Return (Inr c)" by (rule createdE)
  have "length (Split (CHR '','') ''a:1,b:2'') = 2" by code_simp
  with grpc_connections_of_server [OF c, of "''user''"] c show ?thesis by (auto simp: sample_config_def)
qed

definition sample_init :: "(unit, unit) init_env" where
  "sample_init = \<lparr>cmd_runs = True,
     viper_api = \<lparr>v_GetString = (\<lambda>_ k. if k = ''job'' then ''sync'' else []), v_GetStringMap = (\<lambda>_ _. []),
       v_UnmarshalKey = (\<lambda>_ _ d. (None, d)), v_Set = (\<lambda>_ _ s. s), v_SetConfigFile = (\<lambda>_ s. s),
       v_SetConfigType = (\<lambda>_ s. s), v_ReadInConfig = Pair None, v_AddRemoteProvider = (\<lambda>_ _ _. Pair None),
       v_ReadRemoteConfig = Pair None, v_WatchRemoteConfigOnChannel = Pair None,
       remote_SetAppID = (\<lambda>_ s. s), remote_SetAgolloOptions = (\<lambda>_ s. s)\<rparr>,
     viper_GetBool = (\<lambda>_ _. False), validate_app = (\<lambda>_. None), databases_env = sample_db_env, GOMAXPROCS = 4,
     pulsar_connect = (\<lambda>_. None), hex_DecodeString = (\<lambda>_. Inr []), xtea_NewCipher = (\<lambda>_. Inl ()), os_Hostname = Inl ()\<rparr>"

definition serving_init :: "(unit, unit) init_env" where
  "serving_init = sample_init\<lparr>viper_api := (viper_api sample_init)\<lparr>v_GetString := \<lambda>_ _. []\<rparr>\<rparr>"

definition sample_app :: "(unit, nat) app exec" where
  "sample_app = Init sample_app_env serving_init (\<lambda>_. 0) () (NewApp sample_mw_env sample_config)"

theorem app_services_demand_certificates_witness:
  "\<exists>a s server. sample_app = Return a \<and> GetService a ''user'' = Some s \<and> grpcServer s = Some server
    \<and> map_option RequireAndVerifyClientCert (Creds server) = Some True"
proof -
  have "case sample_app of
      Return a \<Rightarrow> Services (a_config a) = [sample_service '':8080'' []] \<and> (case GetService a ''user'' of
          Some s \<Rightarrow> (case grpcServer s of Some server \<Rightarrow> True | None \<Rightarrow> False) | None \<Rightarrow> False)
    | Panic _ \<Rightarrow> False"
    by code_simp
  then obtain a s server where a: "sample_app = Return a" "Services (a_config a) = [sample_service '':8080'' []]"
    and s: "GetService a ''user'' = Some s" "grpcServer s = Some server"
    by (auto split: exec.splits option.splits)
  from app_services_demand_certificates [OF a(1) [unfolded sample_app_def] s] a s show ?thesis
    by (auto simp: sample_service_def sample_security_def split: option.splits)
qed

theorem Init_selected_job_alone_witness:
  "\<exists>a. Init sample_app_env sample_init (\<lambda>_. 0 :: nat) () (NewApp sample_mw_env sample_config) = Return a
    \<and> Jobs (a_config a) = [''sync'']"
proof -
  have "case Init sample_app_env sample_init (\<lambda>_. 0 :: nat) () (NewApp sample_mw_env sample_config) of
      Return a \<Rightarrow> True | Panic _ \<Rightarrow> False"
    by code_simp
  then obtain a where a: "Init sample_app_env sample_init (\<lambda>_. 0 :: nat) () (NewApp sample_mw_env sample_config) = Return a"
    by (auto split: exec.splits)
  from Init_selected_job_alone [OF a refl] a show ?thesis by (simp add: sample_init_def)
qed

theorem grpcui_takes_service_without_channel_witness:
  "\<exists>s s'. newService sample_app_env 0 sample_mm (sample_service [] '':8000'') = Return (Inr s)
    \<and> newService sample_app_env 1 sample_mm (sample_service '':8080'' []) = Return (Inr s')
    \<and> grpcuiModule [s, s'] = [GrpcuiRoutes [] None]"
proof -
  have "created (newService sample_app_env 0 sample_mm (sample_service [] '':8000''))"
    "created (newService sample_app_env 1 sample_mm (sample_service '':8080'' []))" by code_simp+
  then obtain s s' where s: "newService sample_app_env 0 sample_mm (sample_service [] '':8000'') = Return (Inr s)"
    and s': "newService sample_app_env 1 sample_mm (sample_service '':8080'' []) = Return (Inr s')"
    by (elim createdE) blast
  from grpcui_takes_service_without_channel [OF s, of "[s']"] s s' show ?thesis by (auto simp: sample_service_def)
qed

end
