(* ===== verification/HttpClient.thy ===== *)
theory HttpClient
  imports Prelude "HOL-Library.AList" "HOL-Library.List_Lexorder" "HOL-Library.Char_ord"
begin

text \<open>
  The JSON client (\<open>src/client/http\<close>): the body and the form that are made of the data, the
  headers, and \<open>RequestJSON\<close> of both clients. The transport, JSON and the \<open>%v\<close> text
  of values are arguments; a request is the record of what is set on it.
\<close>

section \<open>Values\<close>

text \<open>
  Data and header values as type switches and reflection see them. A nil pointer keeps its
  type; the elements of \<open>GSeq\<close> have its element type, not an interface type;
  \<open>GReflect\<close> is a \<open>reflect.Value\<close> that is itself passed as a value: a struct with
  no public field.
\<close>

type_synonym Values = "(string \<times> string list) list"

datatype pointer_type = ToValues | ToDataMap | ToStr | ToByteSlice | ToAnything

datatype gv =
    GNil
  | GScalar string
  | GString string
  | GBytes string
  | GSeq "gv list"
  | GStruct "(string \<times> string option \<times> gv) list"
  | GMap string
  | GReflect
  | GValues Values
  | GDataMap "(string \<times> gv) list"
  | GPtr gv
  | GNilPtr pointer_type

record ('d, 'e) http_env =
  sprint :: "gv \<Rightarrow> string"
  kind_name :: "gv \<Rightarrow> string"
  MarshalToString :: "gv \<Rightarrow> 'e + string"
  json_Unmarshal :: "string \<Rightarrow> 'd option \<Rightarrow> 'e option \<times> 'd option"
  NewRequest :: "string \<Rightarrow> string \<Rightarrow> 'e + string \<times> string"
  Parse_host :: "string \<Rightarrow> string option"

section \<open>Forms\<close>

definition form_Get :: "Values \<Rightarrow> string \<Rightarrow> string list" where
  "form_Get form key = (case map_of form key of None \<Rightarrow> [] | Some vs \<Rightarrow> vs)"

definition form_Set :: "string \<Rightarrow> string \<Rightarrow> Values \<Rightarrow> Values" where
  "form_Set key v form = AList.update key [v] form"

definition form_Add :: "string \<Rightarrow> string \<Rightarrow> Values \<Rightarrow> Values" where
  "form_Add key v form = AList.update key (form_Get form key @ [v]) form"

text \<open>\<open>url.QueryEscape\<close> and \<open>Values.Encode\<close>: by key in byte order.\<close>

definition unreserved :: "char \<Rightarrow> bool" where
  "unreserved c \<longleftrightarrow> (let n = of_char c :: nat in 48 \<le> n \<and> n \<le> 57 \<or> 65 \<le> n \<and> n \<le> 90 \<or> 97 \<le> n \<and> n \<le> 122)
     \<or> c = CHR ''-'' \<or> c = CHR ''_'' \<or> c = CHR ''.'' \<or> c = CHR ''~''"

definition hex_upper :: "nat \<Rightarrow> char" where
  "hex_upper d = (if d < 10 then char_of (48 + d) else char_of (55 + d))"

definition escape_char :: "char \<Rightarrow> string" where
  "escape_char c = (if unreserved c then [c] else if c = CHR '' '' then ''+''
     else [CHR ''%'', hex_upper (of_char c div 16), hex_upper (of_char c mod 16)])"

definition QueryEscape :: "string \<Rightarrow> string" where
  "QueryEscape s = concat (map escape_char s)"

definition Encode :: "Values \<Rightarrow> string" where
  "Encode form = Join ''&'' (concat (map (\<lambda>(k, vs). map (\<lambda>v. QueryEscape k @ ''='' @ QueryEscape v) vs) (sort_key fst form)))"

definition isPublicField :: "string \<Rightarrow> bool" where
  "isPublicField name \<longleftrightarrow> name \<noteq> [] \<and> (let n = of_char (hd name) :: nat in 65 \<le> n \<and> n \<le> 90)"

definition invalid_text :: string where
  "invalid_text = ''<invalid reflect.Value>''"

definition item_text :: "('d, 'e) http_env \<Rightarrow> gv \<Rightarrow> string" where
  "item_text env item = (case item of GPtr v \<Rightarrow> sprint env v | GNilPtr _ \<Rightarrow> invalid_text | _ \<Rightarrow> sprint env item)"

definition setFormValue :: "('d, 'e) http_env \<Rightarrow> string \<Rightarrow> gv \<Rightarrow> Values \<Rightarrow> Values" where
  "setFormValue env key value form = (case value of
      GPtr v \<Rightarrow> form_Set key (sprint env v) form
    | GNilPtr _ \<Rightarrow> form_Set key invalid_text form
    | GSeq items \<Rightarrow> fold (\<lambda>item. form_Add key (item_text env item)) items form
    | GBytes bs \<Rightarrow> fold (\<lambda>b. form_Add key (FormatUint 10 (of_char b))) bs form
    | _ \<Rightarrow> form_Set key (sprint env value) form)"

definition map_form :: "('d, 'e) http_env \<Rightarrow> (string \<times> gv) list \<Rightarrow> Values" where
  "map_form env m = fold (\<lambda>(k, v). setFormValue env k v) m []"

definition struct_form :: "('d, 'e) http_env \<Rightarrow> (string \<times> string option \<times> gv) list \<Rightarrow> Values" where
  "struct_form env fs = fold (\<lambda>(name, tag, v).
     if isPublicField name then setFormValue env (case tag of None \<Rightarrow> name | Some t \<Rightarrow> t) v else (\<lambda>form. form)) fs []"

section \<open>Body\<close>

datatype data_format = NoData | QueryString | Form | JSON | Raw

datatype 'e http_error =
    TransportError 'e | UnsupportedDataType string | UnsupportedRawType string | HttpStatus int

text \<open>The form of the data, \<open>None\<close> being the nil form.\<close>

definition data_form :: "('d, 'e) http_env \<Rightarrow> gv \<Rightarrow> ('e http_error + Values option) exec" where
  "data_form env data = (case data of
      GNilPtr ToValues \<Rightarrow> Return (Inr None)
    | GPtr (GValues vs) \<Rightarrow> Return (Inr (Some vs))
    | GValues vs \<Rightarrow> Return (Inr (Some vs))
    | GNilPtr ToDataMap \<Rightarrow> Panic NilDereference
    | GPtr (GDataMap m) \<Rightarrow> Return (Inr (Some (map_form env m)))
    | GDataMap m \<Rightarrow> Return (Inr (Some (map_form env m)))
    | GPtr (GStruct fs) \<Rightarrow> Return (Inr (Some (struct_form env fs)))
    | GStruct fs \<Rightarrow> Return (Inr (Some (struct_form env fs)))
    | GReflect \<Rightarrow> Return (Inr (Some []))
    | GPtr GReflect \<Rightarrow> Return (Inr (Some []))
    | GPtr v \<Rightarrow> Return (Inl (UnsupportedDataType (kind_name env v)))
    | GNilPtr _ \<Rightarrow> Return (Inl (UnsupportedDataType ''invalid''))
    | _ \<Rightarrow> Return (Inl (UnsupportedDataType (kind_name env data))))"

definition getBodyReaderAndForm ::
  "('d, 'e) http_env \<Rightarrow> data_format \<Rightarrow> gv \<Rightarrow> ('e http_error + string option \<times> Values option) exec" where
  "getBodyReaderAndForm env format data =
    (if data = GNil then Return (Inr (None, None))
     else case format of
       JSON \<Rightarrow> (case MarshalToString env data of
           Inl err \<Rightarrow> Return (Inl (TransportError err)) | Inr s \<Rightarrow> Return (Inr (Some s, None)))
     | NoData \<Rightarrow> Return (Inr (None, None))
     | Raw \<Rightarrow> (case data of
           GString s \<Rightarrow> Return (Inr (Some s, None))
         | GPtr (GString s) \<Rightarrow> Return (Inr (Some s, None))
         | GNilPtr ToStr \<Rightarrow> Return (Inr (None, None))
         | GBytes b \<Rightarrow> Return (Inr (Some b, None))
         | GPtr (GBytes b) \<Rightarrow> Return (Inr (Some b, None))
         | GNilPtr ToByteSlice \<Rightarrow> Return (Inr (None, None))
         | _ \<Rightarrow> Return (Inl (UnsupportedRawType (kind_name env data))))
     | _ \<Rightarrow> exec_bind (data_form env data) (\<lambda>r. Return (case r of
           Inl err \<Rightarrow> Inl err
         | Inr form \<Rightarrow> Inr (if format = Form then map_option Encode form else None, form))))"

section \<open>Headers\<close>

type_synonym headers = "(string \<times> string) list"

definition add_json :: "('d, 'e) http_env \<Rightarrow> gv \<Rightarrow> string \<Rightarrow> headers \<Rightarrow> 'e option \<times> headers" where
  "add_json env value key h = (case MarshalToString env value of
      Inl err \<Rightarrow> (Some err, h) | Inr s \<Rightarrow> (None, h @ [(key, s)]))"

text \<open>
  A pointer to anything but a struct is followed by passing the \<open>reflect.Value\<close>, which
  is a struct.
\<close>

fun setHeader :: "('d, 'e) http_env \<Rightarrow> gv \<Rightarrow> string \<Rightarrow> headers \<Rightarrow> 'e option \<times> headers"
  and setHeaders :: "('d, 'e) http_env \<Rightarrow> gv list \<Rightarrow> string \<Rightarrow> headers \<Rightarrow> 'e option \<times> headers" where
  "setHeader env (GPtr v) key h = (case v of
     GStruct _ \<Rightarrow> add_json env (GPtr v) key h
   | GReflect \<Rightarrow> add_json env (GPtr v) key h
   | _ \<Rightarrow> add_json env GReflect key h)"
| "setHeader env (GNilPtr t) key h = add_json env GReflect key h"
| "setHeader env (GSeq items) key h = setHeaders env items key h"
| "setHeader env (GBytes bs) key h = (None, h @ map (\<lambda>b. (key, FormatUint 10 (of_char b))) bs)"
| "setHeader env (GStruct fs) key h = add_json env (GStruct fs) key h"
| "setHeader env GReflect key h = add_json env GReflect key h"
| "setHeader env (GMap m) key h = add_json env (GMap m) key h"
| "setHeader env (GValues vs) key h = add_json env (GValues vs) key h"
| "setHeader env (GDataMap m) key h = add_json env (GDataMap m) key h"
| "setHeader env GNil key h = (None, h @ [(key, sprint env GNil)])"
| "setHeader env (GScalar s) key h = (None, h @ [(key, sprint env (GScalar s))])"
| "setHeader env (GString s) key h = (None, h @ [(key, sprint env (GString s))])"
| "setHeaders env [] key h = (None, h)"
| "setHeaders env (v # vs) key h = (case setHeader env v key h of
      (Some err, h') \<Rightarrow> (Some err, h') | (None, h') \<Rightarrow> setHeaders env vs key h')"

fun header_entries :: "('d, 'e) http_env \<Rightarrow> (string \<times> gv) list \<Rightarrow> headers \<Rightarrow> 'e option \<times> headers" where
  "header_entries env [] h = (None, h)"
| "header_entries env ((k, v) # m) h = (case setHeader env v k h of
      (Some err, h') \<Rightarrow> (Some err, h') | (None, h') \<Rightarrow> header_entries env m h')"

text \<open>The maps of custom headers are passed by pointer; ranging over a nil one panics.\<close>

fun custom_headers ::
  "('d, 'e) http_env \<Rightarrow> (string \<times> gv) list option list \<Rightarrow> headers \<Rightarrow> ('e option \<times> headers) exec" where
  "custom_headers env [] h = Return (None, h)"
| "custom_headers env (None # hs) h = Panic NilDereference"
| "custom_headers env (Some m # hs) h = (case header_entries env m h of
      (Some err, h') \<Rightarrow> Return (Some err, h') | (None, h') \<Rightarrow> custom_headers env hs h')"

section \<open>Requests\<close>

record request =
  rq_method :: string
  rq_url :: string
  rq_query :: string
  rq_body :: "string option"
  rq_host :: string
  rq_header :: headers

text \<open>
  \<open>RequestJSON\<close> of the default client: the error of \<open>NewRequest\<close> is overwritten before
  it is looked at, and the request is nil then, so that the next use of it panics; without one of
  the uses before it, \<open>Do\<close> is that use.
\<close>

definition default_request ::
  "('d, 'e) http_env \<Rightarrow> string \<Rightarrow> string \<Rightarrow> data_format \<Rightarrow> gv \<Rightarrow> (string \<times> gv) list option list \<Rightarrow> ('e http_error + request) exec" where
  "default_request env method url format data hs =
    exec_bind (getBodyReaderAndForm env format data) (\<lambda>r. case r of
      Inl err \<Rightarrow> Return (Inl err)
    | Inr (reqBody, form) \<Rightarrow> (case NewRequest env method url of
        Inl err \<Rightarrow> Panic NilDereference
      | Inr (base, query) \<Rightarrow>
          (let req = \<lparr>rq_method = method, rq_url = base, rq_query = query, rq_body = reqBody, rq_host = [], rq_header = []\<rparr>;
               req = (case format of
                   QueryString \<Rightarrow> (case form of Some f \<Rightarrow> req\<lparr>rq_query := Encode f\<rparr> | None \<Rightarrow> req)
                 | Form \<Rightarrow> req\<lparr>rq_header := [(''Content-Type'', ''application/x-www-form-urlencoded'')]\<rparr>
                 | JSON \<Rightarrow> req\<lparr>rq_header := [(''Content-Type'', ''application/json'')]\<rparr>
                 | _ \<Rightarrow> req)
           in exec_bind (custom_headers env hs (rq_header req)) (\<lambda>r. Return (case r of
                (Some err, _) \<Rightarrow> Inl (TransportError err)
              | (None, h) \<Rightarrow> Inr (req\<lparr>rq_header := h\<rparr>))))))"

text \<open>The reply: a transport error, or the status and what reading the body gives.\<close>

definition DefaultClient_RequestJSON ::
  "('d, 'e) http_env \<Rightarrow> (request \<Rightarrow> 'e + int \<times> ('e + string)) \<Rightarrow> 'd option \<Rightarrow> string \<Rightarrow> string \<Rightarrow> data_format \<Rightarrow> gv \<Rightarrow>
     (string \<times> gv) list option list \<Rightarrow> ('e http_error option \<times> 'd option) exec" where
  "DefaultClient_RequestJSON env Do respData method url format data hs =
    exec_bind (default_request env method url format data hs) (\<lambda>r. Return (case r of
      Inl err \<Rightarrow> (Some err, respData)
    | Inr req \<Rightarrow> (case Do req of
        Inl err \<Rightarrow> (Some (TransportError err), respData)
      | Inr (StatusCode, body) \<Rightarrow>
          if StatusCode \<noteq> 200 then (Some (HttpStatus StatusCode), respData)
          else if respData = None then (None, respData)
          else (case body of
              Inl err \<Rightarrow> (Some (TransportError err), respData)
            | Inr b \<Rightarrow> apfst (map_option TransportError) (json_Unmarshal env b respData)))))"

text \<open>
  The fasthttp client: the form is appended to the URL as it is, and the host of an URL that
  does not parse is asked for on nil.
\<close>

definition fast_request ::
  "('d, 'e) http_env \<Rightarrow> string \<Rightarrow> string \<Rightarrow> data_format \<Rightarrow> gv \<Rightarrow> (string \<times> gv) list option list \<Rightarrow> ('e http_error + request) exec" where
  "fast_request env method url format data hs =
    exec_bind (getBodyReaderAndForm env format data) (\<lambda>r. case r of
      Inl err \<Rightarrow> Return (Inl err)
    | Inr (reqBody, form) \<Rightarrow> (case Parse_host env url of
        None \<Rightarrow> Panic NilDereference
      | Some host \<Rightarrow>
          (let uri = (case (format, form) of (QueryString, Some f) \<Rightarrow> url @ ''?'' @ Encode f | _ \<Rightarrow> url);
               h = (case format of
                   Form \<Rightarrow> [(''Content-Type'', ''application/x-www-form-urlencoded'')]
                 | JSON \<Rightarrow> [(''Content-Type'', ''application/json'')]
                 | _ \<Rightarrow> [])
           in exec_bind (custom_headers env hs h) (\<lambda>r. Return (case r of
                (Some err, _) \<Rightarrow> Inl (TransportError err)
              | (None, h) \<Rightarrow> Inr \<lparr>rq_method = method, rq_url = uri, rq_query = [],
                  rq_body = (if method \<noteq> ''GET'' \<and> method \<noteq> ''HEAD'' then reqBody else None),
                  rq_host = host, rq_header = h\<rparr>)))))"

definition FastHTTPClient_RequestJSON ::
  "('d, 'e) http_env \<Rightarrow> (request \<Rightarrow> 'e + int \<times> string) \<Rightarrow> 'd option \<Rightarrow> string \<Rightarrow> string \<Rightarrow> data_format \<Rightarrow> gv \<Rightarrow>
     (string \<times> gv) list option list \<Rightarrow> ('e http_error option \<times> 'd option) exec" where
  "FastHTTPClient_RequestJSON env DoTimeout respData method url format data hs =
    exec_bind (fast_request env method url format data hs) (\<lambda>r. Return (case r of
      Inl err \<Rightarrow> (Some err, respData)
    | Inr req \<Rightarrow> (case DoTimeout req of
        Inl err \<Rightarrow> (Some (TransportError err), respData)
      | Inr (StatusCode, body) \<Rightarrow>
          if StatusCode \<noteq> 200 then (Some (HttpStatus StatusCode), respData)
          else apfst (map_option TransportError) (json_Unmarshal env body respData))))"

section \<open>Choosing a client\<close>

definition ClientNetHTTP :: int where "ClientNetHTTP = 1"
definition ClientFastHTTP :: int where "ClientFastHTTP = 2"

record http_options =
  Timeout :: int
  ClientType :: int

datatype http_option = WithTimeout int | RawClientType int

fun apply_http_option :: "http_option \<Rightarrow> http_options \<Rightarrow> http_options" where
  "apply_http_option (WithTimeout t) o' = o'\<lparr>Timeout := t\<rparr>"
| "apply_http_option (RawClientType c) o' =
     (if c < ClientNetHTTP \<or> ClientFastHTTP < c then o' else o'\<lparr>ClientType := c\<rparr>)"

datatype http_client = DefaultClient int | FastHTTPClient int | NilClient

definition GetClient :: "http_option list \<Rightarrow> http_client" where
  "GetClient options =
    (let o' = fold apply_http_option options \<lparr>Timeout = 10 * 10 ^ 9, ClientType = ClientNetHTTP\<rparr>
     in if ClientType o' = ClientNetHTTP then DefaultClient (Timeout o')
        else if ClientType o' = ClientFastHTTP then FastHTTPClient (Timeout o')
        else NilClient)"

definition NewDefaultClient :: http_client where
  "NewDefaultClient = GetClient []"

text \<open>The package functions are requests of the package's client.\<close>

type_synonym ('d, 'e) requester =
  "'d option \<Rightarrow> string \<Rightarrow> string \<Rightarrow> data_format \<Rightarrow> gv \<Rightarrow> (string \<times> gv) list option list \<Rightarrow> ('e http_error option \<times> 'd option) exec"

definition GetJSON :: "('d, 'e) requester \<Rightarrow> 'd option \<Rightarrow> string \<Rightarrow> gv \<Rightarrow> (string \<times> gv) list option list \<Rightarrow> ('e http_error option \<times> 'd option) exec" where
  "GetJSON c respData url params hs = c respData ''GET'' url QueryString params hs"

definition PostForm :: "('d, 'e) requester \<Rightarrow> 'd option \<Rightarrow> string \<Rightarrow> gv \<Rightarrow> (string \<times> gv) list option list \<Rightarrow> ('e http_error option \<times> 'd option) exec" where
  "PostForm c respData url form hs = c respData ''POST'' url Form form hs"

definition PostJSON :: "('d, 'e) requester \<Rightarrow> 'd option \<Rightarrow> string \<Rightarrow> gv \<Rightarrow> (string \<times> gv) list option list \<Rightarrow> ('e http_error option \<times> 'd option) exec" where
  "PostJSON c respData url data hs = c respData ''POST'' url JSON data hs"

section \<open>The form of a map\<close>

text \<open>The values one entry of the data contributes.\<close>

definition form_values :: "('d, 'e) http_env \<Rightarrow> gv \<Rightarrow> string list" where
  "form_values env value = (case value of
      GPtr v \<Rightarrow> [sprint env v]
    | GNilPtr _ \<Rightarrow> [invalid_text]
    | GSeq items \<Rightarrow> map (item_text env) items
    | GBytes bs \<Rightarrow> map (\<lambda>b. FormatUint 10 (of_char b)) bs
    | _ \<Rightarrow> [sprint env value])"

lemma map_of_form_Set [simp]: "map_of (form_Set k v form) = (map_of form)(k \<mapsto> [v])"
  by (simp add: form_Set_def update_conv')

lemma map_of_form_Add [simp]: "map_of (form_Add k v form) = (map_of form)(k \<mapsto> form_Get form k @ [v])"
  by (simp add: form_Add_def update_conv')

lemma form_Get_Add [simp]: "form_Get (form_Add k v form) j = (if j = k then form_Get form k @ [v] else form_Get form j)"
  by (simp add: form_Get_def [of "form_Add k v form"]) (simp add: form_Get_def)

lemma distinct_form_Set [simp]: "distinct (map fst form) \<Longrightarrow> distinct (map fst (form_Set k v form))"
  by (simp add: form_Set_def distinct_update)

lemma distinct_form_Add [simp]: "distinct (map fst form) \<Longrightarrow> distinct (map fst (form_Add k v form))"
  by (simp add: form_Add_def distinct_update)

lemma map_of_fold_Add:
  "map_of (fold (\<lambda>x. form_Add k (g x)) xs form)
     = (if xs = [] then map_of form else (map_of form)(k \<mapsto> form_Get form k @ map g xs))"
  by (induction xs arbitrary: form) auto

lemma distinct_fold_Add: "distinct (map fst form) \<Longrightarrow> distinct (map fst (fold (\<lambda>x. form_Add k (g x)) xs form))"
  by (induction xs arbitrary: form) auto

lemma map_of_setFormValue:
  assumes "map_of form k = None"
  shows "map_of (setFormValue env k v form)
    = (if form_values env v = [] then map_of form else (map_of form)(k \<mapsto> form_values env v))"
  using assms by (auto simp: setFormValue_def form_values_def map_of_fold_Add form_Get_def split: gv.splits)

lemma distinct_setFormValue: "distinct (map fst form) \<Longrightarrow> distinct (map fst (setFormValue env k v form))"
  by (auto simp: setFormValue_def distinct_fold_Add split: gv.splits)

definition entry_values :: "('d, 'e) http_env \<Rightarrow> (string \<times> gv) list \<Rightarrow> string \<Rightarrow> string list option" where
  "entry_values env m k = (case map_of m k of
      None \<Rightarrow> None | Some v \<Rightarrow> if form_values env v = [] then None else Some (form_values env v))"

lemma map_of_fold_entries:
  "distinct (map fst m) \<Longrightarrow> list_all (\<lambda>e. map_of form (fst e) = None) m \<Longrightarrow>
   map_of (fold (\<lambda>(k, v). setFormValue env k v) m form) k
     = (case entry_values env m k of None \<Rightarrow> map_of form k | Some vs \<Rightarrow> Some vs)"
proof (induction m arbitrary: form)
  case Nil
  then show ?case by (simp add: entry_values_def)
next
  case (Cons e m)
  obtain j v where e: "e = (j, v)" by fastforce
  have fresh: "map_of form j = None" using Cons.prems e by simp
  have j: "map_of m j = None" using Cons.prems(1) e by (simp add: map_of_eq_None_iff)
  have "list_all (\<lambda>e. map_of (setFormValue env j v form) (fst e) = None) m"
    using Cons.prems e by (auto simp: list_all_iff map_of_setFormValue [OF fresh])
  with Cons.IH [of "setFormValue env j v form"] Cons.prems(1) j show ?case
    by (auto simp: e entry_values_def map_of_setFormValue [OF fresh] fresh split: option.split)
qed

lemma map_of_map_form: "distinct (map fst m) \<Longrightarrow> map_of (map_form env m) = entry_values env m"
  by (rule ext) (auto simp: map_form_def map_of_fold_entries list_all_iff split: option.split)

lemma distinct_fold_entries:
  "distinct (map fst form) \<Longrightarrow> distinct (map fst (fold (\<lambda>(k, v). setFormValue env k v) m form))"
  by (induction m arbitrary: form) (auto simp: distinct_setFormValue)

lemma distinct_map_form: "distinct (map fst (map_form env m))"
  by (simp add: map_form_def distinct_fold_entries)

lemma Encode_cong:
  assumes "distinct (map fst f)" "distinct (map fst g)" "map_of f = map_of g"
  shows "Encode f = Encode g"
proof -
  have "mset f = mset g"
    using assms map_of_eqI set_eq_iff_mset_eq_distinct distinct_map map_of_inject_set by metis
  moreover have "inj_on fst (set f)" using assms(1) by (simp add: distinct_map)
  ultimately have "sort_key fst f = sort_key fst g"
    by (intro sort_key_inj_key_eq) simp_all
  then show ?thesis by (simp add: Encode_def)
qed

lemma Encode_map_form_order:
  assumes "distinct (map fst m)" "mset m = mset m'"
  shows "Encode (map_form env m) = Encode (map_form env m')"
proof (rule Encode_cong)
  have d: "distinct (map fst m')"
    using assms by (metis mset_map mset_eq_imp_distinct_iff)
  moreover have "map_of m = map_of m'"
    using assms d by (simp add: map_of_inject_set flip: set_mset_mset)
  ultimately show "map_of (map_form env m) = map_of (map_form env m')"
    using assms(1) by (simp add: map_of_map_form entry_values_def [abs_def])
qed (rule distinct_map_form)+

text \<open>An environment to evaluate examples in: everything prints as its own text.\<close>

definition example_env :: "(string, string) http_env" where
  "example_env = \<lparr>sprint = (\<lambda>v. case v of GScalar s \<Rightarrow> s | GString s \<Rightarrow> s | _ \<Rightarrow> ''?''),
     kind_name = (\<lambda>_. ''kind''),
     MarshalToString = (\<lambda>v. case v of GString s \<Rightarrow> Inr s | _ \<Rightarrow> Inl ''marshal''),
     json_Unmarshal = (\<lambda>b d. (None, Some b)),
     NewRequest = (\<lambda>method url. if url = ''bad'' then Inl ''parse'' else Inr (''/api'', ''x=1'')),
     Parse_host = (\<lambda>url. if url = ''bad'' then None else Some ''localhost'')\<rparr>"

section \<open>Properties\<close>

text \<open>
  The form of a data map holds, under every key of the map, exactly the values of its
  entry (one value, or the elements of a slice in order) and nothing under other keys.
\<close>

theorem form_of_data_map:
  assumes "distinct (map fst m)"
  shows "form_Get (map_form env m) k = (case map_of m k of None \<Rightarrow> [] | Some v \<Rightarrow> form_values env v)"
  using assms by (simp add: form_Get_def map_of_map_form entry_values_def split: option.split)

lemma form_of_data_map_witness:
  "form_Get (map_form example_env [(''ids'', GSeq [GScalar ''1'', GPtr (GScalar ''2'')]), (''n'', GString ''a'')]) ''ids''
     = [''1'', ''2'']"
  by (subst form_of_data_map) (simp_all add: form_values_def item_text_def example_env_def)




definition example_transport :: "request \<Rightarrow> string + int \<times> string" where
  "example_transport req = (case rq_body req of None \<Rightarrow> Inl ''empty'' | Some b \<Rightarrow> Inr (200, b))"


text \<open>
  A method or URL that the package cannot make a request of does not come back as an
  error: as soon as the body is made, the default client panics on the nil request, and so
  does the fasthttp client on an URL that does not parse.
\<close>

theorem unusable_url_panics:
  assumes "getBodyReaderAndForm env format data = Return (Inr body)"
  shows "(case NewRequest env verb url of
      Inl err \<Rightarrow> DefaultClient_RequestJSON env Do respData verb url format data hs = Panic NilDereference
    | Inr _ \<Rightarrow> True)
    \<and> (case Parse_host env url of
      None \<Rightarrow> FastHTTPClient_RequestJSON env DoTimeout respData verb url format data hs = Panic NilDereference
    | Some _ \<Rightarrow> True)"
  using assms
  by (auto simp: DefaultClient_RequestJSON_def FastHTTPClient_RequestJSON_def default_request_def fast_request_def
      split: sum.split option.split prod.split)

lemma unusable_url_panics_witness:
  "DefaultClient_RequestJSON example_env (\<lambda>_. Inl ''no'') None ''GET'' ''bad'' NoData GNil [] = Panic NilDereference"
  using unusable_url_panics [where env = example_env and format = NoData and data = GNil and body = "(None, None)"
    and url = "''bad''" and verb = "''GET''" and Do = "\<lambda>_. Inl ''no''" and respData = None and hs = "[]"]
  by (simp add: getBodyReaderAndForm_def example_env_def)

end
