(* ===== verification/Grpcex.thy ===== *)
theory Grpcex
  imports Middleware Glob
begin

text \<open>
  The gRPC extensions (\<open>src/grpcex\<close>): access control, validation, tokens, headers and the
  address of the client. The policy engine, the validators of messages and the header matcher of the
  gateway are arguments.
\<close>

section \<open>Requests\<close>

record certificate =
  CommonName :: string
  DNSNames :: "string list"

text \<open>How a peer authenticated: the TLS information, or another kind by its name.\<close>

datatype auth_info = TLSInfo "certificate list" | OtherAuth string

fun AuthType :: "auth_info \<Rightarrow> string" where
  "AuthType (TLSInfo _) = ''tls''"
| "AuthType (OtherAuth t) = t"

text \<open>\<open>None\<close> are the nil address and the nil authentication of a peer without transport security.\<close>

record rpc_peer =
  Addr :: "string option"
  AuthInfo :: "auth_info option"

type_synonym rpc_metadata = "string \<rightharpoonup> string list"

record rpc_context =
  rc_metadata :: "rpc_metadata option"
  rc_peer :: "rpc_peer option"

text \<open>The errors the package makes, and those it passes on.\<close>

definition codes_InvalidArgument :: "32 word" where "codes_InvalidArgument = 3"
definition codes_Unauthenticated :: "32 word" where "codes_Unauthenticated = 16"

record 'e rpc_error =
  rpc_message :: string
  rpc_code :: "32 word option"
  rpc_fields :: "(string \<times> string) list"
  rpc_cause :: "'e option"

datatype 'e rpc_result_error = Made "'e rpc_error" | Passed 'e

definition unauthenticated :: "string \<Rightarrow> (string \<times> string) list \<Rightarrow> 'e rpc_error" where
  "unauthenticated msg flds =
     \<lparr>rpc_message = msg, rpc_code = Some codes_Unauthenticated, rpc_fields = flds, rpc_cause = None\<rparr>"

section \<open>Access control\<close>

definition reflectionServiceName :: string where
  "reflectionServiceName = ''/grpc.reflection.v1alpha.ServerReflection/''"
definition channelzServiceName :: string where "channelzServiceName = ''/grpc.channelz.v1.Channelz/''"
definition healthServiceName :: string where "healthServiceName = ''/grpc.health.v1.Health/''"
definition anonymousServiceName :: string where "anonymousServiceName = ''<anonymous>''"

definition defaultCasbinModel :: string where
  "defaultCasbinModel = concat (map (\<lambda>l. [CHR 0x0A] @ l)
     [''[request_definition]'', ''r = sub, obj'', [],
      ''[policy_definition]'', ''p = sub, obj'', [],
      ''[role_definition]'', ''g = _, _'', [],
      ''[policy_effect]'', ''e = some(where (p.eft == allow))'', [],
      ''[matchers]'', ''m = r.sub == p.sub && (g(r.obj, p.obj) || globMatch(r.obj, p.obj))'', []])"

text \<open>The policy engine: its models, its enforcer and what the enforcer decides.\<close>

record ('m, 'n, 'e) casbin =
  NewModelFromString :: "string \<Rightarrow> 'e + 'm"
  NewModelFromFile :: "string \<Rightarrow> 'e + 'm"
  model_text :: "'m \<Rightarrow> string"
  NewEnforcer :: "'m \<Rightarrow> string \<Rightarrow> 'e + 'n"
  AddNamedMatchingFunc :: "string \<Rightarrow> (string \<Rightarrow> string \<Rightarrow> bool) \<Rightarrow> 'n \<Rightarrow> 'n"
  Enforce :: "'n \<Rightarrow> string \<Rightarrow> string \<Rightarrow> 'e + bool"

definition globMatch :: "string \<Rightarrow> string \<Rightarrow> bool" where
  "globMatch key1 key2 = (case path_Match key2 key1 of Inl _ \<Rightarrow> False | Inr ok \<Rightarrow> ok)"

definition NewAccessController :: "('m, 'n, 'e) casbin \<Rightarrow> string \<Rightarrow> string \<Rightarrow> 'e rpc_error + 'n" where
  "NewAccessController cb modelFile policyFile =
    (let wrap = (\<lambda>msg flds err. \<lparr>rpc_message = msg, rpc_code = None, rpc_fields = flds, rpc_cause = Some err\<rparr>);
         m = (if modelFile = [] then map_sum (wrap ''new_default_casbin_model_error'' [(''model'', defaultCasbinModel)]) id (NewModelFromString cb defaultCasbinModel)
              else map_sum (wrap ''new_casbin_model_from_file_error'' [(''model_file'', modelFile)]) id (NewModelFromFile cb modelFile))
     in case m of
       Inl err \<Rightarrow> Inl err
     | Inr m \<Rightarrow> (case NewEnforcer cb m policyFile of
         Inl err \<Rightarrow> Inl (wrap ''new_casbin_enforcer_error'' [(''model'', model_text cb m), (''policy_file'', policyFile)] err)
       | Inr enforcer \<Rightarrow> Inr (AddNamedMatchingFunc cb ''g'' globMatch enforcer)))"

definition checkServiceAccess :: "('m, 'n, 'e) casbin \<Rightarrow> 'n \<Rightarrow> string \<Rightarrow> string \<Rightarrow> bool" where
  "checkServiceAccess cb c service method = (case Enforce cb c service method of Inl _ \<Rightarrow> False | Inr ok \<Rightarrow> ok)"

text \<open>The loop over the names leaves the last one in \<open>serviceName\<close>.\<close>

definition check_certificate :: "('m, 'n, 'e) casbin \<Rightarrow> 'n \<Rightarrow> certificate \<Rightarrow> string \<Rightarrow> 'e rpc_error option" where
  "check_certificate cb c clientCert method =
    (if CommonName clientCert \<noteq> [] \<and> checkServiceAccess cb c (CommonName clientCert) method then None
     else if list_ex (\<lambda>serviceName. checkServiceAccess cb c serviceName method) (DNSNames clientCert) then None
     else Some (unauthenticated ''access_denied''
       [(''client'', last (CommonName clientCert # DNSNames clientCert)), (''method'', method)]))"

definition exempt :: "string \<Rightarrow> bool" where
  "exempt method \<longleftrightarrow> HasPrefix method reflectionServiceName \<or> HasPrefix method channelzServiceName
     \<or> HasPrefix method healthServiceName"

definition base_method :: "string \<Rightarrow> string" where
  "base_method method = (case LastIndex method (CHR ''/'') of None \<Rightarrow> method | Some i \<Rightarrow> drop (i + 1) method)"

definition checkAccess :: "('m, 'n, 'e) casbin \<Rightarrow> 'n \<Rightarrow> rpc_context \<Rightarrow> string \<Rightarrow> 'e rpc_error option exec" where
  "checkAccess cb c ctx method =
    (if exempt method then Return None
     else let method = base_method method in
       case rc_peer ctx of
         None \<Rightarrow> Return (Some (unauthenticated ''peer_not_found_in_context'' []))
       | Some client \<Rightarrow> (case AuthInfo client of
           None \<Rightarrow> Panic NilDereference
         | Some info \<Rightarrow>
             if AuthType info = ''inproc'' then
               Return (if checkServiceAccess cb c anonymousServiceName method then None
                 else Some (unauthenticated ''access_denied'' [(''client_service'', anonymousServiceName)]))
             else if AuthType info = ''tls'' then Return (case info of
                 OtherAuth _ \<Rightarrow> Some (unauthenticated ''auth_tls_info_not_found'' [])
               | TLSInfo [] \<Rightarrow> Some (unauthenticated ''peer_cert_not_found'' [])
               | TLSInfo (clientCert # _) \<Rightarrow> check_certificate cb c clientCert method)
             else Return (Some (unauthenticated ''auth_type_not_supported'' [(''auth_type'', AuthType info)]))))"

text \<open>A handler takes the context and the request or stream.\<close>

type_synonym ('q, 'r, 'e) rpc_handler = "rpc_context \<Rightarrow> 'q \<Rightarrow> ('e rpc_result_error + 'r) exec"

definition Access_UnaryServerInterceptor ::
  "('m, 'n, 'e) casbin \<Rightarrow> 'n \<Rightarrow> string \<Rightarrow> ('q, 'r, 'e) rpc_handler \<Rightarrow> ('q, 'r, 'e) rpc_handler" where
  "Access_UnaryServerInterceptor cb c FullMethod handler ctx req =
     exec_bind (checkAccess cb c ctx FullMethod) (\<lambda>err. case err of
       Some e \<Rightarrow> Return (Inl (Made e)) | None \<Rightarrow> handler ctx req)"

text \<open>A stream carries its context.\<close>

type_synonym ('q, 'r, 'e) stream_handler = "rpc_context \<times> 'q \<Rightarrow> ('e rpc_result_error + 'r) exec"

definition Access_StreamServerInterceptor ::
  "('m, 'n, 'e) casbin \<Rightarrow> 'n \<Rightarrow> string \<Rightarrow> ('q, 'r, 'e) stream_handler \<Rightarrow> ('q, 'r, 'e) stream_handler" where
  "Access_StreamServerInterceptor cb c FullMethod handler stream =
     exec_bind (checkAccess cb c (fst stream) FullMethod) (\<lambda>err. case err of
       Some e \<Rightarrow> Return (Inl (Made e)) | None \<Rightarrow> handler stream)"

section \<open>Validation\<close>

text \<open>The methods a message type has: \<open>None\<close> where it has no such method.\<close>

record ('q, 'e) validators =
  Validate_legacy :: "'q \<Rightarrow> 'e option option"
  Validate_all :: "'q \<Rightarrow> (bool \<Rightarrow> 'e option) option"

definition invalid_argument :: "'e \<Rightarrow> 'e rpc_error" where
  "invalid_argument err = \<lparr>rpc_message = ''invalid_argument'', rpc_code = Some codes_InvalidArgument, rpc_fields = [], rpc_cause = Some err\<rparr>"

definition validate :: "('q, 'e) validators \<Rightarrow> 'q \<Rightarrow> 'e rpc_error option" where
  "validate vs req = (case Validate_legacy vs req of
      Some r \<Rightarrow> map_option invalid_argument r
    | None \<Rightarrow> (case Validate_all vs req of
        Some v \<Rightarrow> map_option invalid_argument (v False)
      | None \<Rightarrow> None))"

definition ValidatorUnaryServerInterceptor ::
  "('q, 'e) validators \<Rightarrow> ('q, 'r, 'e) rpc_handler \<Rightarrow> ('q, 'r, 'e) rpc_handler" where
  "ValidatorUnaryServerInterceptor vs handler ctx req =
     (case validate vs req of Some e \<Rightarrow> Return (Inl (Made e)) | None \<Rightarrow> handler ctx req)"

definition ValidatorUnaryClientInterceptor ::
  "('q, 'e) validators \<Rightarrow> ('q, 'r, 'e) rpc_handler \<Rightarrow> ('q, 'r, 'e) rpc_handler" where
  "ValidatorUnaryClientInterceptor vs invoker ctx req =
     (case validate vs req of Some e \<Rightarrow> Return (Inl (Made e)) | None \<Rightarrow> invoker ctx req)"

text \<open>
  Receiving gives an error and leaves a message in \<open>m\<close>; a stream is the sequence of what
  receiving gives, and the wrapper validates each message.
\<close>

type_synonym ('q, 'e) recv = "'e rpc_result_error option \<times> 'q"

definition validator_RecvMsg :: "('q, 'e) validators \<Rightarrow> ('q, 'e) recv \<Rightarrow> ('q, 'e) recv" where
  "validator_RecvMsg vs r = (case r of
      (Some err, m) \<Rightarrow> (Some err, m)
    | (None, m) \<Rightarrow> (map_option Made (validate vs m), m))"

definition ValidatorStreamServerInterceptor ::
  "('q, 'e) validators \<Rightarrow> ((nat \<Rightarrow> ('q, 'e) recv) \<Rightarrow> 'r) \<Rightarrow> (nat \<Rightarrow> ('q, 'e) recv) \<Rightarrow> 'r" where
  "ValidatorStreamServerInterceptor vs handler stream = handler (\<lambda>k. validator_RecvMsg vs (stream k))"

section \<open>Tokens\<close>

definition tokenAuthHeader :: string where "tokenAuthHeader = ''authorization''"
definition tokenAuthPrefix :: string where "tokenAuthPrefix = ''Bearer ''"

datatype TokenAuth = TokenAuth (token_of: string)

definition GetRequestMetadata :: "TokenAuth \<Rightarrow> (string \<times> string) list" where
  "GetRequestMetadata t = [(tokenAuthHeader, tokenAuthPrefix @ token_of t)]"

definition RequireTransportSecurity :: "TokenAuth \<Rightarrow> bool" where
  "RequireTransportSecurity t = False"

definition NewTokenAuth :: "string \<Rightarrow> TokenAuth" where
  "NewTokenAuth token = TokenAuth token"

text \<open>\<open>Get\<close> of the metadata, which takes the key in lower case.\<close>

definition meta_Get :: "rpc_metadata \<Rightarrow> string \<Rightarrow> string list" where
  "meta_Get meta key = (case meta (ToLower key) of None \<Rightarrow> [] | Some vs \<Rightarrow> vs)"

definition GetAuthToken :: "rpc_context \<Rightarrow> string" where
  "GetAuthToken ctx = (case rc_metadata ctx of
      None \<Rightarrow> []
    | Some meta \<Rightarrow> (case meta_Get meta tokenAuthHeader of
        [] \<Rightarrow> []
      | auth # _ \<Rightarrow> if HasPrefix auth tokenAuthPrefix then drop (length tokenAuthPrefix) auth else []))"

section \<open>Headers\<close>

definition AllowedHeaderPrefix :: string where "AllowedHeaderPrefix = ''x-''"
definition MetadataPrefix :: string where "MetadataPrefix = ''grpcgateway-''"

definition DefaultHeaderMatcher :: "(string \<Rightarrow> string \<times> bool) \<Rightarrow> string \<Rightarrow> string \<times> bool" where
  "DefaultHeaderMatcher runtime_matcher key = (case runtime_matcher key of
      (newKey, True) \<Rightarrow> (newKey, True)
    | (_, False) \<Rightarrow>
        (let key = ToLower key
         in if HasPrefix key AllowedHeaderPrefix then (MetadataPrefix @ key, True) else ([], False)))"

definition first_value :: "string list \<Rightarrow> string" where
  "first_value vs = (case vs of [] \<Rightarrow> [] | v # _ \<Rightarrow> v)"

definition GetHeader :: "rpc_context \<Rightarrow> string \<Rightarrow> string" where
  "GetHeader ctx key =
    (let key = ToLower key;
         meta = (case rc_metadata ctx of None \<Rightarrow> Map.empty | Some m \<Rightarrow> m)
     in case meta key of
          Some vs \<Rightarrow> first_value vs
        | None \<Rightarrow> (case meta (MetadataPrefix @ key) of Some vs \<Rightarrow> first_value vs | None \<Rightarrow> []))"

text \<open>The address of the client: with a comma at the front the header is taken as it is.\<close>

definition before_comma :: "string \<Rightarrow> string" where
  "before_comma ip = (if ip \<noteq> [] \<and> hd ip \<noteq> CHR '','' then takeWhile (\<lambda>c. c \<noteq> CHR '','') ip else ip)"

definition GetClientIP :: "rpc_context \<Rightarrow> string exec" where
  "GetClientIP ctx =
    (let ip = (case rc_metadata ctx of None \<Rightarrow> [] | Some meta \<Rightarrow> before_comma (first_value (meta_Get meta ''x-forwarded-for'')))
     in if ip \<noteq> [] then Return ip
        else case rc_peer ctx of
          None \<Rightarrow> Return []
        | Some p \<Rightarrow> (case Addr p of None \<Rightarrow> Panic NilDereference | Some a \<Rightarrow> Return a))"

section \<open>Who may call\<close>

text \<open>
  The access policy in one predicate: exempt methods are open; an in-process caller needs the
  anonymous service to be allowed; a TLS caller one of the names of its first certificate.
\<close>

definition cert_names :: "certificate \<Rightarrow> string list" where
  "cert_names cert = (if CommonName cert = [] then [] else [CommonName cert]) @ DNSNames cert"

definition allowed :: "('m, 'n, 'e) casbin \<Rightarrow> 'n \<Rightarrow> string \<Rightarrow> string \<Rightarrow> bool" where
  "allowed cb c service method \<longleftrightarrow> (case Enforce cb c service (base_method method) of Inr True \<Rightarrow> True | _ \<Rightarrow> False)"

fun caller_allowed :: "('m, 'n, 'e) casbin \<Rightarrow> 'n \<Rightarrow> string \<Rightarrow> auth_info \<Rightarrow> bool" where
  "caller_allowed cb c method (TLSInfo []) = False"
| "caller_allowed cb c method (TLSInfo (cert # _)) = list_ex (\<lambda>name. allowed cb c name method) (cert_names cert)"
| "caller_allowed cb c method (OtherAuth t) = (t = ''inproc'' \<and> allowed cb c anonymousServiceName method)"

definition authorised :: "('m, 'n, 'e) casbin \<Rightarrow> 'n \<Rightarrow> string \<Rightarrow> rpc_peer option \<Rightarrow> bool" where
  "authorised cb c method peer \<longleftrightarrow> exempt method \<or>
     (case peer of None \<Rightarrow> False | Some p \<Rightarrow> (case AuthInfo p of None \<Rightarrow> False | Some info \<Rightarrow> caller_allowed cb c method info))"

lemma checkServiceAccess_allowed: "checkServiceAccess cb c service (base_method method) = allowed cb c service method"
  by (simp add: checkServiceAccess_def allowed_def split: sum.split bool.split)

lemma check_certificate_allowed:
  "check_certificate cb c cert (base_method method) =
    (if list_ex (\<lambda>name. allowed cb c name method) (cert_names cert) then None
     else Some (unauthenticated ''access_denied''
       [(''client'', last (CommonName cert # DNSNames cert)), (''method'', base_method method)]))"
  by (simp add: check_certificate_def checkServiceAccess_allowed cert_names_def)

definition refusal :: "string \<Rightarrow> auth_info \<Rightarrow> 'e rpc_error" where
  "refusal method info = (case info of
      TLSInfo [] \<Rightarrow> unauthenticated ''peer_cert_not_found'' []
    | TLSInfo (cert # _) \<Rightarrow> unauthenticated ''access_denied''
        [(''client'', last (CommonName cert # DNSNames cert)), (''method'', base_method method)]
    | OtherAuth t \<Rightarrow>
        if t = ''inproc'' then unauthenticated ''access_denied'' [(''client_service'', anonymousServiceName)]
        else if t = ''tls'' then unauthenticated ''auth_tls_info_not_found'' []
        else unauthenticated ''auth_type_not_supported'' [(''auth_type'', t)])"

lemma checkAccess_info:
  assumes "\<not> exempt method" "rc_peer ctx = Some p" "AuthInfo p = Some info"
  shows "checkAccess cb c ctx method = Return (if caller_allowed cb c method info then None else Some (refusal method info))"
proof (cases info)
  case (TLSInfo certs)
  then show ?thesis
    using assms by (cases certs) (simp_all add: checkAccess_def Let_def check_certificate_allowed refusal_def)
next
  case (OtherAuth t)
  then show ?thesis
    using assms by (simp add: checkAccess_def Let_def checkServiceAccess_allowed refusal_def)
qed

lemma checkAccess_peer: "checkAccess cb c ctx method =
    (if exempt method then Return None
     else case rc_peer ctx of
       None \<Rightarrow> Return (Some (unauthenticated ''peer_not_found_in_context'' []))
     | Some p \<Rightarrow> (case AuthInfo p of
         None \<Rightarrow> Panic NilDereference
       | Some info \<Rightarrow> Return (if caller_allowed cb c method info then None else Some (refusal method info))))"
  by (auto simp: checkAccess_info split: option.split) (simp_all add: checkAccess_def)

lemma refusal_code: "rpc_code (refusal method info) = Some codes_Unauthenticated"
  by (simp add: refusal_def unauthenticated_def split: auth_info.split list.split)

lemma checkAccess_granted: "checkAccess cb c ctx method = Return None \<longleftrightarrow> authorised cb c method (rc_peer ctx)"
  by (simp add: checkAccess_peer authorised_def split: option.split)

text \<open>An interceptor that gets a response only from the next handler, called for the same peer.\<close>

definition keeps_peer :: "(('q, 'r, 'e) rpc_handler \<Rightarrow> ('q, 'r, 'e) rpc_handler) \<Rightarrow> bool" where
  "keeps_peer i \<longleftrightarrow> (\<forall>h ctx req r. i h ctx req = Return (Inr r) \<longrightarrow>
     (\<exists>ctx' req'. rc_peer ctx' = rc_peer ctx \<and> h ctx' req' = Return (Inr r)))"

lemma keeps_peerE:
  assumes "keeps_peer i" "i h ctx req = Return (Inr r)"
  obtains ctx' req' where "rc_peer ctx' = rc_peer ctx" "h ctx' req' = Return (Inr r)"
  using assms unfolding keeps_peer_def by blast

lemma keeps_peer_access: "keeps_peer (Access_UnaryServerInterceptor cb c method)"
  by (auto simp: keeps_peer_def Access_UnaryServerInterceptor_def split: option.splits)

lemma keeps_peer_validator: "keeps_peer (ValidatorUnaryServerInterceptor vs)"
  by (auto simp: keeps_peer_def ValidatorUnaryServerInterceptor_def split: option.splits)

lemma chain_authorised:
  assumes "list_all (\<lambda>u. keeps_peer (sem u)) us" "a \<in> set us" "sem a = Access_UnaryServerInterceptor cb c method"
    and "chain_unary sem us handler ctx req = Return (Inr r)"
  shows "authorised cb c method (rc_peer ctx)"
  using assms
proof (induction us arbitrary: ctx req)
  case (Cons u us)
  have run: "sem u (chain_unary sem us handler) ctx req = Return (Inr r)"
    using Cons.prems(4) by (simp only: chain_unary_def foldr.simps o_apply)
  show ?case
  proof (cases "u = a")
    case True
    with run Cons.prems(3) have "checkAccess cb c ctx method = Return None"
      by (auto simp: Access_UnaryServerInterceptor_def split: option.splits)
    then show ?thesis by (simp add: checkAccess_granted)
  next
    case False
    from Cons.prems(1) have "keeps_peer (sem u)" by simp
    from this run obtain ctx' req' where
      same: "rc_peer ctx' = rc_peer ctx" and call: "chain_unary sem us handler ctx' req' = Return (Inr r)"
      by (rule keeps_peerE [where h = "chain_unary sem us handler"])
    from Cons.prems(1,2) False have "list_all (\<lambda>u. keeps_peer (sem u)) us" "a \<in> set us" by auto
    then have "authorised cb c method (rc_peer ctx')" using Cons.prems(3) call by (rule Cons.IH)
    then show ?thesis by (simp only: same)
  qed
qed simp

section \<open>Headers and tokens\<close>

lemma ToLower_append: "ToLower (a @ b) = ToLower a @ ToLower b"
  by (simp add: ToLower_def)

lemma ToLower_MetadataPrefix: "ToLower MetadataPrefix = MetadataPrefix"
  by code_simp

lemma ToLower_tokenAuthHeader: "ToLower tokenAuthHeader = tokenAuthHeader"
  by code_simp

text \<open>A call appends its metadata to what the caller has set.\<close>

definition append_metadata :: "(string \<times> string) list \<Rightarrow> rpc_metadata \<Rightarrow> rpc_metadata" where
  "append_metadata kvs meta =
     fold (\<lambda>(k, v) m. m(ToLower k \<mapsto> (case m (ToLower k) of None \<Rightarrow> [] | Some vs \<Rightarrow> vs) @ [v])) kvs meta"

lemma meta_Get_auth:
  "meta_Get (append_metadata (GetRequestMetadata t) meta) tokenAuthHeader
     = meta_Get meta tokenAuthHeader @ [tokenAuthPrefix @ token_of t]"
  by (simp add: meta_Get_def append_metadata_def GetRequestMetadata_def ToLower_tokenAuthHeader split: option.split)

section \<open>Properties\<close>


text \<open>
  C11. A request that gets a response through a chain of interceptors with access control is
  authorised for the peer it came from, wherever in the chain access control stands, as long as the
  other interceptors answer only with what the next handler answers, called for the same peer.
\<close>

theorem handler_behind_access_control:
  assumes "UnaryAccess model policy \<in> set us"
    and "sem (UnaryAccess model policy) = Access_UnaryServerInterceptor cb c FullMethod"
    and "\<And>u. u \<in> set us \<Longrightarrow> u \<noteq> UnaryAccess model policy \<Longrightarrow> keeps_peer (sem u)"
    and "chain_unary sem us handler ctx req = Return (Inr r)"
  shows "authorised cb c FullMethod (rc_peer ctx)"
proof (rule chain_authorised [OF _ assms(1,2,4)])
  show "list_all (\<lambda>u. keeps_peer (sem u)) us"
    unfolding list_all_iff using assms(2,3) keeps_peer_access by metis
qed

text \<open>
  A token a client attaches to a call is the token the server reads, unless the call
  carries an authorization header of its own, which wins.
\<close>

theorem token_reaches_server:
  "GetAuthToken \<lparr>rc_metadata = Some (append_metadata (GetRequestMetadata (NewTokenAuth token)) meta), rc_peer = peer\<rparr>
    = (case meta_Get meta tokenAuthHeader of
         [] \<Rightarrow> token
       | own # _ \<Rightarrow> GetAuthToken \<lparr>rc_metadata = Some meta, rc_peer = peer\<rparr>)"
  by (simp add: GetAuthToken_def meta_Get_auth NewTokenAuth_def HasPrefix_iff split: list.split)


lemma LastIndex_rest: "LastIndex s x = Some i \<Longrightarrow> x \<notin> set (drop (i + 1) s)"
proof (induction s arbitrary: i)
  case (Cons c s)
  show ?case
  proof (cases "LastIndex s x")
    case None
    with Cons.prems LastIndex_None [of s x] show ?thesis by (auto split: if_splits)
  next
    case (Some j)
    with Cons show ?thesis by auto
  qed
qed simp

lemma base_method_no_slash: "CHR ''/'' \<notin> set (base_method m)"
  using LastIndex_rest [of m "CHR ''/''"] by (auto simp: base_method_def LastIndex_None split: option.split)

lemma base_method_of_name: "CHR ''/'' \<notin> set name \<Longrightarrow> base_method (service @ CHR ''/'' # name) = name"
  by (simp add: base_method_def LastIndex_append_sep)


section \<open>Concrete runs\<close>

definition sample_casbin :: "(unit, unit, unit) casbin" where
  "sample_casbin = \<lparr>NewModelFromString = (\<lambda>_. Inr ()), NewModelFromFile = (\<lambda>_. Inr ()), model_text = (\<lambda>_. []),
     NewEnforcer = (\<lambda>_ _. Inr ()), AddNamedMatchingFunc = (\<lambda>_ _ n. n),
     Enforce = (\<lambda>_ service method. if method = ''Boom'' then Inl () else Inr (service = ''billing'' \<and> method = ''Pay''))\<rparr>"

definition sample_caller :: "string \<Rightarrow> rpc_context" where
  "sample_caller name = \<lparr>rc_metadata = None, rc_peer = Some \<lparr>Addr = None,
     AuthInfo = Some (TLSInfo [\<lparr>CommonName = [], DNSNames = [''web'', name]\<rparr>])\<rparr>\<rparr>"


lemma handler_behind_access_control_witness:
  "authorised sample_casbin () ''/shop.Orders/Pay'' (rc_peer (sample_caller ''billing''))"
proof -
  let ?sem = "\<lambda>u :: unit unary_server. case u of
      UnaryAccess _ _ \<Rightarrow> Access_UnaryServerInterceptor sample_casbin () ''/shop.Orders/Pay''
    | _ \<Rightarrow> ValidatorUnaryServerInterceptor \<lparr>Validate_legacy = (\<lambda>_. Some None), Validate_all = (\<lambda>_. None)\<rparr>"
  have "chain_unary ?sem [UnaryValidator, UnaryAccess [] ''p.csv''] (\<lambda>ctx req. Return (Inr req))
      (sample_caller ''billing'') (7 :: nat) = Return (Inr 7)"
    by code_simp
  then show ?thesis
    by (rule handler_behind_access_control [rotated -1, where model = "[]" and policy = "''p.csv''"])
      (auto simp: keeps_peer_validator)
qed


end
