(* ===== verification/Serve.thy ===== *)
theory Serve
  imports App
begin

text \<open>
  Serving and shutting down (\<open>src/appmgr/serve.go\<close>): the goroutines that \<open>Run\<close> of a service
  leaves behind, the wait group that \<open>Wait\<close> waits on, and their shutdown once the context is
  cancelled. The HTTP and gRPC servers of the libraries are taken as documented: stopping closes the
  listeners at once, waits for the requests in flight, and makes \<open>Serve\<close> return.
\<close>

section \<open>State\<close>

datatype srv_kind = HttpServer | GrpcServer

text \<open>
  Where the goroutine that stops the server is: before the cancellation, in \<open>Shutdown\<close> or
  waiting for \<open>GracefulStop\<close>, in \<open>Stop\<close>, or at its end, after a graceful stop or not.
\<close>

datatype stop_phase = AwaitCancel | Stopping | ForceStopping | StopFinished bool

text \<open>The phases in the order a server goes through them.\<close>

fun phase_index :: "stop_phase \<Rightarrow> nat" where
  "phase_index AwaitCancel = 0"
| "phase_index Stopping = 1"
| "phase_index ForceStopping = 2"
| "phase_index (StopFinished graceful) = 3 + of_bool graceful"

instantiation stop_phase :: linorder
begin

definition less_eq_stop_phase :: "stop_phase \<Rightarrow> stop_phase \<Rightarrow> bool" where
  "p \<le> q \<longleftrightarrow> phase_index p \<le> phase_index q"

definition less_stop_phase :: "stop_phase \<Rightarrow> stop_phase \<Rightarrow> bool" where
  "p < q \<longleftrightarrow> phase_index p < phase_index q"

instance
proof
  fix p q :: stop_phase
  have "phase_index p = phase_index q \<Longrightarrow> p = q" by (cases p; cases q) (auto simp: of_bool_def split: if_splits)
  then show "p \<le> q \<Longrightarrow> q \<le> p \<Longrightarrow> p = q"
    unfolding less_eq_stop_phase_def by (blast intro: le_antisym)
qed (auto simp: less_eq_stop_phase_def less_stop_phase_def)

end

record srv =
  srv_kind :: srv_kind
  serving :: bool
  stopper :: stop_phase
  inflight :: nat

text \<open>A panic of a goroutine takes down the process, after its deferred calls.\<close>

record serve_sys =
  ctx_done :: bool
  servers :: "srv list"
  wait_count :: int
  panicking :: bool
  dead :: bool

section \<open>Steps\<close>

text \<open>
  The seconds a server has to stop. Time itself is not modelled: the deadline may pass at any
  moment after stopping has begun.
\<close>

definition shutdownTimeout :: int where "shutdownTimeout = 10"

datatype srv_action =
    Accept | FinishRequest | ServeFails | BeginStop | ServeReturns | StopsGracefully | StopTimesOut | ForceStop

fun finished_stop :: "stop_phase \<Rightarrow> bool" where
  "finished_stop (StopFinished _) = True"
| "finished_stop _ = False"

text \<open>
  One step of the goroutines of a server, with how often it counts the wait group down. The
  goroutine that stops an HTTP server counts down, whatever \<open>Shutdown\<close> gave; for a gRPC
  server it is the serving one, which returns when the server has stopped.
\<close>

definition http_step :: "bool \<Rightarrow> srv_action \<Rightarrow> srv \<Rightarrow> (srv \<times> nat) option" where
  "http_step cancel act srv = (case act of
      Accept \<Rightarrow> if serving srv \<and> stopper srv = AwaitCancel then Some (srv\<lparr>inflight := inflight srv + 1\<rparr>, 0) else None
    | FinishRequest \<Rightarrow> if 0 < inflight srv then Some (srv\<lparr>inflight := inflight srv - 1\<rparr>, 0) else None
    | ServeFails \<Rightarrow> if serving srv \<and> stopper srv = AwaitCancel then Some (srv\<lparr>serving := False\<rparr>, 0) else None
    | BeginStop \<Rightarrow> if cancel \<and> stopper srv = AwaitCancel then Some (srv\<lparr>stopper := Stopping\<rparr>, 0) else None
    | ServeReturns \<Rightarrow> if serving srv \<and> stopper srv \<noteq> AwaitCancel then Some (srv\<lparr>serving := False\<rparr>, 0) else None
    | StopsGracefully \<Rightarrow>
        if stopper srv = Stopping \<and> inflight srv = 0 then Some (srv\<lparr>stopper := StopFinished True\<rparr>, 1) else None
    | StopTimesOut \<Rightarrow> if stopper srv = Stopping then Some (srv\<lparr>stopper := StopFinished False\<rparr>, 1) else None
    | ForceStop \<Rightarrow> None)"

definition grpc_step :: "bool \<Rightarrow> srv_action \<Rightarrow> srv \<Rightarrow> (srv \<times> nat) option" where
  "grpc_step cancel act srv = (case act of
      Accept \<Rightarrow> if serving srv \<and> stopper srv = AwaitCancel then Some (srv\<lparr>inflight := inflight srv + 1\<rparr>, 0) else None
    | FinishRequest \<Rightarrow> if 0 < inflight srv then Some (srv\<lparr>inflight := inflight srv - 1\<rparr>, 0) else None
    | ServeFails \<Rightarrow> if serving srv \<and> stopper srv = AwaitCancel then Some (srv\<lparr>serving := False\<rparr>, 1) else None
    | BeginStop \<Rightarrow> if cancel \<and> stopper srv = AwaitCancel then Some (srv\<lparr>stopper := Stopping\<rparr>, 0) else None
    | ServeReturns \<Rightarrow> if serving srv \<and> finished_stop (stopper srv) then Some (srv\<lparr>serving := False\<rparr>, 1) else None
    | StopsGracefully \<Rightarrow>
        if stopper srv = Stopping \<and> inflight srv = 0 then Some (srv\<lparr>stopper := StopFinished True\<rparr>, 0) else None
    | StopTimesOut \<Rightarrow> if stopper srv = Stopping then Some (srv\<lparr>stopper := ForceStopping\<rparr>, 0) else None
    | ForceStop \<Rightarrow>
        if stopper srv = ForceStopping then Some (srv\<lparr>stopper := StopFinished False, inflight := 0\<rparr>, 0) else None)"

definition srv_step :: "bool \<Rightarrow> srv_action \<Rightarrow> srv \<Rightarrow> (srv \<times> nat) option" where
  "srv_step cancel act srv = (case srv_kind srv of
      HttpServer \<Rightarrow> http_step cancel act srv | GrpcServer \<Rightarrow> grpc_step cancel act srv)"

datatype serve_action = Cancel | Abort | On nat srv_action

fun serve_step :: "serve_action \<Rightarrow> serve_sys \<Rightarrow> serve_sys option" where
  "serve_step Cancel s = (if dead s then None else Some (s\<lparr>ctx_done := True\<rparr>))"
| "serve_step Abort s = (if panicking s \<and> \<not> dead s then Some (s\<lparr>dead := True\<rparr>) else None)"
| "serve_step (On i act) s =
     (if dead s \<or> length (servers s) \<le> i then None
      else case srv_step (ctx_done s) act (servers s ! i) of
        None \<Rightarrow> None
      | Some (srv, dones) \<Rightarrow> Some (s\<lparr>servers := (servers s)[i := srv], wait_count := wait_count s - int dones,
          panicking := (panicking s \<or> act = ServeFails)\<rparr>))"

fun serve_run :: "serve_action list \<Rightarrow> serve_sys \<Rightarrow> serve_sys option" where
  "serve_run [] s = Some s"
| "serve_run (a # as) s = (case serve_step a s of None \<Rightarrow> None | Some s' \<Rightarrow> serve_run as s')"

text \<open>What \<open>serveHttpService\<close> and \<open>serveGrpcService\<close> leave running, and what \<open>Run\<close> does.\<close>

fun served :: "service_effect \<Rightarrow> srv option" where
  "served (ServeGrpc _) = Some \<lparr>srv_kind = GrpcServer, serving = True, stopper = AwaitCancel, inflight = 0\<rparr>"
| "served (ServeHttp _) = Some \<lparr>srv_kind = HttpServer, serving = True, stopper = AwaitCancel, inflight = 0\<rparr>"
| "served _ = None"

definition serve_start :: "service_effect list \<Rightarrow> nat \<Rightarrow> serve_sys" where
  "serve_start effects n = \<lparr>ctx_done = False, servers = List.map_filter served effects, wait_count = int n,
     panicking = False, dead = False\<rparr>"

section \<open>The wait group\<close>

text \<open>Whether the goroutine that counts down for a server has not yet done so.\<close>

definition pending :: "srv \<Rightarrow> int" where
  "pending srv = of_bool (case srv_kind srv of HttpServer \<Rightarrow> \<not> finished_stop (stopper srv) | GrpcServer \<Rightarrow> serving srv)"

definition pendings :: "srv list \<Rightarrow> int" where
  "pendings srvs = sum_list (map pending srvs)"

definition srv_ok :: "bool \<Rightarrow> bool \<Rightarrow> srv \<Rightarrow> bool" where
  "srv_ok cancel panicked srv \<longleftrightarrow> (stopper srv \<noteq> AwaitCancel \<longrightarrow> cancel)
     \<and> (case srv_kind srv of
          HttpServer \<Rightarrow> (stopper srv = StopFinished True \<longrightarrow> inflight srv = 0) \<and> stopper srv \<noteq> ForceStopping
            \<and> (serving srv \<or> panicked \<or> stopper srv \<noteq> AwaitCancel)
        | GrpcServer \<Rightarrow> (finished_stop (stopper srv) \<longrightarrow> inflight srv = 0)
            \<and> (serving srv \<or> panicked \<or> finished_stop (stopper srv)))"

text \<open>The steps left to the goroutines of a server.\<close>

fun stop_rank :: "stop_phase \<Rightarrow> nat" where
  "stop_rank AwaitCancel = 3"
| "stop_rank Stopping = 2"
| "stop_rank ForceStopping = 1"
| "stop_rank (StopFinished _) = 0"

definition srv_rank :: "srv \<Rightarrow> nat" where
  "srv_rank srv = stop_rank (stopper srv) + of_bool (serving srv)"

text \<open>The steps of the goroutines themselves, beside those of clients and of failing servers.\<close>

fun own_step :: "serve_action \<Rightarrow> bool" where
  "own_step (On _ act) = (act \<in> {BeginStop, ServeReturns, StopsGracefully, StopTimesOut, ForceStop})"
| "own_step _ = False"

lemma srv_step_pending:
  assumes "srv_step cancel act srv = Some (srv', dones)"
  shows "pending srv' = pending srv - int dones"
  using assms
  by (auto simp: srv_step_def http_step_def grpc_step_def pending_def
      split: srv_kind.splits srv_action.splits if_splits)

lemma srv_step_ok:
  assumes "srv_step cancel act srv = Some (srv', dones)" "srv_ok cancel panicked srv"
  shows "srv_ok cancel (panicked \<or> act = ServeFails) srv'"
  using assms
  by (auto simp: srv_step_def http_step_def grpc_step_def srv_ok_def
      split: srv_kind.splits srv_action.splits if_splits)

lemma srv_step_rank:
  assumes "srv_step cancel act srv = Some (srv', dones)"
  shows "srv_rank srv' + of_bool (own_step (On i act)) \<le> srv_rank srv"
  using assms
  by (auto simp: srv_step_def http_step_def grpc_step_def srv_rank_def
      split: srv_kind.splits srv_action.splits if_splits)

definition serve_inv :: "int \<Rightarrow> serve_sys \<Rightarrow> bool" where
  "serve_inv extra s \<longleftrightarrow> wait_count s = pendings (servers s) + extra
     \<and> list_all (srv_ok (ctx_done s) (panicking s)) (servers s)"

lemma srv_ok_mono: "srv_ok c p srv \<Longrightarrow> (c \<longrightarrow> c') \<Longrightarrow> (p \<longrightarrow> p') \<Longrightarrow> srv_ok c' p' srv"
  by (auto simp: srv_ok_def split: srv_kind.splits)

lemma list_all_srv_ok_mono:
  "list_all (srv_ok c p) srvs \<Longrightarrow> (c \<longrightarrow> c') \<Longrightarrow> (p \<longrightarrow> p') \<Longrightarrow> list_all (srv_ok c' p') srvs"
  unfolding list_all_iff by (blast intro: srv_ok_mono)

lemma serve_step_OnE:
  assumes "serve_step (On i act) s = Some s'"
  obtains srv dones where "i < length (servers s)" "srv_step (ctx_done s) act (servers s ! i) = Some (srv, dones)"
    "s' = s\<lparr>servers := (servers s)[i := srv], wait_count := wait_count s - int dones, panicking := (panicking s \<or> act = ServeFails)\<rparr>"
  using assms by (auto split: if_splits option.splits)

lemma pendings_update:
  "i < length srvs \<Longrightarrow> pendings (srvs[i := srv]) = pendings srvs - pending (srvs ! i) + pending srv"
  by (simp add: pendings_def sum_list_map_update)

lemma serve_inv_step:
  assumes "serve_step a s = Some s'" "serve_inv extra s"
  shows "serve_inv extra s'"
proof (cases a)
  case Cancel
  with assms show ?thesis by (auto simp: serve_inv_def intro: list_all_srv_ok_mono split: if_splits)
next
  case Abort
  with assms show ?thesis by (auto simp: serve_inv_def split: if_splits)
next
  case (On i act)
  obtain srv dones where i: "i < length (servers s)"
    and step: "srv_step (ctx_done s) act (servers s ! i) = Some (srv, dones)"
    and s': "s' = s\<lparr>servers := (servers s)[i := srv], wait_count := wait_count s - int dones,
      panicking := (panicking s \<or> act = ServeFails)\<rparr>"
    using assms(1) unfolding On by (rule serve_step_OnE)
  have all: "list_all (srv_ok (ctx_done s) (panicking s)) (servers s)" using assms(2) by (simp add: serve_inv_def)
  have "srv_ok (ctx_done s) (panicking s \<or> act = ServeFails) srv"
    using srv_step_ok [OF step] all i by (simp add: list_all_length)
  moreover have "list_all (srv_ok (ctx_done s) (panicking s \<or> act = ServeFails)) (servers s)"
    by (rule list_all_srv_ok_mono [OF all]) simp_all
  ultimately show ?thesis
    using assms(2) srv_step_pending [OF step] i
    by (simp add: serve_inv_def s' pendings_update list_all_update)
qed

lemma serve_run_inv: "serve_run as s = Some s' \<Longrightarrow> serve_inv extra s \<Longrightarrow> serve_inv extra s'"
  by (induction as arbitrary: s) (auto split: option.splits intro: serve_inv_step)

lemma serve_inv_started:
  assumes "n = length (filter is_server effects) + listen_failed err"
  shows "serve_inv (int (listen_failed err)) (serve_start effects n)"
proof -
  have "pendings (List.map_filter served effects) = int (length (filter is_server effects))"
    by (induction effects) (auto simp: pendings_def pending_def is_server_def List.map_filter_simps split: service_effect.splits)
  moreover have "list_all (srv_ok False False) (List.map_filter served effects)"
    by (induction effects) (auto simp: srv_ok_def List.map_filter_simps split: service_effect.splits option.splits elim!: served.elims)
  ultimately show ?thesis
    using assms by (simp add: serve_inv_def serve_start_def)
qed

lemma serve_inv_start:
  assumes "service_Run env status svc = (effects, n, err)"
  shows "serve_inv (int (listen_failed err)) (serve_start effects n)"
  using service_Run_wait_count [OF assms] by (intro serve_inv_started) simp

text \<open>The servers stay the same ones, and none comes back from stopping.\<close>

lemma srv_step_forward:
  "srv_step cancel act srv = Some (srv', dones) \<Longrightarrow> srv_kind srv' = srv_kind srv \<and> stopper srv \<le> stopper srv'"
  by (auto simp: srv_step_def http_step_def grpc_step_def less_eq_stop_phase_def
      split: srv_kind.splits srv_action.splits if_splits)

definition same_or_later :: "srv \<Rightarrow> srv \<Rightarrow> bool" where
  "same_or_later srv srv' \<longleftrightarrow> srv_kind srv' = srv_kind srv \<and> stopper srv \<le> stopper srv'"

lemma serve_step_forward:
  "serve_step a s = Some s' \<Longrightarrow> list_all2 same_or_later (servers s) (servers s')"
proof (cases a)
  case (On i act)
  assume "serve_step a s = Some s'"
  then obtain srv dones where "i < length (servers s)" "srv_step (ctx_done s) act (servers s ! i) = Some (srv, dones)"
    "servers s' = (servers s)[i := srv]"
    unfolding On by (elim serve_step_OnE) simp
  with srv_step_forward [of "ctx_done s" act "servers s ! i" srv dones] show ?thesis
    by (auto simp: list_all2_conv_all_nth nth_list_update same_or_later_def)
qed (auto simp: list_all2_conv_all_nth same_or_later_def split: if_splits)

lemma serve_run_forward:
  "serve_run as s = Some s' \<Longrightarrow> list_all2 same_or_later (servers s) (servers s')"
proof (induction as arbitrary: s)
  case (Cons a as)
  then obtain s1 where s1: "serve_step a s = Some s1" "serve_run as s1 = Some s'" by (auto split: option.splits)
  show ?case
    by (rule list_all2_trans [OF _ serve_step_forward [OF s1(1)] Cons.IH [OF s1(2)]]) (auto simp: same_or_later_def)
qed (simp add: list_all2_conv_all_nth same_or_later_def)

definition sys_rank :: "serve_sys \<Rightarrow> nat" where
  "sys_rank s = sum_list (map srv_rank (servers s))"

lemma serve_step_rank:
  assumes "serve_step a s = Some s'"
  shows "sys_rank s' + of_bool (own_step a) \<le> sys_rank s"
proof (cases a)
  case (On i act)
  obtain srv dones where i: "i < length (servers s)"
    and step: "srv_step (ctx_done s) act (servers s ! i) = Some (srv, dones)"
    and s': "s' = s\<lparr>servers := (servers s)[i := srv], wait_count := wait_count s - int dones,
      panicking := (panicking s \<or> act = ServeFails)\<rparr>"
    using assms unfolding On by (rule serve_step_OnE)
  have "srv_rank (servers s ! i) \<le> sys_rank s"
    using i by (auto simp: sys_rank_def intro: member_le_sum_list)
  with srv_step_rank [OF step, of i] i show ?thesis
    by (simp add: sys_rank_def s' map_update sum_list_update On)
qed (use assms in \<open>auto simp: sys_rank_def split: if_splits\<close>)

lemma serve_run_rank:
  "serve_run as s = Some s' \<Longrightarrow> sys_rank s' + length (filter own_step as) \<le> sys_rank s"
proof (induction as arbitrary: s)
  case (Cons a as)
  then obtain s1 where "serve_step a s = Some s1" "serve_run as s1 = Some s'" by (auto split: option.splits)
  with Cons.IH [of s1] serve_step_rank [of a s s1] show ?case by auto
qed simp

lemma sys_rank_start: "sys_rank (serve_start effects n) = 4 * length (List.map_filter served effects)"
  by (induction effects)
    (auto simp: sys_rank_def serve_start_def srv_rank_def List.map_filter_simps split: option.splits elim!: served.elims)

text \<open>The steps the goroutines could take next.\<close>

definition own_steps :: "serve_sys \<Rightarrow> serve_action list" where
  "own_steps s = concat (map (\<lambda>i. map (On i) [BeginStop, ServeReturns, StopsGracefully, StopTimesOut, ForceStop])
     [0..<length (servers s)])"

definition at_rest :: "serve_sys \<Rightarrow> bool" where
  "at_rest s \<longleftrightarrow> list_all (\<lambda>a. serve_step a s = None) (own_steps s)"

lemma at_restD:
  assumes "at_rest s" "\<not> dead s" "i < length (servers s)" "act \<in> {BeginStop, ServeReturns, StopsGracefully, StopTimesOut, ForceStop}"
  shows "srv_step (ctx_done s) act (servers s ! i) = None"
proof -
  have "On i act \<in> set (own_steps s)" using assms(3,4) by (auto simp: own_steps_def)
  with assms(1) have "serve_step (On i act) s = None" unfolding at_rest_def list_all_iff by blast
  with assms(2,3) show ?thesis by (auto split: option.splits)
qed

lemma resting_not_pending:
  assumes "srv_step True BeginStop srv = None" "srv_step True ServeReturns srv = None"
    "srv_step True StopTimesOut srv = None" "srv_step True ForceStop srv = None" "srv_ok True p srv"
  shows "pending srv = 0"
  using assms
  by (cases "stopper srv"; cases "srv_kind srv")
    (auto simp: srv_step_def http_step_def grpc_step_def pending_def srv_ok_def split: if_splits)

lemma resting_none_pending:
  assumes "at_rest s" "\<not> dead s" "ctx_done s" "serve_inv extra s"
  shows "pendings (servers s) = 0"
proof -
  have "pending srv = 0" if "srv \<in> set (servers s)" for srv
  proof -
    from that obtain i where i: "i < length (servers s)" "servers s ! i = srv" by (auto simp: in_set_conv_nth)
    have "srv_ok True (panicking s) srv" using assms(3,4) that by (auto simp: serve_inv_def list_all_iff)
    with at_restD [OF assms(1,2) i(1)] i(2) assms(3) show ?thesis by (intro resting_not_pending) auto
  qed
  then have "map pending (servers s) = map (\<lambda>_. 0) (servers s)" by simp
  then show ?thesis by (simp only: pendings_def sum_list_0)
qed

text \<open>What a server that the wait group no longer waits for looks like.\<close>

fun stopped :: "srv \<Rightarrow> bool" where
  "stopped srv = (case srv_kind srv of
      HttpServer \<Rightarrow> stopper srv = StopFinished True \<and> inflight srv = 0 \<or> stopper srv = StopFinished False
    | GrpcServer \<Rightarrow> \<not> serving srv \<and> finished_stop (stopper srv) \<and> inflight srv = 0)"

lemma finished_stop_iff: "finished_stop p \<longleftrightarrow> p = StopFinished True \<or> p = StopFinished False"
  by (cases p) auto

lemma pending_nonneg: "0 \<le> pending srv"
  by (simp add: pending_def)

lemma pending_zero:
  assumes "srv_ok c False srv" "pending srv = 0"
  shows "stopped srv \<and> c"
  using assms by (auto simp: srv_ok_def pending_def finished_stop_iff split: srv_kind.splits if_splits)

lemma pendings_zero: "pendings srvs = 0 \<Longrightarrow> srv \<in> set srvs \<Longrightarrow> pending srv = 0"
  unfolding pendings_def using sum_list_nonneg_eq_0_iff [of "map pending srvs"] pending_nonneg by auto

lemma pendings_nonneg: "0 \<le> pendings srvs"
  unfolding pendings_def by (rule sum_list_nonneg) (auto simp: pending_nonneg)

section \<open>Properties\<close>

text \<open>
  C8. \<open>Wait\<close> of a service does not return early: when the wait group is down to zero in a
  process that is not going down with a panic, the context has been cancelled and every server has been
  stopped. Then no gRPC request is in flight; requests of an HTTP server are only if its shutdown timed
  out. The wait group never goes below zero.
\<close>

theorem Wait_means_stopped:
  assumes "service_Run env status svc = (effects, n, err)" "serve_run as (serve_start effects n) = Some s"
  shows "0 \<le> wait_count s \<and>
    (if wait_count s = 0 \<and> \<not> panicking s
     then list_all stopped (servers s) \<and> listen_failed err = 0 \<and> (servers s = [] \<or> ctx_done s)
     else True)"
proof -
  from serve_run_inv [OF assms(2) serve_inv_start [OF assms(1)]]
  have inv: "wait_count s = pendings (servers s) + int (listen_failed err)"
    and ok: "list_all (srv_ok (ctx_done s) (panicking s)) (servers s)"
    by (simp_all add: serve_inv_def)
  have "0 \<le> wait_count s" using inv pendings_nonneg [of "servers s"] by simp
  moreover have "list_all stopped (servers s) \<and> listen_failed err = 0 \<and> (servers s = [] \<or> ctx_done s)"
    if zero: "wait_count s = 0 \<and> \<not> panicking s"
  proof -
    have p: "pendings (servers s) = 0" and l: "listen_failed err = 0"
      using zero inv pendings_nonneg [of "servers s"] by auto
    have "stopped srv \<and> ctx_done s" if "srv \<in> set (servers s)" for srv
      using pending_zero [of "ctx_done s" srv] pendings_zero [OF p that] ok zero that by (simp add: list_all_iff)
    then show ?thesis using l by (cases "servers s") (auto simp: list_all_iff)
  qed
  ultimately show ?thesis by simp
qed

text \<open>
  Shutting down ends: in any run the goroutines of the servers take at most four steps per
  server of their own, and when the context is cancelled and none of them can take another one, the wait
  group is down to zero. It stays above zero for ever only after a server that could not listen.
\<close>

theorem shutdown_completes:
  assumes "service_Run env status svc = (effects, n, err)" "serve_run as (serve_start effects n) = Some s"
  shows "length (filter own_step as) \<le> 4 * length (servers s)
    \<and> (if ctx_done s \<and> \<not> dead s \<and> at_rest s then wait_count s = int (listen_failed err) else True)"
proof -
  from list_all2_lengthD [OF serve_run_forward [OF assms(2)]] serve_run_rank [OF assms(2)]
  have "length (filter own_step as) \<le> 4 * length (servers s)"
    unfolding sys_rank_start by (simp add: serve_start_def)
  moreover from serve_run_inv [OF assms(2) serve_inv_start [OF assms(1)]]
  have inv: "serve_inv (int (listen_failed err)) s" .
  then have "wait_count s = int (listen_failed err)" if "ctx_done s \<and> \<not> dead s \<and> at_rest s"
    using resting_none_pending [OF _ _ _ inv] that by (simp add: serve_inv_def)
  ultimately show ?thesis by simp
qed

section \<open>Concrete runs\<close>

text \<open>A service with both servers is asked to stop while each has a request that does not end.\<close>

definition sample_actions :: "serve_action list" where
  "sample_actions = [On 0 Accept, On 1 Accept, Cancel, On 1 BeginStop, On 0 BeginStop, On 0 StopTimesOut,
     On 1 StopTimesOut, On 0 ForceStop, On 1 ServeReturns, On 0 ServeReturns]"

definition sample_shutdown :: "service_effect list \<Rightarrow> nat \<Rightarrow> serve_sys option" where
  "sample_shutdown effects n = serve_run sample_actions (serve_start effects n)"

definition stops_well :: "serve_sys \<Rightarrow> bool" where
  "stops_well s \<longleftrightarrow> wait_count s = 0 \<and> \<not> panicking s \<and> ctx_done s \<and> \<not> dead s \<and> at_rest s"

lemma sample_shutdown_runs:
  obtains svc effects n s where
    "newService sample_app_env 0 sample_mm (sample_service '':8080'' '':8081'') = Return (Inr svc)"
    "service_Run sample_app_env (healthy0 :: unit Status) svc = (effects, n, None)"
    "sample_shutdown effects n = Some s" "stops_well s" "length (servers s) = 2"
proof -
  have "case newService sample_app_env 0 sample_mm (sample_service '':8080'' '':8081'') of
      Return (Inr svc) \<Rightarrow> (case service_Run sample_app_env (healthy0 :: unit Status) svc of
          (effects, n, None) \<Rightarrow> (case sample_shutdown effects n of
              Some s \<Rightarrow> stops_well s \<and> length (servers s) = 2 | None \<Rightarrow> False)
        | _ \<Rightarrow> False)
    | _ \<Rightarrow> False"
    by code_simp
  then show ?thesis by (auto split: exec.splits sum.splits prod.splits option.splits intro: that)
qed

lemma Wait_means_stopped_witness:
  "\<exists>svc effects n s. newService sample_app_env 0 sample_mm (sample_service '':8080'' '':8081'') = Return (Inr svc)
    \<and> service_Run sample_app_env (healthy0 :: unit Status) svc = (effects, n, None)
    \<and> sample_shutdown effects n = Some s \<and> list_all stopped (servers s) \<and> length (servers s) = 2"
proof (rule sample_shutdown_runs)
  fix svc effects n s
  assume a: "newService sample_app_env 0 sample_mm (sample_service '':8080'' '':8081'') = Return (Inr svc)"
    and r: "service_Run sample_app_env (healthy0 :: unit Status) svc = (effects, n, None)"
    and s: "sample_shutdown effects n = Some s" "stops_well s" "length (servers s) = 2"
  from Wait_means_stopped [OF r s(1) [unfolded sample_shutdown_def]] s(2)
  have "list_all stopped (servers s)" by (simp add: stops_well_def)
  with a r s show ?thesis by blast
qed

lemma shutdown_completes_witness:
  "\<exists>svc effects n s. newService sample_app_env 0 sample_mm (sample_service '':8080'' '':8081'') = Return (Inr svc)
    \<and> service_Run sample_app_env (healthy0 :: unit Status) svc = (effects, n, None)
    \<and> sample_shutdown effects n = Some s \<and> wait_count s = 0"
proof (rule sample_shutdown_runs)
  fix svc effects n s
  assume a: "newService sample_app_env 0 sample_mm (sample_service '':8080'' '':8081'') = Return (Inr svc)"
    and r: "service_Run sample_app_env (healthy0 :: unit Status) svc = (effects, n, None)"
    and s: "sample_shutdown effects n = Some s" "stops_well s" "length (servers s) = 2"
  from shutdown_completes [OF r s(1) [unfolded sample_shutdown_def]] s(2)
  have "wait_count s = 0" by (simp add: stops_well_def listen_failed_def)
  with a r s show ?thesis by blast
qed

end
