(* ===== verification/Crypto.thy ===== *)
theory Crypto
  imports Prelude
begin

text \<open>
  Encryption and hashes (\<open>src/crypto\<close>). The cipher modes and hash functions of the
  libraries are arguments; sealing, opening and keyed hashing are what this code makes of them.
\<close>

type_synonym bytes = "byte list"

datatype crypto_error = KeySizeError nat | AuthenticationFailed | RandomError

text \<open>
  GCM under a key, the hash functions, and what one read of the random source gives: the bytes
  it could read, which are fewer than asked for only with an error.
\<close>

record crypto_lib =
  gcm_seal :: "bytes \<Rightarrow> bytes \<Rightarrow> bytes \<Rightarrow> bytes"
  gcm_open :: "bytes \<Rightarrow> bytes \<Rightarrow> bytes \<Rightarrow> bytes option"
  sha256_Sum :: "bytes \<Rightarrow> bytes"
  sha3_Sum256 :: "bytes \<Rightarrow> bytes"
  rand_Read :: "nat \<Rightarrow> bytes"

section \<open>Random bytes\<close>

text \<open>A short read fills the front of the buffer and is an error.\<close>

definition RandomBytes :: "crypto_lib \<Rightarrow> bytes \<Rightarrow> crypto_error option \<times> bytes" where
  "RandomBytes lib data =
    (let r = take (length data) (rand_Read lib (length data))
     in (if length r < length data then Some RandomError else None, r @ drop (length r) data))"

section \<open>AES-GCM\<close>

text \<open>A cipher of the block size of AES always has a GCM mode, with these sizes.\<close>

definition aes_NewCipher :: "bytes \<Rightarrow> crypto_error + bytes" where
  "aes_NewCipher key = (if length key \<in> {16, 24, 32} then Inr key else Inl (KeySizeError (length key)))"

definition NonceSize :: nat where "NonceSize = 12"
definition Overhead :: nat where "Overhead = 16"

text \<open>The error of reading the random source is not looked at.\<close>

definition AESGCMEncrypt :: "crypto_lib \<Rightarrow> bytes \<Rightarrow> bytes \<Rightarrow> crypto_error go_error + bytes" where
  "AESGCMEncrypt lib data key = (case aes_NewCipher key of
      Inl err \<Rightarrow> Inl (WrapError (Lib err) ''aes_encrypt_new_cipher_failed'')
    | Inr block \<Rightarrow>
        (let buffer = replicate NonceSize 0;
             buffer = snd (RandomBytes lib buffer)
         in Inr (buffer @ gcm_seal lib block buffer data)))"

definition AESGCMDecrypt :: "crypto_lib \<Rightarrow> bytes \<Rightarrow> bytes \<Rightarrow> (crypto_error go_error + bytes) exec" where
  "AESGCMDecrypt lib data key = (case aes_NewCipher key of
      Inl err \<Rightarrow> Return (Inl (WrapError (Lib err) ''aes_decrypt_new_cipher_failed''))
    | Inr block \<Rightarrow>
        if length data < NonceSize then Panic IndexOutOfRange
        else Return (case gcm_open lib block (take NonceSize data) (drop NonceSize data) of
            None \<Rightarrow> Inl (Lib AuthenticationFailed) | Some d \<Rightarrow> Inr d))"

section \<open>Hashes\<close>

definition Sha2Sum256 :: "crypto_lib \<Rightarrow> bytes \<Rightarrow> bytes" where
  "Sha2Sum256 lib data = sha256_Sum lib data"

definition Sha3Sum256 :: "crypto_lib \<Rightarrow> bytes \<Rightarrow> bytes" where
  "Sha3Sum256 lib data = sha3_Sum256 lib data"

text \<open>\<open>crypto/hmac\<close> over a hash function and its block size.\<close>

definition hmac_key :: "(bytes \<Rightarrow> bytes) \<Rightarrow> nat \<Rightarrow> bytes \<Rightarrow> bytes" where
  "hmac_key h blocksize key =
    (let key = (if blocksize < length key then h key else key) in key @ replicate (blocksize - length key) 0)"

definition hmac_Sum :: "(bytes \<Rightarrow> bytes) \<Rightarrow> nat \<Rightarrow> bytes \<Rightarrow> bytes \<Rightarrow> bytes" where
  "hmac_Sum h blocksize key data =
    (let ipad = map (\<lambda>b. xor b 0x36) (hmac_key h blocksize key);
         opad = map (\<lambda>b. xor b 0x5c) (hmac_key h blocksize key)
     in h (opad @ h (ipad @ data)))"

definition HmacSha2Sum256 :: "crypto_lib \<Rightarrow> bytes \<Rightarrow> bytes \<Rightarrow> bytes" where
  "HmacSha2Sum256 lib data key = hmac_Sum (sha256_Sum lib) 64 key data"

definition HmacSha3Sum256 :: "crypto_lib \<Rightarrow> bytes \<Rightarrow> bytes \<Rightarrow> bytes" where
  "HmacSha3Sum256 lib data key = hmac_Sum (sha3_Sum256 lib) 136 key data"

section \<open>Lemmas\<close>

lemma length_RandomBytes [simp]: "length (snd (RandomBytes lib data)) = length data"
  by (simp add: RandomBytes_def Let_def)

lemma RandomBytes_ok: "fst (RandomBytes lib data) = None \<Longrightarrow> snd (RandomBytes lib data) = take (length data) (rand_Read lib (length data))"
  by (auto simp: RandomBytes_def Let_def split: if_splits)

lemma RandomBytes_broken: "rand_Read lib (length data) = [] \<Longrightarrow> RandomBytes lib data = (if data = [] then None else Some RandomError, data)"
  by (simp add: RandomBytes_def)

section \<open>Properties\<close>

text \<open>
  C35. What \<open>AESGCMEncrypt\<close> gives is a nonce, the sealed data and a tag, 28 bytes more than the
  data, and \<open>AESGCMDecrypt\<close> with the same key gives the data back. Both refuse a key of another
  size than 16, 24 or 32 bytes.
\<close>

theorem decrypt_encrypt:
  assumes "\<And>k nonce d. length nonce = NonceSize \<Longrightarrow> gcm_open lib k nonce (gcm_seal lib k nonce d) = Some d"
    and "\<And>k nonce d. length nonce = NonceSize \<Longrightarrow> length (gcm_seal lib k nonce d) = length d + Overhead"
  shows "case AESGCMEncrypt lib data key of
      Inl err \<Rightarrow> length key \<notin> {16, 24, 32} \<and> (\<exists>err. AESGCMDecrypt lib data key = Return (Inl err))
    | Inr sealed \<Rightarrow> length key \<in> {16, 24, 32} \<and> length sealed = length data + 28
        \<and> AESGCMDecrypt lib sealed key = Return (Inr data)"
proof -
  define nonce where "nonce = snd (RandomBytes lib (replicate NonceSize 0))"
  have "length nonce = NonceSize" by (simp add: nonce_def)
  with assms [OF this] show ?thesis
    by (simp add: AESGCMEncrypt_def AESGCMDecrypt_def aes_NewCipher_def Let_def NonceSize_def Overhead_def
        flip: nonce_def [unfolded NonceSize_def])
qed

text \<open>
  Data too short to hold a nonce is not answered with an error: with a key of a right
  size \<open>AESGCMDecrypt\<close> panics on it.
\<close>

theorem decrypt_short_data_panics:
  assumes "aes_NewCipher key = Inr block"
  shows "(AESGCMDecrypt lib data key = Panic IndexOutOfRange) = (length data < 12)"
  using assms by (simp add: AESGCMDecrypt_def NonceSize_def)

text \<open>
  When the random source fails, \<open>AESGCMEncrypt\<close> goes on with the nonce of zeros, without
  an error: everything is then sealed under the same nonce.
\<close>

theorem failed_random_source_reuses_nonce:
  assumes "aes_NewCipher key = Inr block" "rand_Read lib NonceSize = []"
  shows "AESGCMEncrypt lib data key = Inr (replicate 12 0 @ gcm_seal lib block (replicate 12 0) data)"
  using assms RandomBytes_broken [of lib "replicate NonceSize 0"]
  by (simp add: AESGCMEncrypt_def NonceSize_def Let_def)

section \<open>Concrete runs\<close>

text \<open>A library that satisfies the laws: sealing appends a tag of zeros.\<close>

definition sample_lib :: crypto_lib where
  "sample_lib = \<lparr>gcm_seal = (\<lambda>k n d. d @ replicate 16 0),
     gcm_open = (\<lambda>k n c. if length c < 16 then None else Some (take (length c - 16) c)),
     sha256_Sum = take 32, sha3_Sum256 = take 32, rand_Read = (\<lambda>n. replicate n 7)\<rparr>"

lemma decrypt_encrypt_witness:
  "AESGCMDecrypt sample_lib (replicate 12 7 @ [1, 2, 3] @ replicate 16 0) (replicate 16 1) = Return (Inr [1, 2, 3])"
proof -
  have "AESGCMEncrypt sample_lib [1, 2, 3] (replicate 16 1) = Inr (replicate 12 7 @ [1, 2, 3] @ replicate 16 0)"
    by code_simp
  moreover have "gcm_open sample_lib k nonce (gcm_seal sample_lib k nonce d) = Some d"
    "length (gcm_seal sample_lib k nonce d) = length d + Overhead" for k nonce d
    by (simp_all add: sample_lib_def Overhead_def)
  ultimately show ?thesis
    using decrypt_encrypt [where lib = sample_lib and data = "[1, 2, 3]" and key = "replicate 16 1"] by simp
qed

lemma decrypt_short_data_panics_witness:
  "AESGCMDecrypt sample_lib [1, 2, 3] (replicate 16 1) = Panic IndexOutOfRange"
  using decrypt_short_data_panics [of "replicate 16 1" "replicate 16 1" sample_lib "[1, 2, 3]"]
  by (simp add: aes_NewCipher_def)

lemma failed_random_source_reuses_nonce_witness:
  "AESGCMEncrypt (sample_lib\<lparr>rand_Read := \<lambda>_. []\<rparr>) [1] (replicate 16 1) = Inr (replicate 12 0 @ [1] @ replicate 16 0)"
  using failed_random_source_reuses_nonce [of "replicate 16 1" "replicate 16 1" "sample_lib\<lparr>rand_Read := \<lambda>_. []\<rparr>" "[1]"]
  by (simp add: aes_NewCipher_def sample_lib_def)

end
