(* ===== verification/RequestLog.thy ===== *)
theory RequestLog
  imports Grpcex
begin

text \<open>
  Logging: the global logger and the one a context carries (\<open>src/log\<close>), and the interceptors
  that give a request a logger and log it (\<open>src/grpcex/zerolog.go\<close>,
  \<open>src/ginex/zerolog.go\<close>). A logger is the fields it adds to every line; times are left out.
\<close>

section \<open>Loggers\<close>

type_synonym logger = "(string \<times> string) list"

datatype log_level = LDebug | LInfo | LWarn | LError | LOther string

datatype log_output = ConsoleOutput | PlainOutput

record log_config =
  global_level :: log_level
  log_output :: log_output
  level_complaint :: "(string \<times> string) option"

text \<open>\<open>parse\<close> is the level of a name; a wrong name is complained about and ignored.\<close>

definition log_Init :: "(string \<Rightarrow> string + log_level) \<Rightarrow> string \<Rightarrow> bool \<Rightarrow> bool \<Rightarrow> log_config" where
  "log_Init parse level debug beauty =
    (let logLevel = (if debug then LDebug else LInfo);
         (logLevel, complaint) = (if level = [] then (logLevel, None)
           else case parse level of Inr l \<Rightarrow> (l, None) | Inl err \<Rightarrow> (logLevel, Some (level, err)))
     in \<lparr>global_level = logLevel, log_output = (if beauty then ConsoleOutput else PlainOutput),
         level_complaint = complaint\<rparr>)"

text \<open>The value of a context key: a logger pointer, nil or not, or a value of another type.\<close>

datatype log_value = LoggerPtr "logger option" | OtherValue

record log_context = rpc_context +
  lc_values :: "string \<rightharpoonup> log_value"

definition contextLoggerKey :: string where "contextLoggerKey = ''_logger''"

definition FromContext :: "logger \<Rightarrow> (string \<rightharpoonup> log_value) \<Rightarrow> logger" where
  "FromContext Logger values = (case values contextLoggerKey of
      None \<Rightarrow> Logger
    | Some OtherValue \<Rightarrow> Logger
    | Some (LoggerPtr None) \<Rightarrow> Logger
    | Some (LoggerPtr (Some ctxLogger)) \<Rightarrow> ctxLogger)"

definition SetContextLogger :: "log_context \<Rightarrow> logger \<Rightarrow> log_context" where
  "SetContextLogger ctx l = ctx\<lparr>lc_values := (lc_values ctx)(contextLoggerKey \<mapsto> LoggerPtr (Some l))\<rparr>"

definition SetGinContextLogger :: "(string \<rightharpoonup> log_value) \<Rightarrow> logger \<Rightarrow> (string \<rightharpoonup> log_value)" where
  "SetGinContextLogger keys l = keys(contextLoggerKey \<mapsto> LoggerPtr (Some l))"

section \<open>Requests and their log lines\<close>

text \<open>A handler returns or panics, with a value of its own or a runtime error.\<close>

datatype 'p thrown = Runtime go_panic | Thrown 'p

datatype ('r, 'p) outcome = Returned 'r | Panicked "'p thrown"

record ('v, 'p) log_line =
  ln_logger :: logger
  ln_level :: log_level
  ln_fields :: "'v log_entry list"
  ln_panic :: "'p thrown option"
  ln_text :: string

definition line :: "logger \<Rightarrow> log_level \<Rightarrow> 'v log_entry list \<Rightarrow> string \<Rightarrow> ('v, 'p) log_line" where
  "line l lvl fs t = \<lparr>ln_logger = l, ln_level = lvl, ln_fields = fs, ln_panic = None, ln_text = t\<rparr>"

text \<open>What a call did and logged, in order; \<open>None\<close> if it does not come back.\<close>

type_synonym ('r, 'v, 'p) run = "(('r, 'p) outcome \<times> ('v, 'p) log_line list) option"

section \<open>The gRPC interceptors\<close>

definition getContextLogger :: "logger \<Rightarrow> string \<Rightarrow> log_context \<Rightarrow> string \<Rightarrow> logger exec" where
  "getContextLogger Logger uuid ctx method =
     exec_bind (GetClientIP (rpc_context.truncate ctx)) (\<lambda>ip. Return
       (Logger @ [(''request_id'', uuid), (''method'', method), (''ip'', ip)]))"

definition ContextLoggerUnaryServerInterceptor ::
  "logger \<Rightarrow> string \<Rightarrow> string \<Rightarrow> (log_context \<Rightarrow> 'q \<Rightarrow> ('r, 'v, 'p) run) \<Rightarrow> log_context \<Rightarrow> 'q \<Rightarrow> ('r, 'v, 'p) run" where
  "ContextLoggerUnaryServerInterceptor Logger uuid FullMethod handler ctx req =
    (case getContextLogger Logger uuid ctx FullMethod of
       Panic p \<Rightarrow> Some (Panicked (Runtime p), [])
     | Return ctxLogger \<Rightarrow> handler (SetContextLogger ctx ctxLogger) req)"

definition ContextLoggerStreamServerInterceptor ::
  "logger \<Rightarrow> string \<Rightarrow> string \<Rightarrow> (log_context \<times> 'q \<Rightarrow> ('r, 'v, 'p) run) \<Rightarrow> log_context \<times> 'q \<Rightarrow> ('r, 'v, 'p) run" where
  "ContextLoggerStreamServerInterceptor Logger uuid FullMethod handler stream =
    (case getContextLogger Logger uuid (fst stream) FullMethod of
       Panic p \<Rightarrow> Some (Panicked (Runtime p), [])
     | Return ctxLogger \<Rightarrow> handler (SetContextLogger (fst stream) ctxLogger, snd stream))"

text \<open>
  The deferred \<open>logPanic\<close>: a panic is logged and raised again. An error that was thrown is
  wrapped; \<open>panic_text\<close> is its text or that of the other value.
\<close>

definition logPanic ::
  "('p thrown \<Rightarrow> string) \<Rightarrow> logger \<Rightarrow> log_context \<Rightarrow> ('r, 'v, 'p) run \<Rightarrow> ('r, 'v, 'p) run" where
  "logPanic panic_text Logger ctx r = (case r of
      Some (Panicked v, lines) \<Rightarrow> Some (Panicked v, lines @
        [\<lparr>ln_logger = FromContext Logger (lc_values ctx), ln_level = LError, ln_fields = [Err (''panic: '' @ panic_text v)],
          ln_panic = Some v, ln_text = ''grpc_request_panic''\<rparr>])
    | _ \<Rightarrow> r)"

definition closing_line ::
  "('f, 'v, 's) err_env \<Rightarrow> ('f, 'v, 's) err_heap \<Rightarrow> logger \<Rightarrow> string \<Rightarrow> string \<Rightarrow> 'f err_value \<Rightarrow> ('v, 'p) log_line option" where
  "closing_line env H l ok failed err =
    (if err = NoError then Some (line l LInfo [] ok)
     else map_option (\<lambda>fs. line l LWarn fs failed) (LogError env H err []))"

definition LogRequestUnaryServerInterceptor ::
  "('f, 'v, 's) err_env \<Rightarrow> ('f, 'v, 's) err_heap \<Rightarrow> ('p thrown \<Rightarrow> string) \<Rightarrow> logger \<Rightarrow>
     (log_context \<Rightarrow> 'q \<Rightarrow> ('r \<times> 'f err_value, 'v, 'p) run) \<Rightarrow> log_context \<Rightarrow> 'q \<Rightarrow> ('r \<times> 'f err_value, 'v, 'p) run" where
  "LogRequestUnaryServerInterceptor env H panic_text Logger handler ctx req =
    (let logger = FromContext Logger (lc_values ctx)
     in logPanic panic_text Logger ctx (case handler ctx req of
          Some (Returned (resp, err), lines) \<Rightarrow>
            map_option (\<lambda>l. (Returned (resp, err), lines @ [l]))
              (closing_line env H logger ''grpc_request'' ''grpc_request_with_error'' err)
        | r \<Rightarrow> r))"

definition LogRequestStreamServerInterceptor ::
  "('f, 'v, 's) err_env \<Rightarrow> ('f, 'v, 's) err_heap \<Rightarrow> ('p thrown \<Rightarrow> string) \<Rightarrow> logger \<Rightarrow>
     (log_context \<times> 'q \<Rightarrow> ('f err_value, 'v, 'p) run) \<Rightarrow> log_context \<times> 'q \<Rightarrow> ('f err_value, 'v, 'p) run" where
  "LogRequestStreamServerInterceptor env H panic_text Logger handler stream =
    (let logger = FromContext Logger (lc_values (fst stream)); start = line logger LInfo [] ''grpc_stream_start''
     in logPanic panic_text Logger (fst stream) (case handler stream of
          Some (Returned err, lines) \<Rightarrow>
            map_option (\<lambda>l. (Returned err, start # lines @ [l]))
              (closing_line env H logger ''grpc_stream_end'' ''grpc_stream_end_with_error'' err)
        | Some (Panicked v, lines) \<Rightarrow> Some (Panicked v, start # lines)
        | None \<Rightarrow> None))"

section \<open>The gin middlewares\<close>

text \<open>The keys a gin context holds, with what the request says of itself.\<close>

record gin_context =
  gin_keys :: "string \<rightharpoonup> log_value"
  gin_client_ip :: string
  gin_method :: string
  gin_path :: string

definition ContextLoggerMiddleware :: "logger \<Rightarrow> gin_context \<Rightarrow> gin_context" where
  "ContextLoggerMiddleware Logger c =
     c\<lparr>gin_keys := SetGinContextLogger (gin_keys c)
         (Logger @ [(''ip'', gin_client_ip c), (''method'', gin_method c), (''path'', gin_path c)])\<rparr>"

text \<open>\<open>next\<close> runs the rest of the chain; what it returns is the status and size written.\<close>

definition LogRequestMiddleware ::
  "logger \<Rightarrow> (gin_context \<Rightarrow> ('r, 'v, 'p) run) \<Rightarrow> gin_context \<Rightarrow> ('r, 'v, 'p) run" where
  "LogRequestMiddleware Logger rest c =
    (let logger = FromContext Logger (gin_keys c)
     in case rest c of
          None \<Rightarrow> None
        | Some (Panicked v, lines) \<Rightarrow> Some (Panicked v, lines @
            [(line logger LError [] ''http_request_panic'')\<lparr>ln_panic := Some v\<rparr>])
        | Some (Returned r, lines) \<Rightarrow> Some (Returned r, lines @ [line logger LInfo [] ''http_request'']))"

section \<open>The logger of the pulsar client\<close>

text \<open>
  \<open>src/client/pulsar/wrapper_zerolog.go\<close>: a logger with more fields, and lines at three levels;
  what is logged for debugging is dropped. The texts of values and formatted messages are given.
\<close>

definition pulsar_SubLogger :: "('x \<Rightarrow> string) \<Rightarrow> (string \<times> 'x) list \<Rightarrow> logger \<Rightarrow> logger" where
  "pulsar_SubLogger show fs l = l @ map (\<lambda>(k, v). (k, show v)) fs"

definition pulsar_WithFields :: "('x \<Rightarrow> string) \<Rightarrow> (string \<times> 'x) list \<Rightarrow> logger \<Rightarrow> logger" where
  "pulsar_WithFields = pulsar_SubLogger"

definition pulsar_WithField :: "('x \<Rightarrow> string) \<Rightarrow> string \<Rightarrow> 'x \<Rightarrow> logger \<Rightarrow> logger" where
  "pulsar_WithField show name value l = l @ [(name, show value)]"

definition pulsar_WithError :: "('e \<Rightarrow> string) \<Rightarrow> 'e \<Rightarrow> logger \<Rightarrow> logger" where
  "pulsar_WithError text err l = l @ [(''error'', text err)]"

datatype wrapper_call = WrapDebug | WrapInfo | WrapWarn | WrapError

definition pulsar_log :: "wrapper_call \<Rightarrow> string \<Rightarrow> logger \<Rightarrow> (logger \<times> log_level \<times> string) option" where
  "pulsar_log call msg l = (case call of
      WrapDebug \<Rightarrow> None
    | WrapInfo \<Rightarrow> Some (l, LInfo, msg)
    | WrapWarn \<Rightarrow> Some (l, LWarn, msg)
    | WrapError \<Rightarrow> Some (l, LError, msg))"

text \<open>The logger of go-redis has one method, which logs errors.\<close>

definition redis_Printf :: "string \<Rightarrow> logger \<Rightarrow> logger \<times> log_level \<times> string" where
  "redis_Printf msg l = (l, LError, msg)"

section \<open>Lemmas\<close>

lemma FromContext_Set [simp]: "FromContext Logger (lc_values (SetContextLogger ctx l)) = l"
  by (simp add: FromContext_def SetContextLogger_def)

lemma FromContext_SetGin [simp]: "FromContext Logger (SetGinContextLogger keys l) = l"
  by (simp add: FromContext_def SetGinContextLogger_def)

lemma LogError_returns:
  assumes "err_exists (run_errs ops) err"
  shows "\<exists>fs. LogError env (run_errs ops) err [] = Some fs"
proof (cases err)
  case (Own a)
  with assms have "a < next_err (run_errs ops)" by (simp add: err_exists_def)
  then show ?thesis
    by (simp add: Own LogError_def Log_def Error_text_spec [OF wf_run_errs] addDetailToLogger_spec [OF wf_run_errs])
qed (simp_all add: LogError_def)

lemma closing_line_returns:
  assumes "err_exists (run_errs ops) err"
  shows "\<exists>e. closing_line env (run_errs ops) l ok failed err = Some e \<and> ln_logger e = l
    \<and> ln_level e = (if err = NoError then LInfo else LWarn)"
  using LogError_returns [OF assms, of env] by (auto simp: closing_line_def line_def)

text \<open>The level of the line that closes a request.\<close>

definition outcome_level :: "('r, 'p) outcome \<Rightarrow> ('r \<Rightarrow> bool) \<Rightarrow> log_level" where
  "outcome_level out ok = (case out of Returned r \<Rightarrow> if ok r then LInfo else LWarn | Panicked _ \<Rightarrow> LError)"

section \<open>Properties\<close>

text \<open>
  C39. A gRPC request behind the two log interceptors does what its handler does - the same
  response and error, or the same panic - and what it logs ends with exactly one line more, at the level
  of the outcome and with the request ID, method and client address; logging any error that can be
  built comes back.
\<close>

theorem request_logged_once:
  fixes handler :: "log_context \<Rightarrow> 'q \<Rightarrow> ('r \<times> 'f err_value, 'v, 'p) run"
  assumes "GetClientIP (rpc_context.truncate ctx) = Return ip"
    and "handler (SetContextLogger ctx (Logger @ [(''request_id'', uuid), (''method'', FullMethod), (''ip'', ip)])) req
      = Some (out, lines)"
    and "case out of Returned (resp, err) \<Rightarrow> err_exists (run_errs ops) err | Panicked _ \<Rightarrow> True"
  shows "\<exists>e. ContextLoggerUnaryServerInterceptor Logger uuid FullMethod
      (LogRequestUnaryServerInterceptor env (run_errs ops) panic_text Logger handler) ctx req = Some (out, lines @ [e])
    \<and> ln_logger e = Logger @ [(''request_id'', uuid), (''method'', FullMethod), (''ip'', ip)]
    \<and> ln_level e = outcome_level out (\<lambda>(resp, err). err = NoError)"
proof (cases out)
  case (Returned r)
  obtain resp err where r: "r = (resp, err)" by fastforce
  with assms(3) Returned have "err_exists (run_errs ops) err" by simp
  from closing_line_returns [OF this] obtain e :: "('v, 'p) log_line" where
    e: "closing_line env (run_errs ops) (Logger @ [(''request_id'', uuid), (''method'', FullMethod), (''ip'', ip)])
      ''grpc_request'' ''grpc_request_with_error'' err = Some e"
    and l: "ln_logger e = Logger @ [(''request_id'', uuid), (''method'', FullMethod), (''ip'', ip)]"
      "ln_level e = (if err = NoError then LInfo else LWarn)"
    by blast
  have "ContextLoggerUnaryServerInterceptor Logger uuid FullMethod
      (LogRequestUnaryServerInterceptor env (run_errs ops) panic_text Logger handler) ctx req = Some (out, lines @ [e])"
    using assms(1,2) Returned r e
    by (simp add: ContextLoggerUnaryServerInterceptor_def getContextLogger_def LogRequestUnaryServerInterceptor_def
        logPanic_def Let_def)
  then show ?thesis using l Returned r by (auto simp: outcome_level_def)
next
  case (Panicked v)
  then show ?thesis
    using assms(1,2)
    by (simp add: ContextLoggerUnaryServerInterceptor_def getContextLogger_def LogRequestUnaryServerInterceptor_def
        logPanic_def outcome_level_def Let_def)
qed

text \<open>The same of HTTP requests.\<close>

lemma http_request_logged_once:
  assumes "rest (ContextLoggerMiddleware Logger c) = Some (out, lines)"
  shows "\<exists>e. LogRequestMiddleware Logger rest (ContextLoggerMiddleware Logger c) = Some (out, lines @ [e])
    \<and> ln_logger e = Logger @ [(''ip'', gin_client_ip c), (''method'', gin_method c), (''path'', gin_path c)]
    \<and> ln_level e = outcome_level out (\<lambda>_. True)"
  using assms
  by (cases out) (simp_all add: LogRequestMiddleware_def ContextLoggerMiddleware_def outcome_level_def line_def)

section \<open>Concrete runs\<close>

definition sample_ctx :: log_context where
  "sample_ctx = \<lparr>rc_metadata = Some [''x-forwarded-for'' \<mapsto> [''10.0.0.1, 10.0.0.2'']], rc_peer = None, lc_values = Map.empty\<rparr>"

lemma request_logged_once_witness:
  "\<exists>e. ContextLoggerUnaryServerInterceptor [] ''id'' ''/a/B''
      (LogRequestUnaryServerInterceptor (sample_env False) (run_errs sample_ops) (\<lambda>_ :: unit thrown. [])  []
        (\<lambda>ctx req :: nat. Some (Returned (req, Own 1), []))) sample_ctx 5 = Some (Returned (5, Own 1), [e])
    \<and> ln_logger e = [(''request_id'', ''id''), (''method'', ''/a/B''), (''ip'', ''10.0.0.1'')] \<and> ln_level e = LWarn"
proof -
  have ip: "GetClientIP (rpc_context.truncate sample_ctx) = Return ''10.0.0.1''" by code_simp
  have "err_exists (run_errs sample_ops) (Own 1)" by code_simp
  with request_logged_once [OF ip, where out = "Returned (5, Own 1)" and lines = "[]" and Logger = "[]" and uuid = "''id''"
      and FullMethod = "''/a/B''" and req = "5 :: nat" and ops = sample_ops and env = "sample_env False"
      and panic_text = "\<lambda>_ :: unit thrown. []"
      and handler = "\<lambda>ctx req :: nat. Some (Returned (req, Own 1), [])"]
  show ?thesis by (simp add: outcome_level_def)
qed

end
