(* ===== verification/Ginex.thy ===== *)
theory Ginex
  imports Config
begin

text \<open>
  The configurable gin middlewares (\<open>src/ginex/cors.go\<close>, \<open>compress.go\<close>): from the options
  of a configuration entry to what the libraries are called with. A wrong configuration ends the process.
\<close>

section \<open>CORS\<close>

record corsConfig =
  cors_AllowAllOrigins :: bool
  cors_AllowOrigins :: "string list"
  cors_AllowMethods :: "string list"
  cors_AllowHeaders :: "string list"
  cors_AllowCredentials :: bool
  cors_ExposeHeaders :: "string list"
  cors_MaxAge :: "32 word"
  cors_AllowWildcard :: bool
  cors_AllowBrowserExtensions :: bool
  cors_AllowWebSockets :: bool

definition no_cors :: corsConfig where
  "no_cors = \<lparr>cors_AllowAllOrigins = False, cors_AllowOrigins = [], cors_AllowMethods = [], cors_AllowHeaders = [],
     cors_AllowCredentials = False, cors_ExposeHeaders = [], cors_MaxAge = 0, cors_AllowWildcard = False,
     cors_AllowBrowserExtensions = False, cors_AllowWebSockets = False\<rparr>"

text \<open>The configuration of the library; there is never a function that decides on origins.\<close>

record cors_lib_config =
  lib_AllowAllOrigins :: bool
  lib_AllowOrigins :: "string list"
  lib_AllowMethods :: "string list"
  lib_AllowHeaders :: "string list"
  lib_AllowCredentials :: bool
  lib_ExposeHeaders :: "string list"
  lib_MaxAge :: int
  lib_AllowWildcard :: bool
  lib_AllowBrowserExtensions :: bool
  lib_AllowWebSockets :: bool
  lib_AllowFiles :: bool

text \<open>The struct a configuration is read into, or the end of the process.\<close>

definition parsed_or_exit ::
  "(go_value, 'b, 't, 'e config_error) codec \<Rightarrow> StringMap \<Rightarrow> 't \<Rightarrow> string \<Rightarrow> 't exec" where
  "parsed_or_exit json options zero msg = (case ToStruct json options (PointerTo zero) of
      (None, PointerTo c) \<Rightarrow> Return c
    | _ \<Rightarrow> Panic (ProcessExit msg))"

definition CorsMiddleware ::
  "(go_value, 'b, corsConfig, 'e config_error) codec \<Rightarrow> StringMap \<Rightarrow> cors_lib_config exec" where
  "CorsMiddleware json options =
     exec_bind (parsed_or_exit json options no_cors ''parse_cors_config_error'') (\<lambda>c. Return
       \<lparr>lib_AllowAllOrigins = cors_AllowAllOrigins c, lib_AllowOrigins = cors_AllowOrigins c,
        lib_AllowMethods = cors_AllowMethods c, lib_AllowHeaders = cors_AllowHeaders c,
        lib_AllowCredentials = cors_AllowCredentials c, lib_ExposeHeaders = cors_ExposeHeaders c,
        lib_MaxAge = i64 (uint (cors_MaxAge c) * 10 ^ 9), lib_AllowWildcard = cors_AllowWildcard c,
        lib_AllowBrowserExtensions = cors_AllowBrowserExtensions c, lib_AllowWebSockets = cors_AllowWebSockets c,
        lib_AllowFiles = False\<rparr>)"

text \<open>The seconds of \<open>max_age\<close> as a duration do not overflow.\<close>

lemma MaxAge_seconds:
  assumes "CorsMiddleware json options = Return cfg"
  shows "\<exists>seconds :: 32 word. lib_MaxAge cfg = uint seconds * 10 ^ 9"
proof -
  have "in_i64 (uint s * 10 ^ 9)" for s :: "32 word"
  proof -
    have "uint s < 2 ^ 32" using uint_lt2p [of s] by simp
    moreover have "- (2 ^ 63) \<le> uint s * 10 ^ 9" by (rule order_trans [of _ 0]) simp_all
    ultimately show ?thesis by (simp add: in_i64_def)
  qed
  then show ?thesis using assms by (auto simp: CorsMiddleware_def i64_id)
qed

section \<open>Compression\<close>

record compressConfig =
  MinLength :: int
  ExcludedPathRegex :: string

datatype 'x compress_option = WithMinCompressBytes int | WithExcludeFunc 'x

text \<open>The regular expression of the excluded paths is compiled once; \<open>compile\<close> may refuse it.\<close>

definition CompressMiddleware ::
  "(go_value, 'b, compressConfig, 'e config_error) codec \<Rightarrow> (string \<Rightarrow> 'x + (string \<Rightarrow> bool)) \<Rightarrow> StringMap \<Rightarrow>
     (string \<Rightarrow> bool) compress_option list exec" where
  "CompressMiddleware json compile options =
     exec_bind (parsed_or_exit json options \<lparr>MinLength = 0, ExcludedPathRegex = []\<rparr> ''parse_compress_config_error'') (\<lambda>c.
       let opts = (if 0 \<le> MinLength c then [WithMinCompressBytes (MinLength c)] else [])
       in if ExcludedPathRegex c = [] then Return opts
          else case compile (ExcludedPathRegex c) of
            Inl err \<Rightarrow> Panic (ProcessExit ''parse_compress_config_excluded_regex_error'')
          | Inr excludedRegex \<Rightarrow> Return (opts @ [WithExcludeFunc excludedRegex]))"

text \<open>Every middleware but a process that ends has at most one option of each kind, the threshold first.\<close>

lemma CompressMiddleware_options:
  assumes "CompressMiddleware json compile options = Return opts"
  shows "\<exists>c. parsed_or_exit json options \<lparr>MinLength = 0, ExcludedPathRegex = []\<rparr> ''parse_compress_config_error'' = Return c
    \<and> (WithMinCompressBytes n \<in> set opts \<longleftrightarrow> n = MinLength c \<and> 0 \<le> n)
    \<and> (WithExcludeFunc f \<in> set opts \<longleftrightarrow> ExcludedPathRegex c \<noteq> [] \<and> compile (ExcludedPathRegex c) = Inr f)"
  using assms by (auto simp: CompressMiddleware_def Let_def split: if_splits sum.splits)

end
