(* ===== verification/Encoding.thy ===== *)
theory Encoding
  imports Prelude
begin

text \<open>
  JSON (\<open>src/encoding/json\<close>, \<open>src/encoding/jsonpb\<close>) and the JSON codec of gRPC
  (\<open>src/grpcex/json_codec.go\<close>): protocol messages go to \<open>protojson\<close> with fixed options,
  other values to \<open>encoding/json\<close>. Both libraries are arguments; text and bytes are the same here.
\<close>

section \<open>Options\<close>

record marshal_options =
  m_AllowPartial :: bool
  UseProtoNames :: bool
  UseEnumNumbers :: bool
  EmitUnpopulated :: bool

record unmarshal_options =
  u_AllowPartial :: bool
  DiscardUnknown :: bool

text \<open>A value that decoding writes to is returned as it is afterwards.\<close>

record ('v, 'e) json_lib =
  is_proto_message :: "'v \<Rightarrow> bool"
  protojson_Marshal :: "marshal_options \<Rightarrow> 'v \<Rightarrow> 'e + string"
  protojson_Unmarshal :: "unmarshal_options \<Rightarrow> string \<Rightarrow> 'v \<Rightarrow> 'e option \<times> 'v"
  std_Marshal :: "'v \<Rightarrow> 'e + string"
  std_Unmarshal :: "string \<Rightarrow> 'v \<Rightarrow> 'e option \<times> 'v"

section \<open>The codec of the package\<close>

record jsonpbCodec =
  Marshaler :: marshal_options
  Unmarshaler :: unmarshal_options

definition initJsonpb :: jsonpbCodec where
  "initJsonpb = \<lparr>Marshaler = \<lparr>m_AllowPartial = True, UseProtoNames = True, UseEnumNumbers = True, EmitUnpopulated = True\<rparr>,
     Unmarshaler = \<lparr>u_AllowPartial = True, DiscardUnknown = True\<rparr>\<rparr>"

definition jsonpb_Marshal :: "('v, 'e) json_lib \<Rightarrow> jsonpbCodec \<Rightarrow> 'v \<Rightarrow> 'e + string" where
  "jsonpb_Marshal lib c v = (if is_proto_message lib v then protojson_Marshal lib (Marshaler c) v else std_Marshal lib v)"

definition jsonpb_MarshalString :: "('v, 'e) json_lib \<Rightarrow> jsonpbCodec \<Rightarrow> 'v \<Rightarrow> ('e option \<times> string)" where
  "jsonpb_MarshalString lib c v =
    (if is_proto_message lib v then (case protojson_Marshal lib (Marshaler c) v of Inl err \<Rightarrow> (Some err, []) | Inr b \<Rightarrow> (None, b))
     else case std_Marshal lib v of Inl err \<Rightarrow> (Some err, []) | Inr bs \<Rightarrow> (None, bs))"

definition jsonpb_Unmarshal :: "('v, 'e) json_lib \<Rightarrow> jsonpbCodec \<Rightarrow> string \<Rightarrow> 'v \<Rightarrow> 'e option \<times> 'v" where
  "jsonpb_Unmarshal lib c data v =
    (if is_proto_message lib v then protojson_Unmarshal lib (Unmarshaler c) data v else std_Unmarshal lib data v)"

definition jsonpb_UnmarshalString :: "('v, 'e) json_lib \<Rightarrow> jsonpbCodec \<Rightarrow> string \<Rightarrow> 'v \<Rightarrow> 'e option \<times> 'v" where
  "jsonpb_UnmarshalString lib c data v =
    (if is_proto_message lib v then protojson_Unmarshal lib (Unmarshaler c) data v else std_Unmarshal lib data v)"

definition json_MarshalString :: "('v, 'e) json_lib \<Rightarrow> 'v \<Rightarrow> 'e option \<times> string" where
  "json_MarshalString lib v = (case std_Marshal lib v of Inl err \<Rightarrow> (Some err, []) | Inr bs \<Rightarrow> (None, bs))"

definition json_UnmarshalString :: "('v, 'e) json_lib \<Rightarrow> string \<Rightarrow> 'v \<Rightarrow> 'e option \<times> 'v" where
  "json_UnmarshalString lib data v = std_Unmarshal lib data v"

section \<open>The codec of gRPC\<close>

definition JsonCodecName :: string where "JsonCodecName = ''json''"

record grpc_codec =
  gc_Marshaler :: marshal_options
  gc_Unmarshaler :: unmarshal_options

definition RegisterJsonCodec :: grpc_codec where
  "RegisterJsonCodec =
    (let c = \<lparr>gc_Marshaler = \<lparr>m_AllowPartial = False, UseProtoNames = False, UseEnumNumbers = False, EmitUnpopulated = False\<rparr>,
              gc_Unmarshaler = \<lparr>u_AllowPartial = False, DiscardUnknown = False\<rparr>\<rparr>;
         c = c\<lparr>gc_Marshaler := (gc_Marshaler c)\<lparr>m_AllowPartial := True, UseProtoNames := True, UseEnumNumbers := True,
              EmitUnpopulated := True\<rparr>\<rparr>
     in c\<lparr>gc_Unmarshaler := (gc_Unmarshaler c)\<lparr>u_AllowPartial := True, DiscardUnknown := True\<rparr>\<rparr>)"

definition codec_Marshal :: "('v, 'e) json_lib \<Rightarrow> grpc_codec \<Rightarrow> 'v \<Rightarrow> 'e + string" where
  "codec_Marshal lib c v = (if is_proto_message lib v then protojson_Marshal lib (gc_Marshaler c) v else std_Marshal lib v)"

definition codec_Unmarshal :: "('v, 'e) json_lib \<Rightarrow> grpc_codec \<Rightarrow> string \<Rightarrow> 'v \<Rightarrow> 'e option \<times> 'v" where
  "codec_Unmarshal lib c data v =
    (if is_proto_message lib v then protojson_Unmarshal lib (gc_Unmarshaler c) data v else std_Unmarshal lib data v)"

text \<open>What one codec writes the other reads: they are the same, and so are the variants for strings.\<close>

lemma codecs_agree:
  "codec_Marshal lib RegisterJsonCodec v = jsonpb_Marshal lib initJsonpb v
    \<and> codec_Unmarshal lib RegisterJsonCodec data v = jsonpb_Unmarshal lib initJsonpb data v
    \<and> jsonpb_MarshalString lib initJsonpb v
        = (case jsonpb_Marshal lib initJsonpb v of Inl err \<Rightarrow> (Some err, []) | Inr s \<Rightarrow> (None, s))
    \<and> jsonpb_UnmarshalString lib initJsonpb data v = jsonpb_Unmarshal lib initJsonpb data v"
  by (simp add: codec_Marshal_def codec_Unmarshal_def RegisterJsonCodec_def Let_def jsonpb_Marshal_def
      jsonpb_Unmarshal_def jsonpb_MarshalString_def jsonpb_UnmarshalString_def initJsonpb_def)

end
