(* ===== verification/Gateway.thy ===== *)
theory Gateway
  imports App RequestLog Encoding
begin

text \<open>
  What the application sets up once for its servers (\<open>src/appmgr/gin.go\<close>, \<open>grpc.go\<close>): the
  mode and writers of gin, the codec of gRPC, and the gateway from HTTP to gRPC with its options and
  its matcher of headers.
\<close>

section \<open>Gin\<close>

datatype gin_mode = DebugMode | ReleaseMode

datatype gin_writer = InfoWriter | ErrorWriter

record gin_settings =
  console_color :: bool
  gin_set_mode :: gin_mode
  DefaultWriter :: gin_writer
  DefaultErrorWriter :: gin_writer
  prometheus_app :: string

definition initGin :: "(string \<Rightarrow> bool) \<Rightarrow> string \<Rightarrow> gin_settings" where
  "initGin viper_bool app =
     \<lparr>console_color = viper_bool ''beautify_log'',
      gin_set_mode = (if viper_bool ''debug'' then DebugMode else ReleaseMode),
      DefaultWriter = InfoWriter, DefaultErrorWriter = ErrorWriter, prometheus_app = app\<rparr>"

text \<open>A write is a line of the log; it always reports that all bytes were written.\<close>

definition gin_Write :: "gin_writer \<Rightarrow> string \<Rightarrow> (log_level \<times> string \<times> string) \<times> nat" where
  "gin_Write w p = (case w of
      InfoWriter \<Rightarrow> ((LInfo, regularizeGinMsg p, ''gin_debug''), length p)
    | ErrorWriter \<Rightarrow> ((LError, regularizeGinMsg p, ''gin_error''), length p))"

section \<open>gRPC\<close>

text \<open>The codec under its name, as gRPC looks it up.\<close>

definition initGrpc :: "(string \<rightharpoonup> grpc_codec) \<Rightarrow> (string \<rightharpoonup> grpc_codec)" where
  "initGrpc codecs = codecs(JsonCodecName \<mapsto> RegisterJsonCodec)"

record gateway_mux =
  mux_marshal :: marshal_options
  mux_unmarshal :: unmarshal_options
  IncomingHeaderMatcher :: "string \<Rightarrow> string \<times> bool"

definition newGrpcHttpMux :: "(string \<Rightarrow> string \<times> bool) \<Rightarrow> gateway_mux" where
  "newGrpcHttpMux runtime_matcher =
     \<lparr>mux_marshal = \<lparr>m_AllowPartial = False, UseProtoNames = True, UseEnumNumbers = True, EmitUnpopulated = True\<rparr>,
      mux_unmarshal = \<lparr>u_AllowPartial = False, DiscardUnknown = True\<rparr>,
      IncomingHeaderMatcher = DefaultHeaderMatcher runtime_matcher\<rparr>"

text \<open>
  The gateway writes JSON as the codec does, except that it insists on required fields; its
  headers it passes on are those \<open>gateway_header_found\<close> speaks of.
\<close>

lemma gateway_options:
  "(mux_marshal (newGrpcHttpMux gw))\<lparr>m_AllowPartial := True\<rparr> = gc_Marshaler RegisterJsonCodec
    \<and> (mux_unmarshal (newGrpcHttpMux gw))\<lparr>u_AllowPartial := True\<rparr> = gc_Unmarshaler RegisterJsonCodec
    \<and> IncomingHeaderMatcher (newGrpcHttpMux gw) = DefaultHeaderMatcher gw"
  by (simp add: newGrpcHttpMux_def RegisterJsonCodec_def Let_def)

lemma regularizeGinMsg_line: "regularizeGinMsg (p @ [CHR 0x0A]) = p"
  by (simp add: regularizeGinMsg_def HasSuffix_def HasPrefix_def)

end
