(* ===== verification/CacheCopy.thy ===== *)
theory CacheCopy
  imports DataCache CacheMap Copy
begin

text \<open>
  \<open>GetCopy\<close> of both data caches: \<open>Get\<close> and a deep copy of its result. The result of
  \<open>Get\<close>, which takes steps of its own (\<open>DataCache\<close>, \<open>CacheMap\<close>), is the argument
  \<open>data\<close>; \<open>None\<close> is a nil interface.
\<close>

definition DataCache_GetCopy ::
  "('a, 'm, 't, 'e) gob \<Rightarrow> bool \<Rightarrow> 't dest \<Rightarrow> 'a option \<Rightarrow> 'm gobCodec list \<Rightarrow>
     'e gob_error go_error option \<times> 't dest \<times> 'm gobCodec list" where
  "DataCache_GetCopy g fresh v data pool = DeepCopy g fresh v data pool"

definition CacheMap_GetCopy ::
  "('a, 'm, 't, 'e) gob \<Rightarrow> bool \<Rightarrow> 't dest \<Rightarrow> 'a option \<Rightarrow> 'm gobCodec list \<Rightarrow>
     'e gob_error go_error option \<times> 't dest \<times> 'm gobCodec list" where
  "CacheMap_GetCopy g fresh v data pool = DeepCopy g fresh v data pool"

lemma DeepCopy_roundtrip:
  assumes "\<And>x m t. gob_message g x = Inr m \<Longrightarrow> gob_decode g m t = (None, x)"
    and "\<forall>(fresh, dst, src) \<in> set cs. dst \<noteq> NoPointer" "gob_message g x = Inr msg"
  shows "\<exists>pool. DeepCopy g fresh (PointerTo t) (Some x) (run_copies g cs []) = (None, PointerTo x, pool)"
  using gob_copies_independent [OF assms(2,3), of fresh t] assms(1) [OF assms(3)]
  by (auto simp: go_defs split: prod.splits)


definition int_gob :: "(int, int, int, unit) gob" where
  "int_gob = \<lparr>gob_message = Inr, gob_decode = (\<lambda>m t. (None, m))\<rparr>"


end
