(* ===== verification/Lifecycle.thy ===== *)
theory Lifecycle
  imports AppRun Serve
begin

text \<open>
  A running application as a whole (\<open>src/appmgr\<close>, \<open>app.go\<close> with \<open>service.go\<close>,
  \<open>observable.go\<close> and \<open>serve.go\<close>): the main goroutine and the jobs of \<open>AppRun\<close>
  together with the servers of every service and of the observable one, as \<open>Serve\<close> has them.
  What \<open>AppRun\<close> takes as arguments is given by the services here: whether one starts by
  \<open>service_Run\<close>, and when it has stopped by its wait group.
\<close>

section \<open>State\<close>

text \<open>
  The application that runs: its services in the order the map is ranged over, with the first
  health status of each, the observable service, and the jobs of the configuration and of \<open>AddJob\<close>.
\<close>

record ('e, 'svc) life_config =
  l_env :: "'e app_env"
  l_status :: "('e, 'svc) service \<Rightarrow> 'e Status"
  l_services :: "('e, 'svc) service list"
  l_observable :: "('e, 'svc) observable"
  l_jobs :: "string list"
  l_known :: "string list"

definition life_of_app ::
  "'e app_env \<Rightarrow> (('e, 'svc) service \<Rightarrow> 'e Status) \<Rightarrow> ('e, 'svc) service list \<Rightarrow> ('e, 'svc) observable \<Rightarrow> ('e, 'svc) app \<Rightarrow>
     ('e, 'svc) life_config" where
  "life_of_app env status services obs a = \<lparr>l_env = env, l_status = status, l_services = services, l_observable = obs,
     l_jobs = Jobs (a_config a), l_known = a_jobs a\<rparr>"

text \<open>What starting the service at an index leaves running; the observable service comes last.\<close>

definition launched ::
  "('e, 'svc) life_config \<Rightarrow> nat \<Rightarrow> service_effect list \<times> nat \<times> 'e service_error option" where
  "launched cfg k =
    (if k < length (l_services cfg)
     then let s = l_services cfg ! k in service_Run (l_env cfg) (l_status cfg s) s
     else case snd (observable_Run (l_env cfg) (l_observable cfg)) of
       None \<Rightarrow> ([ServeHttp (o_httpEndpoint (l_observable cfg))], 1, None)
     | Some err \<Rightarrow> ([], 1, Some (ListenError err)))"

definition launch_error :: "('e, 'svc) life_config \<Rightarrow> nat \<Rightarrow> 'e service_error option" where
  "launch_error cfg k = snd (snd (launched cfg k))"

definition life_run :: "('e, 'svc) life_config \<Rightarrow> ('j + 'e service_error) run_config" where
  "life_run cfg = \<lparr>job_names = l_jobs cfg, job_known = (\<lambda>name. name \<in> set (l_known cfg)),
     service_start = map (\<lambda>k. map_option Inr (launch_error cfg k)) [0..<length (l_services cfg)],
     observable_start = map_option Inr (launch_error cfg (length (l_services cfg)))\<rparr>"

record ('e, 'j) life =
  main :: "('j + 'e service_error) app_run"
  groups :: "serve_sys list"

definition life_start :: "('e, 'svc) life_config \<Rightarrow> ('e, 'j) life" where
  "life_start cfg = \<lparr>main = run_start (life_run cfg), groups = []\<rparr>"

section \<open>Steps\<close>

text \<open>A service that starts, even in part, adds the group of its servers.\<close>

definition launch_group :: "service_effect list \<times> nat \<times> 'e service_error option \<Rightarrow> serve_sys" where
  "launch_group l = (case l of (effects, n, err) \<Rightarrow> serve_start effects n)"

fun launches :: "('e, 'svc) life_config \<Rightarrow> 'x run_pc \<Rightarrow> bool" where
  "launches cfg (StartService k) = (k < length (l_services cfg))"
| "launches cfg StartObservable = True"
| "launches cfg _ = False"

definition launch ::
  "('e, 'svc) life_config \<Rightarrow> 'x run_pc \<Rightarrow> 'x run_pc \<Rightarrow> serve_sys list \<Rightarrow> serve_sys list" where
  "launch cfg p p' gs = (if p' \<noteq> p \<and> launches cfg p then gs @ [launch_group (launched cfg (length gs))] else gs)"

text \<open>All services have the context of the application.\<close>

definition cancel_groups :: "bool \<Rightarrow> serve_sys list \<Rightarrow> serve_sys list" where
  "cancel_groups c gs = (if c then map (\<lambda>g. g\<lparr>ctx_done := True\<rparr>) gs else gs)"

definition alive :: "('e, 'j) life \<Rightarrow> bool" where
  "alive s \<longleftrightarrow> list_all (\<lambda>g. \<not> dead g) (groups s)"

text \<open>
  The steps of the main goroutine and the jobs, those of the servers with their clients and
  failures, and \<open>Wait\<close> of a service, which returns once its wait group is down to zero.
\<close>

inductive life_step :: "('e, 'svc) life_config \<Rightarrow> ('e, 'j) life \<Rightarrow> ('e, 'j) life \<Rightarrow> bool" for cfg where
  main_moves: "alive s \<Longrightarrow> run_step (life_run cfg) (main s) r \<Longrightarrow>
    stopped_services r = stopped_services (main s) \<Longrightarrow> stopped_observable r = stopped_observable (main s) \<Longrightarrow>
    life_step cfg s (s\<lparr>main := r, groups := cancel_groups (cancelled r) (launch cfg (pc (main s)) (pc r) (groups s))\<rparr>)"
| server_moves: "alive s \<Longrightarrow> k < length (groups s) \<Longrightarrow> a \<noteq> Cancel \<Longrightarrow> serve_step a (groups s ! k) = Some g \<Longrightarrow>
    life_step cfg s (s\<lparr>groups := (groups s)[k := g]\<rparr>)"
| service_wait_returns: "alive s \<Longrightarrow> cancelled (main s) \<Longrightarrow> k < length (l_services cfg) \<Longrightarrow> k < length (groups s) \<Longrightarrow>
    wait_count (groups s ! k) = 0 \<Longrightarrow>
    life_step cfg s (s\<lparr>main := (main s)\<lparr>stopped_services := (stopped_services (main s))[k := True]\<rparr>\<rparr>)"
| observable_wait_returns: "alive s \<Longrightarrow> cancelled (main s) \<Longrightarrow> length (l_services cfg) < length (groups s) \<Longrightarrow>
    wait_count (groups s ! length (l_services cfg)) = 0 \<Longrightarrow>
    life_step cfg s (s\<lparr>main := (main s)\<lparr>stopped_observable := True\<rparr>\<rparr>)"

inductive_cases life_stepE: "life_step cfg s s'"

lemmas life_step_cases = life_stepE [consumes 1, case_names main_moves server_moves service_wait_returns observable_wait_returns]

inductive life_reach :: "('e, 'svc) life_config \<Rightarrow> ('e, 'j) life \<Rightarrow> bool" for cfg where
  life_init: "life_reach cfg (life_start cfg)"
| life_next: "life_reach cfg s \<Longrightarrow> life_step cfg s s' \<Longrightarrow> life_reach cfg s'"

section \<open>Groups that are waited for\<close>

text \<open>
  What stopping relies on: a group keeps its invariant, each of its own moves uses up one of
  finitely many, and as long as it is not done it has one after the cancellation.
\<close>

locale wait_group =
  fixes ok :: "'g \<Rightarrow> bool" and move :: "'a \<Rightarrow> 'g \<Rightarrow> 'g option" and own :: "'a \<Rightarrow> bool"
    and waited :: "'g \<Rightarrow> bool" and stopping :: "'g \<Rightarrow> bool" and moves_left :: "'g \<Rightarrow> nat"
  assumes left_move: "move a g = Some g' \<Longrightarrow> moves_left g' + of_bool (own a) \<le> moves_left g"
    and own_move: "ok g \<Longrightarrow> stopping g \<Longrightarrow> \<not> waited g \<Longrightarrow> \<exists>a. own a \<and> move a g \<noteq> None"
begin

abbreviation total :: "'g list \<Rightarrow> nat" where
  "total gs \<equiv> sum_list (map moves_left gs)"

lemma total_move:
  assumes "k < length gs" "move a (gs ! k) = Some g"
  shows "total (gs[k := g]) + of_bool (own a) \<le> total gs"
proof -
  have "moves_left (gs ! k) \<le> total gs" using assms(1) by (intro member_le_sum_list) auto
  with left_move [OF assms(2)] assms(1) show ?thesis by (simp add: map_update sum_list_update)
qed

lemma waited_or_move:
  assumes "list_all ok gs" "list_all stopping gs"
  obtains (waited) "list_all waited gs"
  | (move) k a g where "k < length gs" "own a" "move a (gs ! k) = Some g" "total (gs[k := g]) < total gs"
proof (cases "list_all waited gs")
  case False
  then obtain k where k: "k < length gs" "\<not> waited (gs ! k)" by (auto simp: list_all_length)
  with own_move [of "gs ! k"] assms obtain a g where a: "own a" "move a (gs ! k) = Some g"
    by (auto simp: list_all_length)
  with total_move [OF k(1) a(2)] k(1) show thesis by (intro move) auto
qed (rule waited)

end

lemma own_steps_own: "a \<in> set (own_steps g) \<Longrightarrow> own_step a"
  by (auto simp: own_steps_def)

lemma serve_own_move:
  assumes "serve_inv 0 g" "ctx_done g \<and> \<not> dead g" "wait_count g \<noteq> 0"
  shows "\<exists>a. own_step a \<and> serve_step a g \<noteq> None"
proof -
  have "pendings (servers g) \<noteq> 0" using assms(1,3) by (simp add: serve_inv_def)
  with resting_none_pending [of g 0] assms have "\<not> at_rest g" by auto
  then show ?thesis using own_steps_own unfolding at_rest_def list_all_iff by blast
qed

interpretation swg: wait_group "serve_inv 0" serve_step own_step "\<lambda>g. wait_count g = 0"
  "\<lambda>g. ctx_done g \<and> \<not> dead g" sys_rank
  by unfold_locales (use serve_step_rank serve_own_move in blast)+

section \<open>The invariant\<close>

definition group_kinds :: "service_effect list \<Rightarrow> srv_kind list" where
  "group_kinds effects = map srv_kind (List.map_filter served effects)"

definition group_ok :: "('e, 'svc) life_config \<Rightarrow> bool \<Rightarrow> nat \<Rightarrow> serve_sys \<Rightarrow> bool" where
  "group_ok cfg c k g \<longleftrightarrow> serve_inv (int (listen_failed (launch_error cfg k))) g
     \<and> map srv_kind (servers g) = group_kinds (fst (launched cfg k)) \<and> (ctx_done g \<longleftrightarrow> c)"

definition groups_ok :: "('e, 'svc) life_config \<Rightarrow> ('e, 'j) life \<Rightarrow> bool" where
  "groups_ok cfg s \<longleftrightarrow> (\<forall>k < length (groups s). group_ok cfg (cancelled (main s)) k (groups s ! k))"

definition launched_ok :: "('e, 'svc) life_config \<Rightarrow> 'x run_pc \<Rightarrow> nat \<Rightarrow> bool" where
  "launched_ok cfg p n \<longleftrightarrow> (case p of
      StartJob _ \<Rightarrow> n = 0
    | StartService k \<Rightarrow> n = k \<and> k \<le> length (l_services cfg)
    | StartObservable \<Rightarrow> n = length (l_services cfg)
    | ExitedFatal \<Rightarrow> n = 0
    | Returned (Some _) \<Rightarrow> n \<le> Suc (length (l_services cfg))
    | _ \<Rightarrow> n = Suc (length (l_services cfg)))
   \<and> (if returned_error p then True else \<forall>k < n. launch_error cfg k = None)"

definition waits_ok :: "('e, 'svc) life_config \<Rightarrow> ('e, 'j) life \<Rightarrow> bool" where
  "waits_ok cfg s \<longleftrightarrow> length (stopped_services (main s)) = length (l_services cfg)
     \<and> (\<forall>k < length (l_services cfg). stopped_services (main s) ! k \<longrightarrow> k < length (groups s) \<and> wait_count (groups s ! k) = 0)
     \<and> (stopped_observable (main s) \<longrightarrow>
         length (l_services cfg) < length (groups s) \<and> wait_count (groups s ! length (l_services cfg)) = 0)"

lemma launched_count:
  assumes "launched cfg k = (effects, n, err)"
  shows "n = length (filter is_server effects) + listen_failed err"
proof (cases "k < length (l_services cfg)")
  case True
  with assms service_Run_wait_count [of "l_env cfg" _ _ effects n err] show ?thesis
    by (auto simp: launched_def Let_def)
qed (use assms in \<open>auto simp: launched_def is_server_def listen_failed_def split: option.splits\<close>)

lemma launch_group_ok: "group_ok cfg False k (launch_group (launched cfg k))"
proof (cases "launched cfg k")
  case (fields effects n err)
  with serve_inv_started [OF launched_count [OF fields]] show ?thesis
    by (simp add: group_ok_def launch_group_def launch_error_def group_kinds_def serve_start_def)
qed

lemma cancel_group_ok: "group_ok cfg c k g \<Longrightarrow> group_ok cfg True k (g\<lparr>ctx_done := True\<rparr>)"
  by (auto simp: group_ok_def serve_inv_def intro: list_all_srv_ok_mono)

lemma serve_step_keeps:
  assumes "serve_step a g = Some g'"
  shows "map srv_kind (servers g') = map srv_kind (servers g)" "a \<noteq> Cancel \<Longrightarrow> ctx_done g' = ctx_done g"
    "wait_count g' \<le> wait_count g"
  using serve_step_forward [OF assms] assms
  by (cases a; auto simp: list_all2_conv_all_nth same_or_later_def list_eq_iff_nth_eq split: if_splits option.splits)+

lemma move_group_ok:
  "serve_step a g = Some g' \<Longrightarrow> a \<noteq> Cancel \<Longrightarrow> group_ok cfg c k g \<Longrightarrow> group_ok cfg c k g'"
  using serve_inv_step [of a g g'] serve_step_keeps [of a g g'] by (auto simp: group_ok_def)

lemma move_waited:
  assumes "serve_step a g = Some g'" "group_ok cfg c k g" "wait_count g = 0"
  shows "wait_count g' = 0"
proof -
  have "0 \<le> wait_count g'"
    using serve_inv_step [OF assms(1)] assms(2) pendings_nonneg [of "servers g'"]
    by (auto simp: group_ok_def serve_inv_def)
  with serve_step_keeps(3) [OF assms(1)] assms(3) show ?thesis by simp
qed

lemma length_launch [simp]:
  "length (cancel_groups c gs) = length gs"
  "length (launch cfg p p' gs) = length gs + of_bool (p' \<noteq> p \<and> launches cfg p)"
  by (simp_all add: cancel_groups_def launch_def)

lemma life_run_simps [simp]:
  "job_names (life_run cfg) = l_jobs cfg" "length (service_start (life_run cfg)) = length (l_services cfg)"
  "k < length (l_services cfg) \<Longrightarrow> service_start (life_run cfg) ! k = map_option Inr (launch_error cfg k)"
  "observable_start (life_run cfg) = map_option Inr (launch_error cfg (length (l_services cfg)))"
  by (simp_all add: life_run_def)

lemma launched_ok_step:
  "run_step (life_run cfg) r r' \<Longrightarrow> launched_ok cfg (pc r) (length gs) \<Longrightarrow>
     launched_ok cfg (pc r') (length (launch cfg (pc r) (pc r') gs))"
  by (induction rule: run_step.induct) (auto simp: launched_ok_def returned_error_def less_Suc_eq split: option.splits)

lemma cancelled_step: "run_step rc r r' \<Longrightarrow> cancelled r \<Longrightarrow> cancelled r'"
  by (induction rule: run_step.induct) auto

definition life_inv :: "('e, 'svc) life_config \<Rightarrow> ('e, 'j) life \<Rightarrow> bool" where
  "life_inv cfg s \<longleftrightarrow> run_reach (life_run cfg) (main s) \<and> groups_ok cfg s
     \<and> launched_ok cfg (pc (main s)) (length (groups s)) \<and> waits_ok cfg s"

lemma launch_groups_ok:
  assumes "\<forall>k < length gs. group_ok cfg c k (gs ! k)" "k < length (launch cfg p p' gs)" "\<not> c"
  shows "group_ok cfg c k (launch cfg p p' gs ! k)"
  using assms launch_group_ok [of cfg "length gs"]
  by (auto simp: launch_def nth_append less_Suc_eq split: if_splits)

lemma main_groups_ok:
  assumes "run_step (life_run cfg) (main s) r" "groups_ok cfg s" "launched_ok cfg (pc (main s)) (length (groups s))"
    "cancelled (main s) \<longrightarrow> \<not> launches cfg (pc (main s))" "k < length (launch cfg (pc (main s)) (pc r) (groups s))"
  shows "group_ok cfg (cancelled r) k (cancel_groups (cancelled r) (launch cfg (pc (main s)) (pc r) (groups s)) ! k)"
proof -
  let ?gs = "launch cfg (pc (main s)) (pc r) (groups s)"
  have ok: "group_ok cfg (cancelled (main s)) k (?gs ! k)"
  proof (cases "cancelled (main s)")
    case True
    with assms(2,4,5) show ?thesis by (auto simp: groups_ok_def launch_def)
  next
    case False
    then show ?thesis using launch_groups_ok [of "groups s" cfg "cancelled (main s)"] assms(2,5) by (simp add: groups_ok_def)
  qed
  show ?thesis
  proof (cases "cancelled r")
    case True
    with cancel_group_ok [OF ok] assms(5) show ?thesis by (simp add: cancel_groups_def)
  next
    case False
    with cancelled_step [OF assms(1)] have "\<not> cancelled (main s)" by blast
    with False ok show ?thesis by (simp add: cancel_groups_def)
  qed
qed

lemma stopping_pc:
  "stop_ok r \<Longrightarrow> cancelled r \<Longrightarrow> pc r \<in> {WaitJobs, WaitServices, WaitObservable, Returned None}"
  by (auto simp: stop_ok_def split: run_pc.splits option.splits)

lemma main_waits_ok:
  assumes "waits_ok cfg s" "stopped_services r = stopped_services (main s)" "stopped_observable r = stopped_observable (main s)"
  shows "waits_ok cfg (s\<lparr>main := r, groups := cancel_groups c (launch cfg p p' (groups s))\<rparr>)"
  using assms by (auto simp: waits_ok_def cancel_groups_def launch_def nth_append)

lemma life_inv_step:
  assumes "life_step cfg s s'" "life_inv cfg s"
  shows "life_inv cfg s'"
  using assms(1)
proof (cases rule: life_step_cases)
  case (main_moves r)
  have inv: "run_reach (life_run cfg) (main s)" "groups_ok cfg s" "launched_ok cfg (pc (main s)) (length (groups s))"
    "waits_ok cfg s" using assms(2) by (simp_all add: life_inv_def)
  have "stop_ok (main s)" using run_inv [OF inv(1)] by simp
  then have "cancelled (main s) \<longrightarrow> \<not> launches cfg (pc (main s))" using stopping_pc [of "main s"] by auto
  from main_groups_ok [OF main_moves(3) inv(2,3) this]
  have "groups_ok cfg s'" by (simp add: groups_ok_def main_moves(1))
  with reach_step [OF inv(1) main_moves(3)] launched_ok_step [OF main_moves(3) inv(3)]
    main_waits_ok [OF inv(4) main_moves(4,5)] show ?thesis
    by (simp add: life_inv_def main_moves(1))
next
  case (server_moves k a g)
  then have ok: "group_ok cfg (cancelled (main s)) k (groups s ! k)" using assms(2) by (simp add: life_inv_def groups_ok_def)
  have "group_ok cfg (cancelled (main s)) k g" by (rule move_group_ok [OF server_moves(5,4) ok])
  moreover have "wait_count (groups s ! k) = 0 \<Longrightarrow> wait_count g = 0" by (rule move_waited [OF server_moves(5) ok])
  ultimately show ?thesis
    using server_moves(1,3) assms(2) by (auto simp: life_inv_def groups_ok_def waits_ok_def nth_list_update)
next
  case (service_wait_returns k)
  have "k < length (stopped_services (main s))" using service_wait_returns assms(2) by (simp add: life_inv_def waits_ok_def)
  with reach_step [OF _ service_stops [OF service_wait_returns(3)]] service_wait_returns assms(2) show ?thesis
    by (auto simp: life_inv_def groups_ok_def waits_ok_def nth_list_update)
next
  case observable_wait_returns
  with reach_step [OF _ observable_stops [OF observable_wait_returns(3)]] assms(2) show ?thesis
    by (auto simp: life_inv_def groups_ok_def waits_ok_def)
qed

lemma life_inv: "life_reach cfg s \<Longrightarrow> life_inv cfg s"
proof (induction rule: life_reach.induct)
  case life_init
  show ?case by (simp add: life_inv_def life_start_def reach_start groups_ok_def waits_ok_def launched_ok_def)
      (simp add: run_start_def)
qed (rule life_inv_step)

text \<open>The servers of a service that has started: one for each of its endpoints.\<close>

definition service_kinds :: "('e, 'svc) service \<Rightarrow> srv_kind list" where
  "service_kinds s = (if grpcServer s \<noteq> None then [GrpcServer] else []) @ (if ginEngine s \<noteq> None then [HttpServer] else [])"

lemma group_kinds_append: "group_kinds (xs @ ys) = group_kinds xs @ group_kinds ys"
  by (induction xs) (auto simp: group_kinds_def List.map_filter_simps split: option.splits)

lemma service_Run_kinds:
  "service_Run env status s = (effects, n, None) \<Longrightarrow> group_kinds effects = service_kinds s"
  by (auto simp: service_Run_def serve_grpc_part_def serve_http_part_def service_kinds_def Let_def group_kinds_append
      split: if_splits option.splits prod.splits) (auto simp: group_kinds_def List.map_filter_simps)

text \<open>For a service that \<open>Init\<close> has made these are the endpoints of its configuration.\<close>

lemma service_kinds_of_config:
  "newService env self mm config = Return (Inr s) \<Longrightarrow>
     service_kinds s = (if ep_Grpc (svc_Endpoints config) \<noteq> [] then [GrpcServer] else [])
       @ (if ep_Http (svc_Endpoints config) \<noteq> [] then [HttpServer] else [])"
  by (erule newService_parts) (auto simp: service_kinds_def split: if_splits)

lemma app_service_kinds:
  assumes "Init env ie selfs s0 (NewApp menv config) = Return a" "GetService a name = Some s"
  obtains c where "c \<in> set (Services (a_config a))" "svc_Name c = name"
    "service_kinds s = (if ep_Grpc (svc_Endpoints c) \<noteq> [] then [GrpcServer] else [])
       @ (if ep_Http (svc_Endpoints c) \<noteq> [] then [HttpServer] else [])"
proof -
  have "has_service env (newDefaultMiddlewareManager menv) selfs (Services (a_config a)) name s"
    using Init_services [OF assms(1) _ assms(2)] by (simp add: NewApp_def)
  then obtain c where "c \<in> set (Services (a_config a))" "svc_Name c = name"
    "newService env (selfs name) (newDefaultMiddlewareManager menv) c = Return (Inr s)"
    unfolding has_service_def by blast
  from that [OF this(1,2) service_kinds_of_config [OF this(3)]] show thesis .
qed

definition life_kinds :: "('e, 'svc) life_config \<Rightarrow> nat \<Rightarrow> srv_kind list" where
  "life_kinds cfg k = (if k < length (l_services cfg) then service_kinds (l_services cfg ! k) else [HttpServer])"

lemma launched_kinds:
  "launch_error cfg k = None \<Longrightarrow> group_kinds (fst (launched cfg k)) = life_kinds cfg k"
  using service_Run_kinds [of "l_env cfg" "l_status cfg (l_services cfg ! k)" "l_services cfg ! k"]
  by (cases "launched cfg k")
    (auto simp: launch_error_def launched_def life_kinds_def Let_def group_kinds_def List.map_filter_simps split: if_splits option.splits)

section \<open>The steps as a function\<close>

datatype ('e, 'j) life_action =
    MainDoes "('j + 'e service_error) run_action" | ServerDoes nat serve_action | WaitReturns nat

fun stops_servers :: "'e run_action \<Rightarrow> bool" where
  "stops_servers (ServiceStops _) = True"
| "stops_servers ObservableStops = True"
| "stops_servers _ = False"

definition wait_returns :: "('e, 'svc) life_config \<Rightarrow> nat \<Rightarrow> ('e, 'j) life \<Rightarrow> ('e, 'j) life option" where
  "wait_returns cfg k s =
    (if cancelled (main s) \<and> k < length (groups s) \<and> k \<le> length (l_services cfg) \<and> wait_count (groups s ! k) = 0
     then Some (s\<lparr>main := (if k < length (l_services cfg)
       then (main s)\<lparr>stopped_services := (stopped_services (main s))[k := True]\<rparr>
       else (main s)\<lparr>stopped_observable := True\<rparr>)\<rparr>)
     else None)"

definition life_do ::
  "('e, 'svc) life_config \<Rightarrow> ('e, 'j) life_action \<Rightarrow> ('e, 'j) life \<Rightarrow> ('e, 'j) life option" where
  "life_do cfg act s = (if \<not> alive s then None else case act of
      MainDoes a \<Rightarrow> if stops_servers a then None else map_option
        (\<lambda>r. s\<lparr>main := r, groups := cancel_groups (cancelled r) (launch cfg (pc (main s)) (pc r) (groups s))\<rparr>)
        (run_do (life_run cfg) a (main s))
    | ServerDoes k a \<Rightarrow> if k < length (groups s) \<and> a \<noteq> Cancel
        then map_option (\<lambda>g. s\<lparr>groups := (groups s)[k := g]\<rparr>) (serve_step a (groups s ! k)) else None
    | WaitReturns k \<Rightarrow> wait_returns cfg k s)"

lemma run_do_stopped:
  "run_do rc a r = Some r' \<Longrightarrow> \<not> stops_servers a \<Longrightarrow>
     stopped_services r' = stopped_services r \<and> stopped_observable r' = stopped_observable r"
  by (cases a) (auto simp: proceed_def take_jobs_def job_returns_def job_sends_def
      split: run_pc.splits if_splits option.splits list.splits job.splits)

lemma life_do_sound: "life_do cfg act s = Some s' \<Longrightarrow> life_step cfg s s'"
proof (cases act)
  case (MainDoes a)
  assume "life_do cfg act s = Some s'"
  with MainDoes obtain r where "alive s" "\<not> stops_servers a" "run_do (life_run cfg) a (main s) = Some r"
    "s' = s\<lparr>main := r, groups := cancel_groups (cancelled r) (launch cfg (pc (main s)) (pc r) (groups s))\<rparr>"
    by (auto simp: life_do_def split: if_splits)
  with main_moves [of s cfg r] run_do_sound [of "life_run cfg" a "main s" r] run_do_stopped [of "life_run cfg" a "main s" r]
  show ?thesis by simp
next
  case (WaitReturns k)
  assume "life_do cfg act s = Some s'"
  with WaitReturns service_wait_returns [of s k cfg] observable_wait_returns [of s cfg] show ?thesis
    by (auto simp: life_do_def wait_returns_def not_less split: if_splits)
qed (auto simp: life_do_def intro: server_moves split: if_splits)

fun life_exec :: "('e, 'svc) life_config \<Rightarrow> ('e, 'j) life_action list \<Rightarrow> ('e, 'j) life \<Rightarrow> ('e, 'j) life option" where
  "life_exec cfg [] s = Some s"
| "life_exec cfg (a # as) s = (case life_do cfg a s of None \<Rightarrow> None | Some s' \<Rightarrow> life_exec cfg as s')"

lemma life_exec_reach: "life_exec cfg as s = Some s' \<Longrightarrow> life_reach cfg s \<Longrightarrow> life_reach cfg s'"
  by (induction as arbitrary: s) (auto split: option.splits dest: life_do_sound intro: life_next)

section \<open>Shutting down\<close>

text \<open>
  What is left to do after the cancellation: the steps of the servers, the calls of \<open>Wait\<close>
  that have not returned, and the stages of \<open>Run\<close>.
\<close>

fun stage :: "'x run_pc \<Rightarrow> nat" where
  "stage WaitJobs = 3"
| "stage WaitServices = 2"
| "stage WaitObservable = 1"
| "stage _ = 0"

definition shutdown_left :: "('e, 'j) life \<Rightarrow> nat" where
  "shutdown_left s = swg.total (groups s) + length (filter Not (stopped_services (main s)))
     + of_bool (\<not> stopped_observable (main s)) + stage (pc (main s))"

lemma cancel_total [simp]: "swg.total (cancel_groups c gs) = swg.total gs"
proof -
  have "sys_rank (g\<lparr>ctx_done := True\<rparr>) = sys_rank g" for g by (simp add: sys_rank_def)
  then show ?thesis by (simp add: cancel_groups_def comp_def)
qed

lemma main_stage:
  "run_step rc r r' \<Longrightarrow> cancelled r \<Longrightarrow> pc r \<in> {WaitJobs, WaitServices, WaitObservable, Returned None} \<Longrightarrow>
     stage (pc r') \<le> stage (pc r)"
  by (induction rule: run_step.induct) auto

lemma not_stopped_update:
  "k < length bs \<Longrightarrow> length (filter Not (bs[k := True])) + of_bool (\<not> bs ! k) = length (filter Not bs)"
proof (induction bs arbitrary: k)
  case (Cons b bs)
  then show ?case using Cons.IH [of "k - 1"] by (cases k) auto
qed simp

lemma stage_done:
  assumes "wg_zero r" "list_all id (stopped_services r)" "stopped_observable r" "pc r \<in> {WaitJobs, WaitServices, WaitObservable}"
  obtains p where "run_step rc r (r\<lparr>pc := p\<rparr>)" "stage p < stage (pc r)"
proof -
  from assms(4) consider "pc r = WaitJobs" | "pc r = WaitServices" | "pc r = WaitObservable" by auto
  then show thesis
  proof cases
    case 1
    show thesis using jobs_waited [OF 1 assms(1)] by (rule that) (simp add: 1)
  next
    case 2
    show thesis using services_waited [OF 2 assms(2)] by (rule that) (simp add: 2)
  next
    case 3
    show thesis using observable_waited [OF 3 assms(3)] by (rule that) (simp add: 3)
  qed
qed

lemma shutdown_left_step:
  assumes "life_step cfg s s'" "life_inv cfg s" "cancelled (main s)"
  shows "shutdown_left s' \<le> shutdown_left s"
  using assms(1)
proof (cases rule: life_step_cases)
  case (main_moves r)
  have "stop_ok (main s)" using run_inv [of "life_run cfg" "main s"] assms(2) by (simp add: life_inv_def)
  from stopping_pc [OF this assms(3)] have p: "pc (main s) \<in> {WaitJobs, WaitServices, WaitObservable, Returned None}" .
  then have "launch cfg (pc (main s)) (pc r) (groups s) = groups s" by (auto simp: launch_def)
  with main_moves main_stage [OF main_moves(3) assms(3) p] show ?thesis by (simp add: shutdown_left_def)
next
  case (server_moves k a g)
  with swg.total_move [OF server_moves(3,5)] show ?thesis by (simp add: shutdown_left_def)
next
  case (service_wait_returns k)
  with not_stopped_update [of k "stopped_services (main s)"] assms(2) show ?thesis
    by (simp add: shutdown_left_def life_inv_def waits_ok_def)
qed (simp add: shutdown_left_def)

text \<open>One of the stages that is not blocked.\<close>

lemma shutdown_progress_step:
  assumes "life_inv cfg s" "cancelled (main s)" "alive s" "list_all finished (jobs (main s))" "pc (main s) \<noteq> Returned None"
  shows "\<exists>s'. life_step cfg s s' \<and> shutdown_left s' < shutdown_left s"
proof -
  let ?n = "length (l_services cfg)"
  have stop: "stop_ok (main s)" using run_inv [of "life_run cfg" "main s"] assms(1) by (simp add: life_inv_def)
  from stopping_pc [OF this assms(2)] assms(5)
  have p: "pc (main s) \<in> {WaitJobs, WaitServices, WaitObservable}" by simp
  have n: "length (groups s) = Suc ?n" and no_err: "\<forall>k < Suc ?n. launch_error cfg k = None"
    using assms(1) p by (auto simp: life_inv_def launched_ok_def returned_error_def)
  have gs: "list_all (serve_inv 0) (groups s)" "list_all (\<lambda>g. ctx_done g \<and> \<not> dead g) (groups s)"
    using assms(1-3) n no_err
    by (auto simp: life_inv_def groups_ok_def group_ok_def list_all_length alive_def listen_failed_def)
  show ?thesis
  proof (cases rule: swg.waited_or_move [OF gs])
    case (2 k a g)
    have "a \<noteq> Cancel" using 2(2) by auto
    with server_moves [OF assms(3) 2(1) this 2(3), of cfg] 2(4) show ?thesis
      by (intro exI conjI) (assumption, simp add: shutdown_left_def)
  next
    case 1
    show ?thesis
    proof (cases "list_all id (stopped_services (main s)) \<and> stopped_observable (main s)")
      case False
      then consider k where "k < length (stopped_services (main s))" "\<not> stopped_services (main s) ! k"
        | "\<not> stopped_observable (main s)" by (auto simp: list_all_length)
      then show ?thesis
      proof cases
        case (1 k)
        moreover have "k < ?n" using 1 assms(1) by (simp add: life_inv_def waits_ok_def)
        ultimately show ?thesis
          using service_wait_returns [OF assms(3,2), of k cfg] \<open>list_all (\<lambda>g. wait_count g = 0) (groups s)\<close> n
            not_stopped_update [of k "stopped_services (main s)"]
          by (intro exI conjI) (auto simp: list_all_length shutdown_left_def)
      next
        case 2
        then show ?thesis
          using observable_wait_returns [OF assms(3,2), of cfg] \<open>list_all (\<lambda>g. wait_count g = 0) (groups s)\<close> n
          by (intro exI conjI) (auto simp: list_all_length shutdown_left_def)
      qed
    next
      case True
      have "wg_zero (main s)" using assms(4) by (auto simp: wg_zero_def list_all_iff finished_iff)
      from stage_done [OF this _ _ p] True obtain q where
        q: "run_step (life_run cfg) (main s) ((main s)\<lparr>pc := q\<rparr>)" "stage q < stage (pc (main s))" by blast
      have "launch cfg (pc (main s)) q (groups s) = groups s" using p by (auto simp: launch_def)
      with main_moves [OF assms(3) q(1)] q(2) show ?thesis
        by (intro exI conjI) (assumption | simp add: shutdown_left_def)+
    qed
  qed
qed

text \<open>A service has at most two servers, and each of them takes four steps to stop.\<close>

lemma srv_rank_le: "srv_rank srv \<le> 4"
  by (cases "stopper srv") (simp_all add: srv_rank_def)

lemma sys_rank_le: "sys_rank g \<le> 4 * length (servers g)"
  using sum_list_mono [of "servers g" srv_rank "\<lambda>_. 4"] srv_rank_le by (simp add: sys_rank_def sum_list_triv)

lemma life_kinds_le: "length (life_kinds cfg k) \<le> 2"
  by (simp add: life_kinds_def service_kinds_def)

lemma stopping_groups:
  assumes "life_inv cfg s" "pc (main s) \<in> {WaitJobs, WaitServices, WaitObservable, Returned None}"
  shows "length (groups s) = Suc (length (l_services cfg))"
    and "k < length (groups s) \<Longrightarrow> serve_inv 0 (groups s ! k) \<and> map srv_kind (servers (groups s ! k)) = life_kinds cfg k"
proof -
  show n: "length (groups s) = Suc (length (l_services cfg))"
    using assms by (auto simp: life_inv_def launched_ok_def)
  show "serve_inv 0 (groups s ! k) \<and> map srv_kind (servers (groups s ! k)) = life_kinds cfg k" if k: "k < length (groups s)"
  proof -
    have "group_ok cfg (cancelled (main s)) k (groups s ! k)" using assms(1) k by (simp add: life_inv_def groups_ok_def)
    moreover have "launch_error cfg k = None"
      using assms k n by (auto simp: life_inv_def launched_ok_def returned_error_def)
    ultimately show ?thesis using launched_kinds [of cfg k] by (simp add: group_ok_def listen_failed_def)
  qed
qed

lemma shutdown_left_le:
  assumes "life_inv cfg s" "pc (main s) \<in> {WaitJobs, WaitServices, WaitObservable, Returned None}"
  shows "shutdown_left s \<le> 9 * length (l_services cfg) + 12"
proof -
  have "sys_rank g \<le> 8" if "g \<in> set (groups s)" for g
  proof -
    from that obtain k where k: "k < length (groups s)" "groups s ! k = g" by (auto simp: in_set_conv_nth)
    from stopping_groups(2) [OF assms k(1)] have "map srv_kind (servers g) = life_kinds cfg k" by (simp add: k(2))
    from arg_cong [OF this, of length] have "length (servers g) = length (life_kinds cfg k)" by simp
    then have "length (servers g) \<le> 2" using life_kinds_le [of cfg k] by simp
    with sys_rank_le [of g] show ?thesis by simp
  qed
  then have "swg.total (groups s) \<le> 8 * length (groups s)"
    using sum_list_mono [of "groups s" sys_rank "\<lambda>_. 8"] by (simp add: sum_list_triv)
  moreover have "length (filter Not (stopped_services (main s))) \<le> length (l_services cfg)"
    using assms(1) unfolding life_inv_def waits_ok_def by (metis length_filter_le)
  moreover have "stage (pc (main s)) \<le> 3" by (cases "pc (main s)") auto
  ultimately show ?thesis using stopping_groups(1) [OF assms] by (simp add: shutdown_left_def)
qed

section \<open>Properties\<close>

text \<open>
  C6. An application that returns from \<open>Run\<close> without an error has stopped: every job has
  returned, and every service and the observable one had been started with one server for each of its
  endpoints, all of which have been stopped, with no gRPC request in flight, unless a server of that service
  failed with a panic. \<open>Run\<close> ended on a stop signal or because all jobs completed without an error.
\<close>

theorem application_stops:
  assumes "life_reach cfg s" "pc (main s) = Returned None"
  shows "list_all finished (jobs (main s)) \<and> length (groups s) = Suc (length (l_services cfg))
    \<and> list_all (\<lambda>k. map srv_kind (servers (groups s ! k)) = life_kinds cfg k
        \<and> (if panicking (groups s ! k) then True else list_all stopped (servers (groups s ! k)))) [0..<length (groups s)]
    \<and> (case printed (main s) of Some AllJobsCompleted \<Rightarrow> \<not> list_ex failed (jobs (main s))
       | Some ReceivedStopSignal \<Rightarrow> True | _ \<Rightarrow> False)"
proof -
  have inv: "life_inv cfg s" by (rule life_inv [OF assms(1)])
  then have run: "run_reach (life_run cfg) (main s)" and waits: "waits_ok cfg s" by (simp_all add: life_inv_def)
  note stop = Run_returns_when_stopped [OF run assms(2)]
  have p: "pc (main s) \<in> {WaitJobs, WaitServices, WaitObservable, Returned None}" using assms(2) by simp
  note groups = stopping_groups [OF inv p]
  have "list_all stopped (servers (groups s ! k))" if k: "k < length (groups s)" and calm: "\<not> panicking (groups s ! k)" for k
  proof -
    have "wait_count (groups s ! k) = 0"
      using k stop waits groups(1) by (cases "k = length (l_services cfg)") (auto simp: waits_ok_def list_all_length)
    with groups(2) [OF k] have "pendings (servers (groups s ! k)) = 0"
      and "list_all (srv_ok (ctx_done (groups s ! k)) False) (servers (groups s ! k))"
      using calm by (simp_all add: serve_inv_def)
    then show ?thesis using pending_zero pendings_zero by (fastforce simp: list_all_iff)
  qed
  then have "list_all (\<lambda>k. map srv_kind (servers (groups s ! k)) = life_kinds cfg k
      \<and> (if panicking (groups s ! k) then True else list_all stopped (servers (groups s ! k)))) [0..<length (groups s)]"
    using groups(2) unfolding list_all_iff by (simp del: stopped.simps)
  with stop groups(1) show ?thesis by blast
qed

text \<open>
  C7. Stopping an application ends. Once its context is cancelled at most nine steps for each
  service and twelve more are left, no step of any goroutine, job, client or failing server adds to them, and
  as long as the process lives and the jobs have returned, one of them can be taken until \<open>Run\<close> has
  returned without an error.
\<close>

theorem shutdown_ends:
  assumes "life_reach cfg s" "cancelled (main s)"
  shows "shutdown_left s \<le> 9 * length (l_services cfg) + 12
    \<and> (\<forall>s'. life_step cfg s s' \<longrightarrow> shutdown_left s' \<le> shutdown_left s)
    \<and> (alive s \<and> list_all finished (jobs (main s)) \<and> pc (main s) \<noteq> Returned None
        \<longrightarrow> (\<exists>s'. life_step cfg s s' \<and> shutdown_left s' < shutdown_left s))"
proof -
  have inv: "life_inv cfg s" by (rule life_inv [OF assms(1)])
  then have "stop_ok (main s)" using run_inv [of "life_run cfg" "main s"] by (simp add: life_inv_def)
  from stopping_pc [OF this assms(2)] show ?thesis
    using shutdown_left_le [OF inv] shutdown_left_step [OF _ inv assms(2)] shutdown_progress_step [OF inv assms(2)] by blast
qed

section \<open>A concrete application\<close>

definition sample_life :: "(unit, nat) life_config option" where
  "sample_life = (case sample_app of Return a \<Rightarrow> map_option
      (\<lambda>obs. life_of_app sample_app_env (\<lambda>_. healthy0) (map snd (a_services a)) obs a) (a_observable a)
    | Panic _ \<Rightarrow> None)"

fun returned_ok :: "'x run_pc \<Rightarrow> bool" where
  "returned_ok (Returned None) = True"
| "returned_ok _ = False"

text \<open>It starts its service and the observable one, and gets a stop signal during a request.\<close>

definition to_signal :: "(unit, unit) life_action list" where
  "to_signal = [MainDoes Proceed, MainDoes Proceed, MainDoes Proceed, MainDoes Proceed, ServerDoes 0 (On 0 Accept),
     MainDoes SignalArrives, MainDoes TakeSignal]"

definition to_end :: "(unit, unit) life_action list" where
  "to_end = [MainDoes Proceed, ServerDoes 0 (On 0 BeginStop), ServerDoes 1 (On 0 BeginStop), ServerDoes 1 (On 0 StopsGracefully),
     ServerDoes 0 (On 0 FinishRequest), ServerDoes 0 (On 0 StopsGracefully), ServerDoes 0 (On 0 ServeReturns), WaitReturns 0,
     MainDoes Proceed, WaitReturns 1, MainDoes Proceed]"

definition sample_stopping :: "((unit, nat) life_config \<times> (unit, unit) life) option" where
  "sample_stopping = Option.bind sample_life (\<lambda>cfg. map_option (Pair cfg) (life_exec cfg to_signal (life_start cfg)))"

definition sample_stopped :: "((unit, nat) life_config \<times> (unit, unit) life) option" where
  "sample_stopped = Option.bind sample_life (\<lambda>cfg. map_option (Pair cfg) (life_exec cfg (to_signal @ to_end) (life_start cfg)))"

lemma sample_reach:
  "sample_stopping = Some (cfg, s) \<Longrightarrow> life_reach cfg s" "sample_stopped = Some (cfg, s) \<Longrightarrow> life_reach cfg s"
  by (auto simp: sample_stopping_def sample_stopped_def Option.bind_eq_Some_conv intro: life_exec_reach [OF _ life_init])

theorem application_stops_witness:
  "\<exists>cfg s. sample_stopped = Some (cfg, s) \<and> length (groups s) = 2
    \<and> map srv_kind (servers (groups s ! 0)) = [GrpcServer] \<and> list_all stopped (servers (groups s ! 0))"
proof -
  have "case sample_stopped of Some (cfg, s) \<Rightarrow> returned_ok (pc (main s)) \<and> length (l_services cfg) = 1
      \<and> life_kinds cfg 0 = [GrpcServer] \<and> \<not> panicking (groups s ! 0) | None \<Rightarrow> False"
    by code_simp
  then obtain cfg s where s: "sample_stopped = Some (cfg, s)" "returned_ok (pc (main s))" "length (l_services cfg) = 1"
    "life_kinds cfg 0 = [GrpcServer]" "\<not> panicking (groups s ! 0)"
    by (auto split: option.splits)
  have "pc (main s) = Returned None" using s(2) by (cases "pc (main s)" rule: returned_ok.cases) auto
  from application_stops [OF sample_reach(2) [OF s(1)] this] have "length (groups s) = Suc (length (l_services cfg))"
    and all: "list_all (\<lambda>k. map srv_kind (servers (groups s ! k)) = life_kinds cfg k
      \<and> (if panicking (groups s ! k) then True else list_all stopped (servers (groups s ! k)))) [0..<length (groups s)]"
    by blast+
  with s(3) have len: "length (groups s) = 2" by simp
  have "(0 :: nat) \<in> set [0..<length (groups s)]" using len by simp
  with all have "map srv_kind (servers (groups s ! 0)) = life_kinds cfg 0
      \<and> (if panicking (groups s ! 0) then True else list_all stopped (servers (groups s ! 0)))"
    unfolding list_all_iff by blast
  with s len show ?thesis by (intro exI [of _ cfg] exI [of _ s]) (simp del: stopped.simps)
qed

theorem shutdown_ends_witness:
  "\<exists>cfg s s'. sample_stopping = Some (cfg, s) \<and> shutdown_left s \<le> 21 \<and> life_step cfg s s' \<and> shutdown_left s' < shutdown_left s"
proof -
  have "case sample_stopping of Some (cfg, s) \<Rightarrow> cancelled (main s) \<and> alive s \<and> jobs (main s) = []
      \<and> length (l_services cfg) = 1 \<and> \<not> returned_ok (pc (main s)) | None \<Rightarrow> False"
    by code_simp
  then obtain cfg s where s: "sample_stopping = Some (cfg, s)" "cancelled (main s)" "alive s" "jobs (main s) = []"
    "length (l_services cfg) = 1" "\<not> returned_ok (pc (main s))"
    by (auto split: option.splits)
  then have "pc (main s) \<noteq> Returned None" by auto
  with shutdown_ends [OF sample_reach(1) [OF s(1)] s(2)] s show ?thesis by auto
qed

end
