(* ===== verification/HealthWatch.thy ===== *)
theory HealthWatch
  imports HealthServer
begin

text \<open>
  The health runner and the gRPC health service together (\<open>src/health\<close>): the service reads
  the last status of the runner and receives from its report channel, which drops a status when it
  is full. What a client of \<open>Watch\<close> is sent is compared with what the runner published.
\<close>

section \<open>The composition\<close>

record 'e watch_sys =
  runner_side :: "'e health_sys"
  server_side :: "'e server"

text \<open>
  An event of the runner other than a receive, a move of the broadcaster, and one of a watcher, whose
  stream may fail. The broadcaster is the consumer of the report channel. A panic of the runner ends
  the process.
\<close>

datatype 'e watch_event = RunnerDoes "'e health_event" | BroadcasterMoves | WatcherMoves nat bool

fun consumes :: "'e health_event \<Rightarrow> bool" where
  "consumes Consume = True"
| "consumes _ = False"

definition runner_does :: "('e \<Rightarrow> 'e \<Rightarrow> bool option) \<Rightarrow> 'e health_event \<Rightarrow> 'e watch_sys \<Rightarrow> 'e watch_sys" where
  "runner_does err_eq ev s =
    (let r = health_step err_eq ev (runner_side s)
     in s\<lparr>runner_side := r, server_side := (server_side s)\<lparr>last_status := lastStatus (rn r)\<rparr>\<rparr>)"

definition broadcaster_moves :: "('e \<Rightarrow> 'e \<Rightarrow> bool option) \<Rightarrow> 'e watch_sys \<Rightarrow> 'e watch_sys" where
  "broadcaster_moves err_eq s = (case bc (server_side s) of
      BReceive \<Rightarrow> (case reportChan (rn (runner_side s)) of
          [] \<Rightarrow> s
        | st # _ \<Rightarrow> s\<lparr>runner_side := health_step err_eq Consume (runner_side s),
            server_side := server_step BMove ((server_side s)\<lparr>reports := [st]\<rparr>)\<rparr>)
    | _ \<Rightarrow> s\<lparr>server_side := server_step BMove (server_side s)\<rparr>)"

definition watch_step :: "('e \<Rightarrow> 'e \<Rightarrow> bool option) \<Rightarrow> 'e watch_event \<Rightarrow> 'e watch_sys \<Rightarrow> 'e watch_sys" where
  "watch_step err_eq ev s =
    (if crashed (runner_side s) then s
     else case ev of
       RunnerDoes hev \<Rightarrow> if consumes hev then s else runner_does err_eq hev s
     | BroadcasterMoves \<Rightarrow> broadcaster_moves err_eq s
     | WatcherMoves i ok \<Rightarrow> s\<lparr>server_side := server_step (WMove i ok) (server_side s)\<rparr>)"

definition watch_run :: "('e \<Rightarrow> 'e \<Rightarrow> bool option) \<Rightarrow> 'e watch_event list \<Rightarrow> 'e watch_sys \<Rightarrow> 'e watch_sys" where
  "watch_run err_eq evs s = foldl (\<lambda>s ev. watch_step err_eq ev s) s evs"

text \<open>\<open>NewServer\<close> on a new runner, with a number of clients that will call \<open>Watch\<close>.\<close>

definition watch_start :: "RunOption list \<Rightarrow> string list \<Rightarrow> nat \<Rightarrow> 'e watch_sys" where
  "watch_start options names n =
    (let r = fold AddCheck names (NewRunner options)
     in \<lparr>runner_side = health_start r, server_side = NewServer (lastStatus r) n\<rparr>)"

section \<open>What a watcher is sent\<close>

definition sent_by :: "nat \<Rightarrow> 'e server \<Rightarrow> ServingStatus list" where
  "sent_by i s = map snd (filter (\<lambda>p. fst p = i) (sent s))"

text \<open>Sent, about to be sent, and in the channel, for a watcher that still receives.\<close>

definition coming :: "'e server \<Rightarrow> 'e watcher \<Rightarrow> ServingStatus list" where
  "coming s w = (case w of
      WReceive c \<Rightarrow> map fillProtoStatus (buffers s c)
    | WSend c st \<Rightarrow> fillProtoStatus st # map fillProtoStatus (buffers s c)
    | _ \<Rightarrow> [])"

definition stream_of :: "nat \<Rightarrow> 'e server \<Rightarrow> ServingStatus list" where
  "stream_of i s = sent_by i s @ coming s (watchers s ! i)"

fun chan_of :: "'e watcher \<Rightarrow> nat option" where
  "chan_of (WReceive c) = Some c"
| "chan_of (WSend c _) = Some c"
| "chan_of (WRemove c) = Some c"
| "chan_of _ = None"

text \<open>The received reports that have been passed on to a channel, if it was subscribed.\<close>

definition passed_on :: "'e Status list \<Rightarrow> 'e broadcaster \<Rightarrow> nat option \<Rightarrow> 'e Status list" where
  "passed_on got b c = (case b of
      BReceive \<Rightarrow> got
    | BLock _ \<Rightarrow> butlast got
    | BSend _ rest \<Rightarrow> if c \<in> Some ` set rest then butlast got else got)"

text \<open>A first status that was published, or none yet, and then published ones in their order.\<close>

definition stream_ok :: "'e Status list \<Rightarrow> 'e Status list \<Rightarrow> ServingStatus list \<Rightarrow> bool" where
  "stream_ok pub d str \<longleftrightarrow> (case str of [] \<Rightarrow> True
     | x # xs \<Rightarrow> x \<in> fillProtoStatus ` set (no_status # pub) \<and> subseq xs (map fillProtoStatus d))"

lemma stream_ok_mono:
  assumes "stream_ok pub d str" "set pub \<subseteq> set pub'" "subseq d d'"
  shows "stream_ok pub' d' str"
  using assms subseq_map [OF assms(3), of fillProtoStatus]
  by (auto simp: stream_ok_def split: list.splits intro: subseq_order.trans)

lemma stream_ok_snoc:
  assumes "stream_ok pub d str" "st \<in> set pub"
  shows "stream_ok pub (d @ [st]) (str @ [fillProtoStatus st])"
  using assms by (cases str) (auto simp: stream_ok_def)

lemma stream_ok_prefix: "stream_ok pub d (xs @ ys) \<Longrightarrow> stream_ok pub d xs"
  by (cases xs) (auto simp: stream_ok_def intro: subseq_order.trans [of _ "_ @ ys"])

lemma stream_ok_start: "st \<in> set (no_status # pub) \<Longrightarrow> stream_ok pub d [fillProtoStatus st]"
  by (auto simp: stream_ok_def)

section \<open>The invariant\<close>

definition broadcasting :: "'e Status list \<Rightarrow> 'e server \<Rightarrow> bool" where
  "broadcasting got s \<longleftrightarrow> (case bc s of
      BReceive \<Rightarrow> True
    | BLock st \<Rightarrow> got \<noteq> [] \<and> last got = st
    | BSend st rest \<Rightarrow> got \<noteq> [] \<and> last got = st \<and> distinct rest \<and> list_all (\<lambda>c. c < next_chan s) rest)"

definition channels_ok :: "'e server \<Rightarrow> bool" where
  "channels_ok s \<longleftrightarrow> distinct (statusChans s) \<and> list_all (\<lambda>c. c < next_chan s) (statusChans s)
     \<and> (\<forall>i < length (watchers s). \<forall>c. chan_of (watchers s ! i) = Some c \<longrightarrow> c < next_chan s
          \<and> (\<forall>j < length (watchers s). chan_of (watchers s ! j) = Some c \<longrightarrow> j = i))"

definition streams_ok :: "'e Status list \<Rightarrow> 'e Status list \<Rightarrow> 'e server \<Rightarrow> bool" where
  "streams_ok pub got s \<longleftrightarrow> (\<forall>i < length (watchers s).
     stream_ok pub (passed_on got (bc s) (chan_of (watchers s ! i))) (stream_of i s)
     \<and> (watchers s ! i = WSubscribe \<longrightarrow> sent_by i s = []))"

definition server_inv :: "'e Status list \<Rightarrow> 'e Status list \<Rightarrow> 'e Status \<Rightarrow> 'e server \<Rightarrow> bool" where
  "server_inv pub got st s \<longleftrightarrow> reports s = [] \<and> last_status s = st \<and> broadcasting got s \<and> channels_ok s \<and> streams_ok pub got s"

lemma subseq_butlast: "subseq (butlast xs) xs"
  by (rule prefix_imp_subseq [OF prefixeq_butlast])

lemma passed_on_le: "subseq (passed_on got b c) got"
  by (auto simp: passed_on_def subseq_butlast split: broadcaster.splits)

text \<open>Only what the broadcaster and the watchers look at matters.\<close>

lemma stream_of_simps [simp]:
  "stream_of i (s\<lparr>last_status := st\<rparr>) = stream_of i s" "stream_of i (s\<lparr>bc := b\<rparr>) = stream_of i s"
  "stream_of i (s\<lparr>lock := h\<rparr>) = stream_of i s" "stream_of i (s\<lparr>reports := r\<rparr>) = stream_of i s"
  "sent_by i (s\<lparr>last_status := st\<rparr>) = sent_by i s" "sent_by i (s\<lparr>bc := b\<rparr>) = sent_by i s"
  "sent_by i (s\<lparr>lock := h\<rparr>) = sent_by i s" "sent_by i (s\<lparr>reports := r\<rparr>) = sent_by i s"
  "sent_by i (push_status c st s) = sent_by i s"
  by (simp_all add: stream_of_def sent_by_def coming_def push_status_def split: watcher.splits)

lemma channels_ok_simps [simp]:
  "channels_ok (s\<lparr>last_status := st\<rparr>) = channels_ok s" "channels_ok (s\<lparr>bc := b\<rparr>) = channels_ok s"
  "channels_ok (s\<lparr>lock := h\<rparr>) = channels_ok s" "channels_ok (s\<lparr>reports := r\<rparr>) = channels_ok s"
  "channels_ok (push_status c st s) = channels_ok s"
  by (simp_all add: channels_ok_def push_status_def)

lemma channels_distinct: "channels_ok s \<Longrightarrow> distinct (statusChans s) \<and> list_all (\<lambda>c. c < next_chan s) (statusChans s)"
  by (simp add: channels_ok_def)

lemma watchers_push [simp]: "watchers (push_status c st s) = watchers s"
  by (simp add: push_status_def)

lemma streams_ok_mono:
  assumes "streams_ok pub got s" "\<And>c. subseq (passed_on got (bc s) c) (passed_on got' (bc s') c)" "set pub \<subseteq> set pub'"
    "watchers s' = watchers s" "\<And>i. stream_of i s' = stream_of i s" "\<And>i. sent_by i s' = sent_by i s"
  shows "streams_ok pub' got' s'"
  unfolding streams_ok_def assms(4-6)
proof (intro allI impI conjI)
  fix i assume i: "i < length (watchers s)"
  with assms(1) have "stream_ok pub (passed_on got (bc s) (chan_of (watchers s ! i))) (stream_of i s)"
    by (simp add: streams_ok_def)
  then show "stream_ok pub' (passed_on got' (bc s') (chan_of (watchers s ! i))) (stream_of i s)"
    using assms(3,2) by (rule stream_ok_mono)
  show "sent_by i s = []" if "watchers s ! i = WSubscribe" using assms(1) i that by (simp add: streams_ok_def)
qed

lemma server_inv_published:
  assumes "server_inv pub got st s" "set pub \<subseteq> set pub'"
  shows "server_inv pub' got st' (s\<lparr>last_status := st'\<rparr>)"
proof -
  have "streams_ok pub' got (s\<lparr>last_status := st'\<rparr>)"
    by (rule streams_ok_mono [of pub got s]) (use assms in \<open>simp_all add: server_inv_def\<close>)
  with assms(1) show ?thesis by (simp add: server_inv_def broadcasting_def split: broadcaster.splits)
qed

lemma server_inv_received:
  assumes "server_inv pub got st s" "bc s = BReceive"
  shows "server_inv pub (got @ [x]) st (server_step BMove (s\<lparr>reports := [x]\<rparr>))"
proof -
  have e: "server_step BMove (s\<lparr>reports := [x]\<rparr>) = s\<lparr>reports := [], bc := BLock x\<rparr>"
    using assms(2) by (simp add: server_step_def broadcaster_step_def)
  have "streams_ok pub (got @ [x]) (s\<lparr>reports := [], bc := BLock x\<rparr>)"
    by (rule streams_ok_mono [of pub got s]) (use assms in \<open>simp_all add: server_inv_def passed_on_def\<close>)
  with assms(1) show ?thesis by (simp add: e server_inv_def broadcasting_def)
qed

lemma stream_of_push:
  "stream_of i (push_status c st s) =
     (case watchers s ! i of
        WReceive d \<Rightarrow> if d = c then stream_of i s @ [fillProtoStatus st] else stream_of i s
      | WSend d _ \<Rightarrow> if d = c then stream_of i s @ [fillProtoStatus st] else stream_of i s
      | _ \<Rightarrow> stream_of i s)"
  by (auto simp: stream_of_def coming_def push_status_def sent_by_def split: watcher.splits)

lemma passed_on_sent:
  assumes "got \<noteq> []" "distinct (c # rest)"
  shows "passed_on got (BSend st rest) (Some c) = passed_on got (BSend st (c # rest)) (Some c) @ [last got]"
    and "d \<noteq> Some c \<Longrightarrow> passed_on got (BSend st rest) d = passed_on got (BSend st (c # rest)) d"
  using assms by (auto simp: passed_on_def)

lemma server_inv_pushed:
  assumes inv: "server_inv pub got st0 s" and bc: "bc s = BSend st (c # rest)" and got: "set got \<subseteq> set pub"
  shows "server_inv pub got st0 ((push_status c st s)\<lparr>bc := BSend st rest\<rparr>)"
proof -
  have b: "got \<noteq> []" "last got = st" "distinct (c # rest)" using inv bc by (auto simp: server_inv_def broadcasting_def)
  have "st \<in> set pub" using b(1,2) got by auto
  have "stream_ok pub (passed_on got (BSend st rest) (chan_of (watchers s ! i))) (stream_of i (push_status c st s))"
    if i: "i < length (watchers s)" for i
  proof -
    have ok: "stream_ok pub (passed_on got (BSend st (c # rest)) (chan_of (watchers s ! i))) (stream_of i s)"
      using inv i bc by (simp add: server_inv_def streams_ok_def)
    show ?thesis
    proof (cases "chan_of (watchers s ! i) = Some c")
      case True
      have more: "stream_ok pub (passed_on got (BSend st rest) (Some c)) (stream_of i s @ [fillProtoStatus st])"
        unfolding passed_on_sent(1) [OF b(1,3)] b(2)
        using stream_ok_snoc [OF ok [unfolded True] \<open>st \<in> set pub\<close>] .
      show ?thesis using True more stream_ok_prefix [OF more] by (cases "watchers s ! i") (auto simp: stream_of_push)
    next
      case False
      with ok passed_on_sent(2) [OF b(1,3) False] show ?thesis
        by (cases "watchers s ! i") (auto simp: stream_of_push)
    qed
  qed
  then have "streams_ok pub got ((push_status c st s)\<lparr>bc := BSend st rest\<rparr>)"
    using inv by (simp add: streams_ok_def server_inv_def)
  moreover have "reports (push_status c st s) = reports s" "last_status (push_status c st s) = last_status s"
    "next_chan (push_status c st s) = next_chan s" by (simp_all add: push_status_def)
  ultimately show ?thesis using inv bc by (simp add: server_inv_def broadcasting_def)
qed

lemma server_inv_broadcast:
  assumes inv: "server_inv pub got st s" and "bc s \<noteq> BReceive" and got: "set got \<subseteq> set pub"
  shows "server_inv pub got st (server_step BMove s)"
proof (cases "bc s")
  case (BLock x)
  let ?s = "s\<lparr>lock := ByBroadcaster, bc := BSend x (statusChans s)\<rparr>"
  have "streams_ok pub got ?s"
    by (rule streams_ok_mono [of pub got s]) (use inv BLock in \<open>simp_all add: server_inv_def passed_on_def subseq_butlast\<close>)
  then have "server_inv pub got st ?s"
    using inv BLock channels_distinct [of s] by (simp add: server_inv_def broadcasting_def)
  then show ?thesis using inv BLock by (simp add: server_step_def broadcaster_step_def)
next
  case (BSend x cs)
  show ?thesis
  proof (cases cs)
    case Nil
    have "streams_ok pub got (s\<lparr>lock := Free, bc := BReceive\<rparr>)"
      by (rule streams_ok_mono [of pub got s]) (use inv BSend Nil in \<open>simp_all add: server_inv_def passed_on_def\<close>)
    with inv BSend Nil show ?thesis
      by (simp add: server_step_def broadcaster_step_def server_inv_def broadcasting_def)
  next
    case (Cons c rest)
    with server_inv_pushed [OF inv _ got] BSend inv show ?thesis
      by (simp add: server_step_def broadcaster_step_def)
  qed
qed (use assms in simp)

lemma suffix_drop_le: "suffix (drop (Suc n) xs) (drop n xs)"
  by (metis drop_Suc suffix_drop tl_drop drop_drop plus_1_eq_Suc)

lemma subseq_keeps:
  "subseq xs ys \<Longrightarrow> set xs \<subseteq> set ys" "subseq xs ys \<Longrightarrow> distinct ys \<Longrightarrow> distinct xs"
proof -
  show sub: "set xs \<subseteq> set ys" if "subseq xs ys" for xs ys :: "'a list"
    using that by (induction rule: list_emb.induct) auto
  show "distinct xs" if "subseq xs ys" "distinct ys"
    using that by (induction rule: list_emb.induct) (auto dest: sub)
qed

lemma remove_loop_subseq: "subseq (fst (remove_loop is ch chs)) chs"
proof (induction "is" ch chs rule: remove_loop.induct)
  case (2 i "is" ch chs)
  have "subseq (take i chs @ drop (i + 1) chs) (take i chs @ drop i chs)"
    by (rule list_emb_append_mono) (simp_all add: suffix_imp_subseq suffix_drop_le)
  with 2 show ?case by (auto intro: subseq_order.trans)
qed simp

lemma channel_bound:
  "channels_ok s \<Longrightarrow> k < length (watchers s) \<Longrightarrow> chan_of (watchers s ! k) = Some c \<Longrightarrow> c < next_chan s"
  unfolding channels_ok_def by blast

lemma channel_owner:
  "channels_ok s \<Longrightarrow> j < length (watchers s) \<Longrightarrow> chan_of (watchers s ! j) = Some c \<Longrightarrow>
     k < length (watchers s) \<Longrightarrow> chan_of (watchers s ! k) = Some c \<Longrightarrow> j = k"
  unfolding channels_ok_def by blast

text \<open>What a move of watcher \<open>i\<close> has to keep.\<close>

lemma channels_ok_watcher:
  assumes "channels_ok s" "i < length (watchers s)" "watchers s' = (watchers s)[i := w]" "next_chan s \<le> next_chan s'"
    "distinct (statusChans s')" "list_all (\<lambda>c. c < next_chan s') (statusChans s')"
    "\<And>c. chan_of w = Some c \<Longrightarrow> chan_of (watchers s ! i) = Some c \<or> (next_chan s \<le> c \<and> c < next_chan s')"
  shows "channels_ok s'"
proof -
  note bound = channel_bound [OF assms(1)] and owner = channel_owner [OF assms(1)]
  have "c < next_chan s' \<and> (\<forall>j < length (watchers s'). chan_of (watchers s' ! j) = Some c \<longrightarrow> j = k)"
    if k: "k < length (watchers s')" "chan_of (watchers s' ! k) = Some c" for k c
  proof -
    have m: "chan_of w = Some c \<or> j \<noteq> i \<and> chan_of (watchers s ! j) = Some c"
      if "j < length (watchers s')" "chan_of (watchers s' ! j) = Some c" for j
      using that assms(3) by (cases "j = i") auto
    have lt: "c < next_chan s'"
    proof (cases "chan_of w = Some c")
      case True
      from assms(7) [OF True] bound [OF assms(2)] assms(4) show ?thesis by fastforce
    next
      case False
      with m [OF k] bound [of k c] assms(3,4) k(1) show ?thesis by simp
    qed
    have "j = k" if j: "j < length (watchers s')" "chan_of (watchers s' ! j) = Some c" for j
    proof (cases "chan_of w = Some c")
      case True
      have "k' = i" if "k' < length (watchers s')" "chan_of (watchers s' ! k') = Some c" for k'
      proof (rule ccontr)
        assume ne: "k' \<noteq> i"
        with that assms(3) have k': "k' < length (watchers s)" "chan_of (watchers s ! k') = Some c" by simp_all
        from assms(7) [OF True] show False
        proof
          assume "chan_of (watchers s ! i) = Some c"
          with owner [OF k' assms(2)] ne show False by simp
        next
          assume "next_chan s \<le> c \<and> c < next_chan s'"
          with bound [OF k'] show False by simp
        qed
      qed
      with j k show ?thesis by blast
    next
      case False
      with m [OF j] m [OF k] have "chan_of (watchers s ! j) = Some c" "chan_of (watchers s ! k) = Some c" by simp_all
      with owner [of j c k] j(1) k(1) assms(3) show ?thesis by simp
    qed
    with lt show ?thesis by blast
  qed
  with assms(5,6) show ?thesis unfolding channels_ok_def by blast
qed

lemma stream_other:
  assumes "watchers s' ! j = watchers s ! j" "sent_by j s' = sent_by j s"
    "\<And>c. chan_of (watchers s ! j) = Some c \<Longrightarrow> buffers s' c = buffers s c"
  shows "stream_of j s' = stream_of j s"
  using assms by (cases "watchers s ! j") (simp_all add: stream_of_def coming_def)

lemma streams_ok_watcher:
  assumes "streams_ok pub got s" "i < length (watchers s)" "watchers s' = (watchers s)[i := w]" "bc s' = bc s"
    "\<And>j. j \<noteq> i \<Longrightarrow> sent_by j s' = sent_by j s"
    "\<And>j c. j \<noteq> i \<Longrightarrow> j < length (watchers s) \<Longrightarrow> chan_of (watchers s ! j) = Some c \<Longrightarrow> buffers s' c = buffers s c"
    "stream_ok pub (passed_on got (bc s) (chan_of w)) (sent_by i s' @ coming s' w)" "w \<noteq> WSubscribe"
  shows "streams_ok pub got s'"
  unfolding streams_ok_def
proof (intro allI impI conjI)
  fix j assume j: "j < length (watchers s')"
  show "stream_ok pub (passed_on got (bc s') (chan_of (watchers s' ! j))) (stream_of j s')"
  proof (cases "j = i")
    case True
    with assms(2,3,4,7) show ?thesis by (simp add: stream_of_def)
  next
    case False
    with j assms(3) have w: "watchers s' ! j = watchers s ! j" "j < length (watchers s)" by simp_all
    have "stream_of j s' = stream_of j s" by (rule stream_other) (use False w assms(5,6) in auto)
    with assms(1,4) w show ?thesis by (simp add: streams_ok_def)
  qed
  show "sent_by j s' = []" if "watchers s' ! j = WSubscribe"
    using that j assms(1,2,3,5,8) by (cases "j = i") (auto simp: streams_ok_def)
qed

lemma server_inv_watcher:
  assumes inv: "server_inv pub got st s" and st: "st \<in> set (no_status # pub)"
  shows "server_inv pub got st (server_step (WMove i ok) s)"
proof (cases "i < length (watchers s)")
  case i: True
  have ch: "channels_ok s" and str: "streams_ok pub got s" and bcast: "broadcasting got s"
    and rep: "reports s = []" "last_status s = st"
    using inv by (simp_all add: server_inv_def)
  note dist = channels_distinct [OF ch]
  have mine: "stream_ok pub (passed_on got (bc s) (chan_of (watchers s ! i))) (sent_by i s @ coming s (watchers s ! i))"
    using str i by (simp add: streams_ok_def stream_of_def)
  have step: "server_inv pub got st s'"
    if "watchers s' = (watchers s)[i := w]" "next_chan s \<le> next_chan s'" "subseq (statusChans s') (statusChans s @ new)"
      "bc s' = bc s" "reports s' = reports s" "last_status s' = last_status s"
      "new = [] \<and> next_chan s' = next_chan s \<or> new = [next_chan s] \<and> next_chan s' = Suc (next_chan s)"
      "\<And>c. chan_of w = Some c \<Longrightarrow> chan_of (watchers s ! i) = Some c \<or> (next_chan s \<le> c \<and> c < next_chan s')"
      "\<And>j. j \<noteq> i \<Longrightarrow> sent_by j s' = sent_by j s"
      "\<And>j c. j \<noteq> i \<Longrightarrow> j < length (watchers s) \<Longrightarrow> chan_of (watchers s ! j) = Some c \<Longrightarrow> buffers s' c = buffers s c"
      "stream_ok pub (passed_on got (bc s) (chan_of w)) (sent_by i s' @ coming s' w)" "w \<noteq> WSubscribe"
    for s' w new
  proof -
    have "distinct (statusChans s @ new)" "list_all (\<lambda>c. c < next_chan s') (statusChans s @ new)"
      using dist that(7) by (auto simp: list_all_iff)
    then have "distinct (statusChans s')" "list_all (\<lambda>c. c < next_chan s') (statusChans s')"
      using subseq_keeps [OF that(3)] by (auto simp: list_all_iff)
    with channels_ok_watcher [OF ch i that(1,2)] that(8) have "channels_ok s'" by blast
    moreover have "streams_ok pub got s'"
      by (rule streams_ok_watcher [OF str i that(1,4,9,10,11,12)])
    moreover have "broadcasting got s'"
      using bcast that(4) less_le_trans [OF _ that(2)]
      by (cases "bc s") (auto simp: broadcasting_def list_all_iff)
    ultimately show ?thesis using rep that(5,6) by (simp add: server_inv_def)
  qed
  have same: "next_chan s \<le> next_chan s" "subseq (statusChans s) (statusChans s @ [])" by simp_all
  have event: "server_step (WMove i ok) s = (case watcher_step ok i s of None \<Rightarrow> s | Some s' \<Rightarrow> s')"
    using i by (simp add: server_step_def)
  have to_remove: "server_inv pub got st (s\<lparr>watchers := (watchers s)[i := WRemove c]\<rparr>)"
    if "chan_of (watchers s ! i) = Some c" for c
    by (rule step [where w = "WRemove c" and new = "[]"])
      (use that mine in \<open>simp_all add: sent_by_def coming_def stream_ok_prefix\<close>)
  have removed: "server_inv pub got st (s\<lparr>statusChans := chs, chan_closed := closed, watchers := (watchers s)[i := w]\<rparr>)"
    if "subseq chs (statusChans s)" "w = WReturned \<or> w = WPanicked" "watchers s ! i = WRemove c" for chs closed w c
  proof -
    have "subseq (passed_on got (bc s) (Some c)) (passed_on got (bc s) None)"
      by (auto simp: passed_on_def subseq_butlast split: broadcaster.splits)
    with mine that(3) have "stream_ok pub (passed_on got (bc s) None) (sent_by i s)"
      by (auto simp: coming_def intro: stream_ok_mono)
    then show ?thesis
      by (intro step [where w = w and new = "[]"]) (use that in \<open>auto simp: sent_by_def coming_def\<close>)
  qed
  show ?thesis
  proof (cases "watchers s ! i")
    case WSubscribe
    let ?c = "next_chan s"
    have "stream_ok pub d [fillProtoStatus (last_status s)]" for d using st rep(2) by (simp add: stream_ok_start)
    moreover have "sent_by i s = []" using str i WSubscribe by (simp add: streams_ok_def)
    moreover have "j < length (watchers s) \<Longrightarrow> chan_of (watchers s ! j) = Some d \<Longrightarrow> d \<noteq> ?c" for j d
      using channel_bound [OF ch] by blast
    ultimately have "server_inv pub got st (s\<lparr>next_chan := Suc ?c, statusChans := statusChans s @ [?c],
        buffers := (buffers s)(?c := [last_status s]), watchers := (watchers s)[i := WReceive ?c]\<rparr>)"
      by (intro step [where w = "WReceive ?c" and new = "[?c]"]) (auto simp: sent_by_def coming_def)
    with inv WSubscribe show ?thesis
      unfolding event by (simp add: watcher_step_def newStatusChan_def Let_def)
  next
    case (WReceive c)
    show ?thesis
    proof (cases "buffers s c")
      case Nil
      with inv WReceive to_remove [of c] show ?thesis unfolding event by (simp add: watcher_step_def)
    next
      case (Cons x xs)
      have "server_inv pub got st (s\<lparr>buffers := (buffers s)(c := xs), watchers := (watchers s)[i := WSend c x]\<rparr>)"
        using mine WReceive Cons channel_owner [OF ch _ _ i, of _ c]
        by (intro step [where w = "WSend c x" and new = "[]"]) (auto simp: sent_by_def coming_def)
      with WReceive Cons show ?thesis unfolding event by (simp add: watcher_step_def)
    qed
  next
    case (WSend c x)
    have "server_inv pub got st (s\<lparr>sent := sent s @ [(i, fillProtoStatus x)], watchers := (watchers s)[i := WReceive c]\<rparr>)"
      by (rule step [where w = "WReceive c" and new = "[]"])
        (use mine WSend in \<open>auto simp: sent_by_def coming_def\<close>)
    with WSend to_remove [of c] show ?thesis unfolding event by (simp add: watcher_step_def)
  next
    case (WRemove c)
    obtain chs p where p: "removeStatusChan c (statusChans s) = (chs, p)" by fastforce
    with remove_loop_subseq [of "[0..<length (statusChans s)]" c "statusChans s"]
    have sub: "subseq chs (statusChans s)" by (simp add: removeStatusChan_def)
    have e: "s\<lparr>statusChans := chs, watchers := (watchers s)[i := WPanicked]\<rparr>
        = s\<lparr>statusChans := chs, chan_closed := chan_closed s, watchers := (watchers s)[i := WPanicked]\<rparr>" by simp
    have "server_inv pub got st (s\<lparr>statusChans := chs, watchers := (watchers s)[i := WPanicked]\<rparr>)"
      unfolding e by (rule removed [OF sub _ WRemove]) simp
    with p WRemove inv removed [OF sub _ WRemove] show ?thesis
      unfolding event by (cases p) (auto simp: watcher_step_def)
  qed (use inv in \<open>simp_all add: event watcher_step_def\<close>)
qed (use inv in \<open>simp add: server_step_def\<close>)

section \<open>Both sides\<close>

definition watch_inv :: "('e \<Rightarrow> 'e \<Rightarrow> bool option) \<Rightarrow> 'e watch_sys \<Rightarrow> bool" where
  "watch_inv err_eq s \<longleftrightarrow> runner_inv err_eq (runner_side s)
     \<and> server_inv (published (rn (runner_side s))) (consumed (rn (runner_side s))) (lastStatus (rn (runner_side s))) (server_side s)"

lemma subseq_set: "subseq xs ys \<Longrightarrow> set xs \<subseteq> set ys"
  by (rule subseq_keeps)

text \<open>What the runner does only adds to what it published, and leaves what was received.\<close>

lemma runner_moves:
  assumes "\<not> consumes ev"
  shows "set (published (rn s)) \<subseteq> set (published (rn (health_step err_eq ev s)))
    \<and> consumed (rn (health_step err_eq ev s)) = consumed (rn s)"
proof (cases ev)
  case (Move i st)
  show ?thesis
  proof (cases "cycles s ! i")
    case (CyclePublish status)
    with Move publish_inv [of err_eq status "rn s"] show ?thesis
      by (auto simp: health_step_def cycle_move_def split: exec.splits)
  qed (auto simp: Move health_step_def cycle_move_def)
qed (use assms in \<open>auto simp: health_step_def StopRunner_def check_panics_def\<close>)

lemma watch_inv_step:
  assumes inv: "watch_inv err_eq s"
  shows "watch_inv err_eq (watch_step err_eq ev s)"
proof (cases "crashed (runner_side s)")
  case False
  let ?r = "rn (runner_side s)"
  have run: "runner_inv err_eq (runner_side s)"
    and sv: "server_inv (published ?r) (consumed ?r) (lastStatus ?r) (server_side s)"
    using inv by (simp_all add: watch_inv_def)
  have sub: "subseq (consumed ?r @ reportChan ?r) (published ?r)" using run by (simp add: runner_inv_def)
  from subseq_set [OF this] have got: "set (consumed ?r) \<subseteq> set (published ?r)" by simp
  show ?thesis
  proof (cases ev)
    case (RunnerDoes hev)
    show ?thesis
    proof (cases "consumes hev")
      case True
      with inv RunnerDoes False show ?thesis by (simp add: watch_step_def)
    next
      case no: False
      from runner_moves [OF no, of "runner_side s" err_eq] server_inv_published [OF sv] health_step_inv [OF run, of hev]
      show ?thesis by (simp add: watch_step_def RunnerDoes False no runner_does_def Let_def watch_inv_def)
    qed
  next
    case BroadcasterMoves
    show ?thesis
    proof (cases "bc (server_side s) = BReceive")
      case True
      show ?thesis
      proof (cases "reportChan ?r")
        case Nil
        with inv True False BroadcasterMoves show ?thesis by (simp add: watch_step_def broadcaster_moves_def)
      next
        case (Cons x xs)
        have "rn (health_step err_eq Consume (runner_side s)) = ?r\<lparr>reportChan := xs, consumed := consumed ?r @ [x]\<rparr>"
          using Cons False by (simp add: health_step_def)
        with server_inv_received [OF sv True, of x] health_step_inv [OF run, of Consume] show ?thesis
          by (simp add: watch_step_def BroadcasterMoves False broadcaster_moves_def True Cons watch_inv_def)
      qed
    next
      case no: False
      from server_inv_broadcast [OF sv no got] run no show ?thesis
        by (cases "bc (server_side s)")
          (simp_all add: watch_step_def BroadcasterMoves False broadcaster_moves_def watch_inv_def)
    qed
  next
    case (WatcherMoves i ok)
    have "lastStatus ?r \<in> set (no_status # published ?r)"
      using run by (metis runner_inv_def last_in_set list.distinct(1))
    from server_inv_watcher [OF sv this, of i ok] run show ?thesis
      by (simp add: watch_step_def WatcherMoves False watch_inv_def)
  qed
qed (use inv in \<open>simp add: watch_step_def\<close>)

lemma watch_run_inv: "watch_inv err_eq s \<Longrightarrow> watch_inv err_eq (watch_run err_eq evs s)"
  unfolding watch_run_def by (induction evs arbitrary: s) (simp_all add: watch_inv_step)

lemma watch_inv_start:
  fixes err_eq :: "'e \<Rightarrow> 'e \<Rightarrow> bool option"
  shows "watch_inv err_eq (watch_start options names n)"
proof -
  have new: "runner_inv err_eq (health_start (NewRunner options))"
    by (simp add: runner_inv_def health_start_def NewRunner_def cycles_inside_def no_status_def)
  define r :: "'e runner" where "r = fold AddCheck names (NewRunner options)"
  have "runner_inv err_eq (health_start r)" unfolding r_def using new by (rule runner_inv_AddChecks)
  moreover have "server_inv (published r) (consumed r) (lastStatus r) (NewServer (lastStatus r) n)"
    by (auto simp: server_inv_def NewServer_def broadcasting_def channels_ok_def streams_ok_def stream_of_def sent_by_def
        coming_def stream_ok_def)
  ultimately show ?thesis
    by (simp add: watch_inv_def watch_start_def Let_def r_def [symmetric]) (simp add: health_start_def)
qed

section \<open>Properties\<close>

text \<open>
  C38. What the health service tells its clients is what the runner published. In every
  interleaving of cycles, ticks, calls of \<open>Stop\<close>, the broadcaster and any number of watchers, with
  streams that fail at any point: \<open>Check\<close> answers with the status published last, and each
  \<open>Watch\<close> stream is sent a first status that was the current one and after it statuses that were
  published, in the order in which they were, though some may be missing.
\<close>

theorem watch_streams_in_order:
  fixes err_eq :: "'e \<Rightarrow> 'e \<Rightarrow> bool option" and evs options names n
  defines "s \<equiv> watch_run err_eq evs (watch_start options names n)"
  shows "hs_Check (rn (runner_side s)) = fillProtoStatus (last (no_status # published (rn (runner_side s))))
    \<and> (case sent_by i (server_side s) of [] \<Rightarrow> True
       | x # xs \<Rightarrow> (if i < length (watchers (server_side s))
           then x \<in> fillProtoStatus ` set (no_status # published (rn (runner_side s)))
             \<and> subseq xs (map fillProtoStatus (published (rn (runner_side s)))) else True))"
proof -
  let ?r = "rn (runner_side s)"
  have inv: "watch_inv err_eq s" unfolding s_def by (intro watch_run_inv watch_inv_start)
  then have run: "runner_inv err_eq (runner_side s)" by (simp add: watch_inv_def)
  have "stream_ok (published ?r) (published ?r) (sent_by i (server_side s))" if i: "i < length (watchers (server_side s))"
  proof -
    have "subseq (consumed ?r) (published ?r)"
    proof (rule subseq_order.trans)
      show "subseq (consumed ?r) (consumed ?r @ reportChan ?r)" by (intro prefix_imp_subseq) simp
      show "subseq (consumed ?r @ reportChan ?r) (published ?r)" using run by (simp add: runner_inv_def)
    qed
    then have le: "subseq (passed_on (consumed ?r) b c) (published ?r)" for b c
      using passed_on_le subseq_order.trans by blast
    have "stream_ok (published ?r) (passed_on (consumed ?r) (bc (server_side s)) (chan_of (watchers (server_side s) ! i)))
        (sent_by i (server_side s) @ coming (server_side s) (watchers (server_side s) ! i))"
      using inv i by (simp add: watch_inv_def server_inv_def streams_ok_def stream_of_def)
    then show ?thesis using stream_ok_prefix stream_ok_mono [OF _ subset_refl le] by blast
  qed
  with run show ?thesis
    by (auto simp: hs_Check_def runner_inv_def stream_ok_def split: list.splits)
qed

text \<open>
  The last status may be among the missing ones. Here the runner reports a failure, which waits in the
  report channel, and recovers: the second report is dropped. When everything has come to rest
  \<open>Check\<close> answers that the service is serving, and the watcher has last been told that it is not.
\<close>

definition recovering_run :: "nat watch_event list" where
  "recovering_run =
    (let cycle = (\<lambda>i st. [RunnerDoes StartCall, RunnerDoes (Move i st), RunnerDoes (Move i st), RunnerDoes (Move i st), RunnerDoes (Move i st)])
     in cycle 0 healthy0 @ replicate 3 BroadcasterMoves @ replicate 3 (WatcherMoves 0 True)
       @ cycle 1 \<lparr>State = StateUnhealthy, Error = Some 7, Source = ''db''\<rparr> @ cycle 2 healthy0
       @ replicate 4 BroadcasterMoves @ replicate 2 (WatcherMoves 0 True))"

lemma watcher_misses_recovery:
  "let s = watch_run (\<lambda>a b. Some (a = b)) recovering_run (watch_start [] [''db''] 1)
   in hs_Check (rn (runner_side s)) = SERVING \<and> sent_by 0 (server_side s) = [SERVING, NOT_SERVING]
     \<and> reportChan (rn (runner_side s)) = [] \<and> bc (server_side s) = BReceive
     \<and> watchers (server_side s) = [WReceive 0] \<and> buffers (server_side s) 0 = []"
  by code_simp

end
