(* ===== verification/Surface.thy ===== *)
theory Surface
  imports Gateway HttpClient HealthServer
begin

text \<open>
  What the packages offer around their operations: the package-level HTTP client
  (\<open>src/client/http/http.go\<close>), the options of the client managers and the loggers they install
  (\<open>src/client/cache\<close>, \<open>database\<close>, \<open>pulsar\<close>), the package functions of \<open>jsonpb\<close>, and the
  accessors of services and health runners.
\<close>

section \<open>The HTTP client of the package\<close>

text \<open>Durations are in nanoseconds. The proxy is that of the environment.\<close>

record http_transport =
  dial_Timeout :: int
  dial_KeepAlive :: int
  MaxIdleConns :: int
  IdleConnTimeout :: int
  TLSHandshakeTimeout :: int
  ExpectContinueTimeout :: int

definition init_transport :: http_transport where
  "init_transport = \<lparr>dial_Timeout = 10 ^ 9, dial_KeepAlive = 30 * 10 ^ 9, MaxIdleConns = 100,
     IdleConnTimeout = 90 * 10 ^ 9, TLSHandshakeTimeout = 10 * 10 ^ 9, ExpectContinueTimeout = 10 ^ 9\<rparr>"

text \<open>
  The client is an interface value: what it does with a request, or nil. \<open>client_of\<close> gives
  the method of a client that \<open>GetClient\<close> has made, over what sends its requests.
\<close>

definition client_of ::
  "('d, 'e) http_env \<Rightarrow> (int \<Rightarrow> request \<Rightarrow> 'e + int \<times> ('e + string)) \<Rightarrow> (int \<Rightarrow> request \<Rightarrow> 'e + int \<times> string) \<Rightarrow>
     http_client \<Rightarrow> ('d, 'e) requester option" where
  "client_of env Do DoTimeout client = (case client of
      DefaultClient t \<Rightarrow> Some (DefaultClient_RequestJSON env (Do t))
    | FastHTTPClient t \<Rightarrow> Some (FastHTTPClient_RequestJSON env (DoTimeout t))
    | NilClient \<Rightarrow> None)"

record ('d, 'e) http_package =
  transport :: http_transport
  pkg_client :: "('d, 'e) requester option"

definition http_init ::
  "('d, 'e) http_env \<Rightarrow> (int \<Rightarrow> request \<Rightarrow> 'e + int \<times> ('e + string)) \<Rightarrow> (int \<Rightarrow> request \<Rightarrow> 'e + int \<times> string) \<Rightarrow>
     ('d, 'e) http_package" where
  "http_init env Do DoTimeout = \<lparr>transport = init_transport, pkg_client = client_of env Do DoTimeout NewDefaultClient\<rparr>"

definition SetClient :: "('d, 'e) requester option \<Rightarrow> ('d, 'e) http_package \<Rightarrow> ('d, 'e) http_package" where
  "SetClient client p = p\<lparr>pkg_client := client\<rparr>"

definition pkg_RequestJSON :: "('d, 'e) http_package \<Rightarrow> ('d, 'e) requester" where
  "pkg_RequestJSON p respData verb url format data hs = (case pkg_client p of
      None \<Rightarrow> Panic NilDereference
    | Some client \<Rightarrow> client respData verb url format data hs)"

text \<open>
  The package functions go to the client that was set last; before any is set, to a default
  client with a timeout of ten seconds.
\<close>

lemma package_client:
  "pkg_client (http_init env Do DoTimeout) = Some (DefaultClient_RequestJSON env (Do (10 * 10 ^ 9)))"
  "GetJSON (pkg_RequestJSON (SetClient (Some client) p)) = GetJSON client"
  "PostForm (pkg_RequestJSON (SetClient (Some client) p)) = PostForm client"
  "PostJSON (pkg_RequestJSON (SetClient (Some client) p)) = PostJSON client"
  by (simp_all add: http_init_def client_of_def NewDefaultClient_def GetClient_def ClientNetHTTP_def SetClient_def
      pkg_RequestJSON_def GetJSON_def PostForm_def PostJSON_def fun_eq_iff)

section \<open>Options of the client managers\<close>

text \<open>The three packages have the same options: a pointer to a logger.\<close>

record client_options =
  opt_logger :: "logger option"

type_synonym client_option = "client_options \<Rightarrow> client_options"

definition WithLogger :: "logger option \<Rightarrow> client_option" where
  "WithLogger l = (\<lambda>o'. o'\<lparr>opt_logger := l\<rparr>)"

definition apply_client_options :: "client_option list \<Rightarrow> client_options" where
  "apply_client_options options = fold (\<lambda>f. f) options \<lparr>opt_logger = None\<rparr>"

text \<open>The logger of go-redis is a variable of that package; a nil logger leaves it as it was.\<close>

definition initRedis :: "client_option list \<Rightarrow> logger option \<Rightarrow> logger option" where
  "initRedis options current = (case opt_logger (apply_client_options options) of None \<Rightarrow> current | Some l \<Rightarrow> Some l)"

lemma initRedis_last: "initRedis (options @ [WithLogger l]) current = (if l = None then current else l)"
  by (simp add: initRedis_def apply_client_options_def WithLogger_def split: option.split)

text \<open>The logger of gorm keeps its level whatever it is told, and formats three kinds of lines.\<close>

definition db_LogMode :: "int \<Rightarrow> gorm_logger \<Rightarrow> gorm_logger" where
  "db_LogMode level l = l"

definition db_log :: "wrapper_call \<Rightarrow> string \<Rightarrow> logger option \<Rightarrow> (RequestLog.log_level \<times> string) option exec" where
  "db_log call msg l = (case l of
      None \<Rightarrow> Panic NilDereference
    | Some _ \<Rightarrow> Return (case call of
        WrapDebug \<Rightarrow> None
      | WrapInfo \<Rightarrow> Some (LInfo, msg)
      | WrapWarn \<Rightarrow> Some (LWarn, msg)
      | WrapError \<Rightarrow> Some (LError, msg)))"

section \<open>The package functions of jsonpb\<close>

definition pkg_Marshal :: "('v, 'e) json_lib \<Rightarrow> 'v \<Rightarrow> 'e + string" where
  "pkg_Marshal lib v = jsonpb_Marshal lib initJsonpb v"

definition pkg_MarshalString :: "('v, 'e) json_lib \<Rightarrow> 'v \<Rightarrow> 'e option \<times> string" where
  "pkg_MarshalString lib v = jsonpb_MarshalString lib initJsonpb v"

definition pkg_Unmarshal :: "('v, 'e) json_lib \<Rightarrow> string \<Rightarrow> 'v \<Rightarrow> 'e option \<times> 'v" where
  "pkg_Unmarshal lib data v = jsonpb_Unmarshal lib initJsonpb data v"

definition pkg_UnmarshalString :: "('v, 'e) json_lib \<Rightarrow> string \<Rightarrow> 'v \<Rightarrow> 'e option \<times> 'v" where
  "pkg_UnmarshalString lib data v = jsonpb_UnmarshalString lib initJsonpb data v"

text \<open>
  A message that a gRPC client with the JSON codec has sent is read by the package functions
  as by the codec of the server.
\<close>

lemma package_reads_codec:
  "pkg_Unmarshal lib data v = codec_Unmarshal lib RegisterJsonCodec data v"
  "pkg_UnmarshalString lib data v = pkg_Unmarshal lib data v"
  "pkg_Marshal lib v = codec_Marshal lib RegisterJsonCodec v"
  using codecs_agree [of lib v data]
  by (simp_all add: pkg_Unmarshal_def pkg_UnmarshalString_def pkg_Marshal_def)

section \<open>Accessors\<close>

definition GetName :: "('e, 'svc) service \<Rightarrow> string" where "GetName s = sv_name s"
definition GetGrpcEndpoint :: "('e, 'svc) service \<Rightarrow> string" where "GetGrpcEndpoint s = grpcEndpoint s"
definition GetHttpEndpoint :: "('e, 'svc) service \<Rightarrow> string" where "GetHttpEndpoint s = httpEndpoint s"
definition GetServeMux :: "('e, 'svc) service \<Rightarrow> bool" where "GetServeMux s = grpcHttpMux s"
definition GetGinRouter :: "('e, 'svc) service \<Rightarrow> 'svc gin_handler list interface_value" where
  "GetGinRouter s = Pointer (ginEngine s)"
definition GetGrpcServiceRegistrar :: "('e, 'svc) service \<Rightarrow> ('e, 'svc) service" where
  "GetGrpcServiceRegistrar s = s"
definition LastStatus :: "'e runner \<Rightarrow> 'e Status" where "LastStatus r = lastStatus r"
definition StatusReportChan :: "'e runner \<Rightarrow> 'e Status list" where "StatusReportChan r = reportChan r"

text \<open>
  What a service gives away is what its configuration asks for; its router is never the nil
  interface, even without an HTTP endpoint, where it holds a nil engine.
\<close>

lemma service_accessors:
  assumes "newService env self mm config = Return (Inr s)"
  shows "GetName s = svc_Name config \<and> GetGrpcEndpoint s = ep_Grpc (svc_Endpoints config)
    \<and> GetHttpEndpoint s = ep_Http (svc_Endpoints config)
    \<and> (GetServeMux s \<longleftrightarrow> ep_Grpc (svc_Endpoints config) \<noteq> [] \<and> ep_Http (svc_Endpoints config) \<noteq> [])
    \<and> GetGinRouter s \<noteq> NilInterface \<and> (GetGinRouter s = Pointer None \<longleftrightarrow> ep_Http (svc_Endpoints config) = [])"
  by (rule newService_parts [OF assms])
    (auto simp: GetName_def GetGrpcEndpoint_def GetHttpEndpoint_def GetServeMux_def GetGinRouter_def)

end
