(* ===== verification/Spec2Isabelle.thy ===== *)
theory Spec2Isabelle
  imports Prelude UniqueID IdleList Pool DataCache CacheMap Health HealthServer Errors Copy Config Middleware Glob AppRun App Cache Stores HttpClient Grpcex Serve Crypto RequestLog Ginex Encoding Gateway CacheCopy Lifecycle HealthWatch Surface
begin

text \<open>
  A model of framego, a Go framework for micro services, and the theorems that make its parts
  correct.

  \<^bold>\<open>The program.\<close> An application (\<open>src/appmgr\<close>) reads a configuration
  (\<open>src/config\<close>), and makes of it services, each with a gRPC server, an HTTP server and a
  health runner (\<open>src/health\<close>), clients of databases, caches, message queues and other gRPC
  servers (\<open>src/client\<close>), an ID generator (\<open>src/uniqueid\<close>) and an observable service. Requests
  pass through chains of middlewares (\<open>src/appmgr/middleware.go\<close>, \<open>src/grpcex\<close>, \<open>src/ginex\<close>).
  \<open>Run\<close> starts jobs and services and waits until they have stopped. Beside this the framework has
  libraries its users call: caches of loaded data (\<open>src/datacache\<close>), a connection pool
  (\<open>src/pool\<close>), deep copies over that pool (\<open>src/copy\<close>), errors with gRPC statuses
  (\<open>src/errors\<close>), encryption (\<open>src/crypto\<close>), JSON (\<open>src/encoding\<close>) and logging (\<open>src/log\<close>).

  \<^bold>\<open>How the code is modelled.\<close> A struct is a record with the fields of the source, a type switch a
  datatype. A call that can panic has a value of \<open>exec\<close> (\<open>Return\<close> or \<open>Panic\<close>), an error is the left
  side of a sum or an \<open>option\<close>. IDs are 64-bit words; durations and times are integers that are
  wrapped to 64 bits (\<open>i64\<close>) where the code adds them. A goroutine is a program counter in the state
  of its component, a step is a critical section or an access to shared data, and a
  theorem about runs is about every list of events or every reachable state. Recursion that could run
  for ever (\<open>NewID\<close>, and those over chains of causes) is a \<open>partial_function\<close> of type \<open>option\<close>; that
  it returns is proved, so there is no fuel anywhere. Libraries, the clock, random numbers and the
  network are arguments, in records named after their part (\<open>mw_env\<close>, \<open>app_env\<close>, \<open>err_env\<close>,
  \<open>http_env\<close>, \<open>crypto_lib\<close> and so on); each theorem names what it asks of them.

  \<^bold>\<open>The theories.\<close>

  \<^item> \<open>Prelude\<close>: outcomes of calls, \<open>i64\<close>, and the parts of \<open>strings\<close>, \<open>strconv\<close> and
    \<open>fmt\<close> the code uses, with the round trips of integers and text.

  \<^item> \<open>UniqueID\<close> (\<open>uniqueid.go\<close>, \<open>generator.go\<close>): the encrypted Snowflake generator. The locale
    \<open>id_mint\<close> states what an increasing source of plain IDs behind a permutation gives, and is
    interpreted on \<open>snowflakeID\<close>: IDs are distinct, are never reserved, and the generator returns as
    long as ticks are left. Two instances of a deployment never draw the same ID; the text form parses
    back.

  \<^item> \<open>IdleList\<close>, \<open>Pool\<close> (\<open>pool.go\<close>): the doubly linked list over a heap is shown to
    implement the locale \<open>deque\<close>. On it stand the critical sections of \<open>Get\<close>, \<open>Put\<close>, \<open>Close\<close> and \<open>lazyInit\<close>,
    and the interleavings of any number of goroutines: bounds of the counts, each connection in one
    place and closed at most once, nothing left open after \<open>Close\<close>, a bound on the steps of a \<open>Get\<close>,
    and the mutex a \<open>Put\<close> of an unknown connection leaves locked.

  \<^item> \<open>DataCache\<close>, \<open>CacheMap\<close>, \<open>CacheCopy\<close> (\<open>datacache.go\<close>, \<open>datacachemap.go\<close>): the
    value of a load reaches its readers, loads keep their distance, waiting ends, and no key
    shows the value of another, with evictions and batch loads in between; \<open>GetCopy\<close> is composed with
    the copies of \<open>Copy\<close>.

  \<^item> \<open>Copy\<close> (\<open>copy.go\<close>): copies through bytes, and the gob codec that a failed copy spoils.

  \<^item> \<open>Errors\<close> (\<open>error.go\<close>): errors as objects in a heap. The recursions return for every error the
    operations can build, and \<open>GRPCStatus\<close> with its caches equals a search along the chain.

  \<^item> \<open>Config\<close> (\<open>src/config\<close>, \<open>reflect.go\<close>): getters over dynamic values, flags, loading.

  \<^item> \<open>Middleware\<close>, \<open>Ginex\<close>, \<open>Grpcex\<close>, \<open>RequestLog\<close>: the registry (locale \<open>registry\<close>),
    the applier, the built-in middlewares, and those of \<open>src/ginex\<close> and \<open>src/grpcex\<close>. Chains of
    interceptors are functions, so what a handler sees behind access control, recovery or logging is
    proved of the composed chain.

  \<^item> \<open>Glob\<close>: \<open>path.Match\<close> of Go's library over ASCII text, for the patterns of access policies.

  \<^item> \<open>App\<close>, \<open>Gateway\<close> (\<open>app.go\<close>, \<open>service.go\<close>, \<open>observable.go\<close>, \<open>client.go\<close>,
    \<open>grpc.go\<close>, \<open>gin.go\<close>): \<open>Init\<close> with all its stages, services and connections as the records of
    their options, and what starting a service leaves running.

  \<^item> \<open>AppRun\<close>, \<open>Serve\<close>, \<open>Lifecycle\<close>: \<open>Run\<close> as a step relation, with an equivalent
    function on actions; the servers of one service with its wait group; and the two together, where a
    service counts as stopped when its wait group is down to zero. Each run of \<open>Lifecycle\<close> is one of
    \<open>AppRun\<close>. The locale \<open>wait_group\<close> says what stopping relies on, and is interpreted on the
    servers; a measure of the steps that are left shows that stopping ends.

  \<^item> \<open>Health\<close>, \<open>HealthServer\<close>, \<open>HealthWatch\<close> (\<open>runner.go\<close>, \<open>service.go\<close> of
    \<open>src/health\<close>): the checks of a cycle with their unguarded shared status, the cycles of a runner,
    the broadcaster with its lock and channels, and all of it together, for what a watcher is sent.

  \<^item> \<open>Cache\<close>, \<open>Stores\<close>, \<open>HttpClient\<close> (\<open>src/client\<close>): serialisation with integer
    widths and the commands of the cache, connection strings and managers, requests of both HTTP clients.

  \<^item> \<open>Crypto\<close>, \<open>Encoding\<close>, \<open>Surface\<close>: AES-GCM with its nonce header and keyed hashes, the JSON
    codecs, and the package-level state, options and accessors.

  \<^bold>\<open>Bounds.\<close> No theorem bounds the number of goroutines, connections, keys, services or
  requests. The numbers in statements are those of the code (the 41, 10 and 12 bits of an ID, nonces of 12
  bytes, channels with one place) or counts of steps: four for each server that stops, nine for
  each service and twelve for an application.

  \<^bold>\<open>What the proofs do not show.\<close> The Go memory model: shared data is read and written in steps, so a
  data race appears as an order of steps and not as a torn value. Time: deadlines and tickers
  are events that can happen at any moment, and liveness is stated as steps that can be taken and run
  out. The libraries: gRPC and HTTP servers stop as documented, and ciphers, codecs, policies, databases
  and Redis are arguments.

  \<^bold>\<open>Not modelled.\<close> Generated code (\<open>error.pb.go\<close>, \<open>health.pb.gw.go\<close>, \<open>mock_client.go\<close>); the
  interface declarations of \<open>interface.go\<close> and the aliases of \<open>framego.go\<close>, which have no behaviour;
  the unsafe conversions of \<open>utils/string.go\<close>, which are the identity on lists of bytes; \<open>As\<close> of the
  error package and \<open>SetZeroLogger\<close>, which are one call of a library; \<open>GetRawClient\<close>,
  \<open>GetContext\<close> and \<open>GetApp\<close>, which return pointers the model does not keep; the text that is
  printed for people.
\<close>

end
